(* ===== verification/Nebula_Prelude.thy ===== *)
theory Nebula_Prelude
  imports Main "HOL-Library.Word"
begin

text \<open>
  Shared vocabulary of the development: machine integers and byte strings, the exceptions
  of \<^verbatim>\<open>libnebula/Exception.h\<close>, the monad in which every C++ operation is written, and the
  generic lemmas on lists and words the component theories rely on.

  An operation on an object (or on several objects) of state type \<open>'s\<close> is a function
  \<open>'s \<Rightarrow> ((exn + 'a) \<times> 's) option\<close>: \<open>None\<close> is a call that does not return, \<open>Inl e\<close> a call
  that throws \<open>e\<close>, \<open>Inr a\<close> a normal return; in the last two cases the state the call leaves
  behind is part of the result, so that what an exception leaves half done stays visible.
\<close>

unbundle bit_operations_syntax

section \<open>Machine integers and byte strings\<close>

type_synonym byte = "8 word"
type_synonym u16 = "16 word"
type_synonym u32 = "32 word"
type_synonym u64 = "64 word"
type_synonym bytes = "byte list"

section \<open>Exceptions\<close>

text \<open>
  The exception classes of \<^verbatim>\<open>Exception.h\<close>, without their messages, and the exceptions of the
  C++ library the modelled code lets through, \<^verbatim>\<open>boost::filesystem::filesystem_error\<close>,
  \<^verbatim>\<open>std::length_error\<close> and \<^verbatim>\<open>std::bad_alloc\<close>, and undefined behaviour the code can run into (an access outside an array, a null pointer),
  which is kept apart from every exception it throws on purpose.
\<close>

datatype exn =
    FileNotFoundException
  | FileIOException
  | CancelledException
  | DiskQuotaExceededException
  | InvalidArgumentException
  | RepositoryException
  | InvalidRepositoryException
  | InvalidDataException
  | InvalidOperationException
  | EncryptionFailedException
  | InsufficientBufferSizeException
  | LZMAException
  | IndexOutOfBoundException
  | VerificationFailedException
  | ShortReadException
  | InvalidFormatException
  | InitializationException
  | ConnectionException
  | FilesystemError
  | LengthError
  | BadAlloc
  | UndefinedBehaviour

section \<open>The monad of the operations\<close>

type_synonym ('s, 'a) io = "'s \<Rightarrow> ((exn + 'a) \<times> 's) option"

named_theorems io_simps \<open>unfolding of the monad's operations\<close>

definition return_io :: "'a \<Rightarrow> ('s, 'a) io" where
  "return_io a = (\<lambda>s. Some (Inr a, s))"

definition throw_io :: "exn \<Rightarrow> ('s, 'a) io" where
  "throw_io e = (\<lambda>s. Some (Inl e, s))"

definition bind_io :: "('s, 'a) io \<Rightarrow> ('a \<Rightarrow> ('s, 'b) io) \<Rightarrow> ('s, 'b) io" where
  "bind_io m f = (\<lambda>s. case m s of None \<Rightarrow> None
     | Some (Inl e, s') \<Rightarrow> Some (Inl e, s')
     | Some (Inr a, s') \<Rightarrow> f a s')"

definition seq_io :: "('s, 'a) io \<Rightarrow> ('s, 'b) io \<Rightarrow> ('s, 'b) io" where
  "seq_io m k = bind_io m (\<lambda>_. k)"

definition get_io :: "('s, 's) io" where
  "get_io = (\<lambda>s. Some (Inr s, s))"

definition gets_io :: "('s \<Rightarrow> 'a) \<Rightarrow> ('s, 'a) io" where
  "gets_io g = (\<lambda>s. Some (Inr (g s), s))"

definition modify_io :: "('s \<Rightarrow> 's) \<Rightarrow> ('s, unit) io" where
  "modify_io g = (\<lambda>s. Some (Inr (), g s))"

definition guard_io :: "bool \<Rightarrow> exn \<Rightarrow> ('s, unit) io" where
  "guard_io b e = (if b then return_io () else throw_io e)"

text \<open>
  \<open>zoom_io get put m\<close> runs an operation of a member object inside the object that owns it:
  \<open>get\<close> reads the member, \<open>put\<close> stores it back, also when the operation throws.
\<close>

definition zoom_io :: "('s \<Rightarrow> 't) \<Rightarrow> ('t \<Rightarrow> 's \<Rightarrow> 's) \<Rightarrow> ('t, 'a) io \<Rightarrow> ('s, 'a) io" where
  "zoom_io g p m = (\<lambda>s. case m (g s) of None \<Rightarrow> None | Some (r, t) \<Rightarrow> Some (r, p t s))"

text \<open>
  \<open>with_local m t k\<close> runs an operation of a local object \<open>t\<close> of the function and goes on with its result
  and the object; when it throws, the object is gone.
\<close>

definition with_local :: "('t, 'a) io \<Rightarrow> 't \<Rightarrow> ('a \<Rightarrow> 't \<Rightarrow> ('s, 'b) io) \<Rightarrow> ('s, 'b) io" where
  "with_local m t k = (\<lambda>s. case m t of None \<Rightarrow> None
     | Some (Inl e, _) \<Rightarrow> Some (Inl e, s)
     | Some (Inr a, t') \<Rightarrow> k a t' s)"

text \<open>A C library call that reports failure by a null result, turned into an exception.\<close>

definition lift_option :: "exn \<Rightarrow> 'a option \<Rightarrow> ('s, 'a) io" where
  "lift_option e x = (case x of None \<Rightarrow> throw_io e | Some a \<Rightarrow> return_io a)"

definition lift_sum :: "exn + 'a \<Rightarrow> ('s, 'a) io" where
  "lift_sum x = (case x of Inl e \<Rightarrow> throw_io e | Inr a \<Rightarrow> return_io a)"

lemma lift_sum_simps [simp]: "lift_sum (Inl e) = throw_io e" "lift_sum (Inr a) = return_io a"
  by (simp_all add: lift_sum_def)

lemma return_io_apply [simp, io_simps]: "return_io a s = Some (Inr a, s)"
  by (simp add: return_io_def)

lemma throw_io_apply [simp, io_simps]: "throw_io e s = Some (Inl e, s)"
  by (simp add: throw_io_def)

lemma gets_io_apply [simp, io_simps]: "gets_io g s = Some (Inr (g s), s)"
  by (simp add: gets_io_def)

lemma get_io_apply [simp, io_simps]: "get_io s = Some (Inr s, s)"
  by (simp add: get_io_def)

lemma modify_io_apply [simp, io_simps]: "modify_io g s = Some (Inr (), g s)"
  by (simp add: modify_io_def)

lemma guard_io_True [simp, io_simps]: "guard_io True e = return_io ()"
  by (simp add: guard_io_def)

lemma guard_io_False [simp, io_simps]: "guard_io False e = throw_io e"
  by (simp add: guard_io_def)

lemma lift_option_Some [simp, io_simps]: "lift_option e (Some a) = return_io a"
  by (simp add: lift_option_def)

lemma lift_option_None [simp, io_simps]: "lift_option e None = throw_io e"
  by (simp add: lift_option_def)

lemma bind_io_Inr [simp]: "m s = Some (Inr a, s') \<Longrightarrow> bind_io m f s = f a s'"
  by (simp add: bind_io_def)

lemma bind_io_False [simp]: "m s = Some (Inr False, s') \<Longrightarrow> bind_io m f s = f False s'"
  by (simp add: bind_io_def)

lemma bind_io_Inl [simp]: "m s = Some (Inl e, s') \<Longrightarrow> bind_io m f s = Some (Inl e, s')"
  by (simp add: bind_io_def)

lemma bind_io_None [simp]: "m s = None \<Longrightarrow> bind_io m f s = None"
  by (simp add: bind_io_def)

lemma bind_io_return [simp]: "bind_io (return_io a) f = f a"
  by (simp add: bind_io_def return_io_def)

lemma bind_io_throw [simp]: "bind_io (throw_io e) f = throw_io e"
  by (rule ext) simp

lemma bind_io_assoc: "bind_io (bind_io m f) g = bind_io m (\<lambda>a. bind_io (f a) g)"
  by (rule ext) (auto simp: bind_io_def split: option.split sum.split)

lemma seq_io_Inr [simp]: "m s = Some (Inr a, s') \<Longrightarrow> seq_io m k s = k s'"
  by (simp add: seq_io_def)

lemma seq_io_Inl [simp]: "m s = Some (Inl e, s') \<Longrightarrow> seq_io m k s = Some (Inl e, s')"
  by (simp add: seq_io_def)

lemma seq_io_None [simp]: "m s = None \<Longrightarrow> seq_io m k s = None"
  by (simp add: seq_io_def)

lemma seq_io_return [simp]: "seq_io (return_io a) k = k"
  by (simp add: seq_io_def)

lemma seq_io_throw [simp]: "seq_io (throw_io e) k = throw_io e"
  by (simp add: seq_io_def)

lemma zoom_io_Some [simp]: "m (g s) = Some (r, t) \<Longrightarrow> zoom_io g p m s = Some (r, p t s)"
  by (simp add: zoom_io_def)

lemma zoom_io_None [simp]: "m (g s) = None \<Longrightarrow> zoom_io g p m s = None"
  by (simp add: zoom_io_def)

lemma with_local_Inr [simp]: "m t = Some (Inr a, t') \<Longrightarrow> with_local m t k = k a t'"
  by (rule ext) (simp add: with_local_def)

lemma with_local_Inl [simp]: "m t = Some (Inl e, t') \<Longrightarrow> with_local m t k = throw_io e"
  by (rule ext) (simp add: with_local_def)

lemma bind_io_eq_Inr:
  "bind_io m f s = Some (Inr b, s'') \<longleftrightarrow> (\<exists>a s'. m s = Some (Inr a, s') \<and> f a s' = Some (Inr b, s''))"
  by (auto simp: bind_io_def split: option.splits sum.splits)

text \<open>The monad's sequencing is monotone, so loops over it can be defined by
  \<^theory_text>\<open>partial_function (option)\<close>, \<open>None\<close> being the loop that never ends.\<close>

lemma bind_io_mono [partial_function_mono]:
  fixes m :: "('f \<Rightarrow> 'r option) \<Rightarrow> ('s, 'a) io" and k :: "'a \<Rightarrow> ('f \<Rightarrow> 'r option) \<Rightarrow> ('s, 'b) io"
  assumes "\<And>s. mono_option (\<lambda>f. m f s)" and "\<And>a s. mono_option (\<lambda>f. k a f s)"
  shows "mono_option (\<lambda>f. bind_io (m f) (\<lambda>a. k a f) s)"
  unfolding monotone_def
proof (intro allI impI)
  fix f g :: "'f \<Rightarrow> 'r option"
  assume fg: "option.le_fun f g"
  have m: "option_ord (m f s) (m g s)"
    using assms(1) fg unfolding monotone_def by blast
  have k: "option_ord (k a f s') (k a g s')" for a s'
    using assms(2) fg unfolding monotone_def by blast
  show "option_ord (bind_io (m f) (\<lambda>a. k a f) s) (bind_io (m g) (\<lambda>a. k a g) s)"
  proof (cases "m f s")
    case None
    then show ?thesis by (simp add: bind_io_def flat_ord_def)
  next
    case (Some rs)
    with m have "m g s = Some rs" by (simp add: flat_ord_def)
    moreover obtain r s' where "rs = (r, s')" by (cases rs)
    ultimately show ?thesis
      using Some k by (cases r) (simp_all add: bind_io_def flat_ord_def)
  qed
qed

section \<open>Lists\<close>

text \<open>A C buffer of which the first bytes have been overwritten: what \<^verbatim>\<open>read(buf, n)\<close> leaves
  in \<open>buf\<close> when it delivers fewer bytes than the buffer holds.\<close>

definition overwrite :: "'a list \<Rightarrow> 'a list \<Rightarrow> 'a list" where
  "overwrite buf xs = xs @ drop (length xs) buf"

lemma length_overwrite [simp]: "length xs \<le> length buf \<Longrightarrow> length (overwrite buf xs) = length buf"
  by (simp add: overwrite_def)

lemma overwrite_full [simp]: "length buf \<le> length xs \<Longrightarrow> overwrite buf xs = xs"
  by (simp add: overwrite_def)

lemma min_eq_0_nat [simp]: "min a b = 0 \<longleftrightarrow> a = 0 \<or> b = (0 :: nat)"
  by (auto simp: min_def)

lemma drop_add_drop: "drop m (drop n xs) = drop (n + m) xs"
  by (simp add: add.commute)

lemma take_drop_take: "n \<le> m \<Longrightarrow> take n (take m xs) = take n xs"
  by (simp add: min_absorb1)

lemma append_take_take_drop: "take n xs @ take m (drop n xs) = take (n + m) xs"
  by (simp add: take_add)

section \<open>Positional notation\<close>

text \<open>The \<open>k\<close> most significant-first digits of \<open>x\<close> to the base \<open>B\<close>, and the number a list of
  digits denotes.\<close>

fun digits_be :: "nat \<Rightarrow> nat \<Rightarrow> nat \<Rightarrow> nat list" where
  "digits_be B 0 x = []"
| "digits_be B (Suc k) x = digits_be B k (x div B) @ [x mod B]"

definition value_be :: "nat \<Rightarrow> nat list \<Rightarrow> nat" where
  "value_be B ds = foldl (\<lambda>n d. n * B + d) 0 ds"

lemma length_digits_be [simp]: "length (digits_be B k x) = k"
  by (induction k arbitrary: x) simp_all

lemma digits_be_less: "0 < B \<Longrightarrow> d \<in> set (digits_be B k x) \<Longrightarrow> d < B"
  by (induction k arbitrary: x) auto

lemma digits_be_add: "digits_be B (j + k) x = digits_be B j (x div B ^ k) @ digits_be B k x"
  by (induction k arbitrary: x) (simp_all add: div_mult2_eq)

lemma digits_be_mod: "digits_be B k (x mod B ^ k) = digits_be B k x"
proof (induction k arbitrary: x)
  case (Suc k)
  have "x mod (B * B ^ k) div B = x div B mod B ^ k"
    by (cases "B = 0") (simp_all add: mod_mult2_eq)
  moreover have "x mod (B * B ^ k) mod B = x mod B"
    by (simp add: mod_mod_cancel)
  ultimately show ?case using Suc by simp
qed simp

lemma div_mult_add_less: "r < b \<Longrightarrow> (q * b + r) div b = (q :: nat)"
  by (cases "b = 0") simp_all

lemma mod_mult_add_less: "r < b \<Longrightarrow> (q * b + r) mod b = (r :: nat)"
  by simp

lemma digits_be_mult_add:
  "r < B ^ k \<Longrightarrow> digits_be B (j + k) (q * B ^ k + r) = digits_be B j q @ digits_be B k r"
  by (simp add: digits_be_add div_mult_add_less flip: digits_be_mod [of B k "q * B ^ k + r"])

lemma value_be_Nil [simp]: "value_be B [] = 0"
  by (simp add: value_be_def)

lemma value_be_snoc [simp]: "value_be B (ds @ [d]) = value_be B ds * B + d"
  by (simp add: value_be_def)

lemma value_be_append: "value_be B (xs @ ys) = value_be B xs * B ^ length ys + value_be B ys"
proof (induction ys rule: rev_induct)
  case (snoc y ys)
  have "value_be B (xs @ ys @ [y]) = value_be B ((xs @ ys) @ [y])" by simp
  also have "\<dots> = value_be B (xs @ ys) * B + y" by (rule value_be_snoc)
  finally show ?case by (simp add: snoc algebra_simps)
qed simp

lemma value_be_Cons: "value_be B (x # ys) = x * B ^ length ys + value_be B ys"
  using value_be_append [of B "[x]" ys] by (simp add: value_be_def)

lemma value_be_less: "(\<And>d. d \<in> set ds \<Longrightarrow> d < B) \<Longrightarrow> value_be B ds < B ^ length ds"
proof (induction ds rule: rev_induct)
  case (snoc d ds)
  then have "value_be B ds + 1 \<le> B ^ length ds" and "d < B" by auto
  then have "(value_be B ds + 1) * B \<le> B ^ length ds * B" by (intro mult_le_mono1)
  with \<open>d < B\<close> show ?case by (simp add: algebra_simps)
qed simp

lemma digits_be_value_be:
  "(\<And>d. d \<in> set ds \<Longrightarrow> d < B) \<Longrightarrow> digits_be B (length ds) (value_be B ds) = ds"
proof (induction ds rule: rev_induct)
  case (snoc d ds)
  then show ?case by (simp add: div_mult_add_less)
qed simp

lemma value_be_digits_be: "value_be B (digits_be B k x) = x mod B ^ k"
  by (induction k arbitrary: x) (simp_all add: mod_mult2_eq)

section \<open>Bit operations on integers\<close>

lemma int_push_bit_or: "0 \<le> b \<Longrightarrow> b < 2 ^ n \<Longrightarrow> push_bit n a OR b = a * 2 ^ n + (b :: int)"
  using concat_bit_eq [of n b a]
  by (simp add: concat_bit_def push_bit_eq_mult take_bit_int_eq_self or.commute)

lemma nat_push_bit_or: "b < 2 ^ n \<Longrightarrow> push_bit n a OR b = a * 2 ^ n + (b :: nat)"
proof -
  assume "b < 2 ^ n"
  then have "int (push_bit n a OR b) = int (a * 2 ^ n + b)"
    using int_push_bit_or [of "int b" n "int a"] by (simp add: of_nat_or_eq push_bit_of_nat)
  then show ?thesis by (simp only: of_nat_eq_iff)
qed

lemma int_and_mask: "(x :: int) AND (2 ^ n - 1) = x mod 2 ^ n"
  by (simp add: take_bit_eq_mod flip: take_bit_eq_mask mask_eq_exp_minus_1)

lemma nat_and_mask: "(x :: nat) AND (2 ^ n - 1) = x mod 2 ^ n"
  using take_bit_eq_mask [of n x] by (simp add: take_bit_eq_mod mask_eq_exp_minus_1)

end
