(* ===== verification/Base32.thy ===== *)
theory Base32
  imports Nebula_Prelude
begin

text \<open>
  \<^verbatim>\<open>libnebula/Base32.cpp\<close>: the encoder and the decoder of object names. The C \<open>unsigned int\<close>
  accumulator of the encoder is a 32-bit word; the \<open>int\<close> digits of the decoder are integers,
  truncated to a byte where the source stores them into \<open>uint8_t\<close>. A buffer that is written
  through a pointer is returned as the list of the characters written.

  The encoder is shown to write the digits of the big-endian number its input denotes, the
  decoder to read them back, for every input and every buffer that is large enough.
\<close>

section \<open>Definitions\<close>

definition base32hex :: string where
  "base32hex = ''abcdefghijklmnopqrstuvwxyz234567''"

text \<open>\<^verbatim>\<open>tolower\<close> of the C locale.\<close>

definition tolower :: "char \<Rightarrow> char" where
  "tolower c = (if 65 \<le> (of_char c :: nat) \<and> (of_char c :: nat) \<le> 90
                then char_of ((of_char c :: nat) + 32) else c)"

definition hex32ToInt :: "char \<Rightarrow> exn + int" where
  "hex32ToInt ch =
     (let c = (of_char (tolower ch) :: int) in
      if 97 \<le> c \<and> c \<le> 122 then Inr (c - 97)
      else if 50 \<le> c \<and> c \<le> 55 then Inr (c - 50 + 26)
      else Inl InvalidArgumentException)"

text \<open>The inner loop of the encoder: while five bits are pending, write a digit.\<close>

fun encode_digits :: "u32 \<Rightarrow> nat \<Rightarrow> nat \<Rightarrow> exn + u32 \<times> nat \<times> nat \<times> string" where
  "encode_digits value validBits outLen =
     (if 5 \<le> validBits then
        let shift = validBits - 5; idx = drop_bit shift value AND 0x1F in
        if outLen \<le> 0 then Inl InsufficientBufferSizeException
        else case encode_digits (value AND (push_bit shift 1 - 1)) (validBits - 5) (outLen - 1) of
               Inl e \<Rightarrow> Inl e
             | Inr (v, n, l, out) \<Rightarrow> Inr (v, n, l, base32hex ! unat idx # out)
      else Inr (value, validBits, outLen, []))"

declare encode_digits.simps [simp del]

text \<open>The outer loop, over the input bytes.\<close>

fun encode_bytes :: "bytes \<Rightarrow> u32 \<Rightarrow> nat \<Rightarrow> nat \<Rightarrow> exn + u32 \<times> nat \<times> nat \<times> string" where
  "encode_bytes [] value validBits outLen = Inr (value, validBits, outLen, [])"
| "encode_bytes (b # data) value validBits outLen =
     (case encode_digits (push_bit 8 value OR ucast b) (validBits + 8) outLen of
        Inl e \<Rightarrow> Inl e
      | Inr (v, n, l, out) \<Rightarrow>
          (case encode_bytes data v n l of
             Inl e \<Rightarrow> Inl e
           | Inr (v', n', l', out') \<Rightarrow> Inr (v', n', l', out @ out')))"

text \<open>The result is what the call leaves in \<^verbatim>\<open>outString\<close>, the terminating NUL included.\<close>

definition base32encode :: "bytes \<Rightarrow> nat \<Rightarrow> exn + string" where
  "base32encode data outLen =
     (case encode_bytes data 0 0 outLen of
        Inl e \<Rightarrow> Inl e
      | Inr (value, validBits, l, out) \<Rightarrow>
          (if 0 < validBits then
             if l \<le> 0 then Inl InsufficientBufferSizeException
             else let v = push_bit (5 - validBits) value AND 0x1F in
                  if l - 1 \<le> 0 then Inl InsufficientBufferSizeException
                  else Inr (out @ [base32hex ! unat v, CHR 0x00])
           else if l \<le> 0 then Inl InsufficientBufferSizeException
           else Inr (out @ [CHR 0x00])))"

text \<open>The five bytes of a group of digits; the decoder's shorter tail groups compute a prefix
  of them with the same expressions.\<close>

definition group_bytes :: "int \<Rightarrow> int \<Rightarrow> int \<Rightarrow> int \<Rightarrow> int \<Rightarrow> int \<Rightarrow> int \<Rightarrow> int \<Rightarrow> bytes" where
  "group_bytes a b c d e f g h =
     [word_of_int (push_bit 3 a OR drop_bit 2 b),
      word_of_int (push_bit 6 (b AND 3) OR push_bit 1 c OR drop_bit 4 d),
      word_of_int (push_bit 4 (d AND 0xF) OR drop_bit 1 e),
      word_of_int (push_bit 7 (e AND 1) OR push_bit 2 f OR drop_bit 3 g),
      word_of_int (push_bit 5 (g AND 7) OR h)]"

definition digits_to_bytes :: "int list \<Rightarrow> bytes" where
  "digits_to_bytes ds =
     group_bytes (ds ! 0) (ds ! 1) (ds ! 2) (ds ! 3) (ds ! 4) (ds ! 5) (ds ! 6) (ds ! 7)"

fun map_digits :: "string \<Rightarrow> exn + int list" where
  "map_digits [] = Inr []"
| "map_digits (c # cs) =
     (case hex32ToInt c of
        Inl e \<Rightarrow> Inl e
      | Inr d \<Rightarrow> (case map_digits cs of Inl e \<Rightarrow> Inl e | Inr ds \<Rightarrow> Inr (d # ds)))"

text \<open>The number of bytes a tail of \<open>inLen & 7\<close> digits holds (the two \<^verbatim>\<open>switch\<close> statements).\<close>

definition extra_bytes :: "nat \<Rightarrow> nat option" where
  "extra_bytes r = (if r = 0 then Some 0 else if r = 2 then Some 1 else if r = 4 then Some 2
                    else if r = 5 then Some 3 else if r = 7 then Some 4 else None)"

text \<open>The loop over the full groups, then the tail.\<close>

fun decode_groups :: "string \<Rightarrow> exn + bytes" where
  "decode_groups cs =
     (if length cs < 8 then
        (if cs = [] then Inr []
         else case extra_bytes (length cs) of
                None \<Rightarrow> Inl InvalidArgumentException
              | Some n \<Rightarrow>
                  (case map_digits cs of
                     Inl e \<Rightarrow> Inl e
                   | Inr ds \<Rightarrow> Inr (take n (digits_to_bytes (ds @ replicate (8 - length cs) 0)))))
      else case map_digits (take 8 cs) of
             Inl e \<Rightarrow> Inl e
           | Inr ds \<Rightarrow> (case decode_groups (drop 8 cs) of
                          Inl e \<Rightarrow> Inl e
                        | Inr bs \<Rightarrow> Inr (digits_to_bytes ds @ bs)))"

declare decode_groups.simps [simp del]

definition base32decode :: "string \<Rightarrow> nat \<Rightarrow> exn + bytes" where
  "base32decode s outLen =
     (case extra_bytes (length s AND 7) of
        None \<Rightarrow> Inl InvalidArgumentException
      | Some extra \<Rightarrow>
          (if outLen < drop_bit 3 (length s) * 5 + extra then Inl InsufficientBufferSizeException
           else decode_groups s))"

section \<open>The encoder\<close>

lemma map_hex32ToInt: "map hex32ToInt base32hex = map (\<lambda>i. Inr (int i)) [0..<32]"
  by (simp add: base32hex_def hex32ToInt_def tolower_def upt_rec)

lemma base32hex_digit: "i < 32 \<Longrightarrow> hex32ToInt (base32hex ! i) = Inr (int i)"
proof -
  assume i: "i < 32"
  moreover have "length base32hex = 32" by (simp add: base32hex_def)
  ultimately have "hex32ToInt (base32hex ! i) = map hex32ToInt base32hex ! i" by simp
  with i show ?thesis by (simp add: map_hex32ToInt)
qed

lemma map_digits_base32hex:
  "(\<And>d. d \<in> set ds \<Longrightarrow> d < 32) \<Longrightarrow> map_digits (map ((!) base32hex) ds) = Inr (map int ds)"
  by (induction ds) (simp_all add: base32hex_digit)

lemma unat_push_byte:
  assumes "unat (v :: u32) < 2 ^ 24"
  shows "unat (push_bit 8 v OR ucast (b :: byte)) = unat v * 256 + unat b"
proof -
  have b: "unat b < 2 ^ 8" using unsigned_less [of b, where ?'a = nat] by simp
  have "push_bit 8 (unat v) < 2 ^ 32" using assms by (simp add: push_bit_eq_mult)
  with b have "unat (push_bit 8 v OR (ucast b :: u32)) = push_bit 8 (unat v) OR unat b"
    by (simp add: unsigned_or_eq unsigned_push_bit_eq unsigned_ucast_eq take_bit_nat_eq_self)
  with b show ?thesis using nat_push_bit_or [of "unat b" 8 "unat v"] by simp
qed

lemma unat_digit:
  assumes "unat (v :: u32) < 2 ^ (s + 5)"
  shows "unat (drop_bit s v AND 0x1F) = unat v div 2 ^ s"
proof -
  have "unat v div 2 ^ s < 2 ^ 5"
    using assms by (simp add: power_add less_mult_imp_div_less mult.commute)
  moreover have "unat (drop_bit s v AND 0x1F) = unat v div 2 ^ s AND 0x1F"
    by (simp add: unsigned_and_eq unat_drop_bit_eq flip: drop_bit_eq_div)
  ultimately show ?thesis using nat_and_mask [of "unat v div 2 ^ s" 5] by simp
qed

lemma unat_low_bits: "unat ((v :: u32) AND (push_bit s 1 - 1)) = unat v mod 2 ^ s"
proof -
  have "push_bit s 1 - 1 = (mask s :: u32)" by (simp add: mask_eq_exp_minus_1 push_bit_eq_mult)
  then have "v AND (push_bit s 1 - 1) = take_bit s v" by (simp only: take_bit_eq_mask)
  then have "unat (v AND (push_bit s 1 - 1)) = take_bit s (unat v)"
    by (simp only: unsigned_take_bit_eq)
  then show ?thesis by (simp only: take_bit_eq_mod)
qed

text \<open>What the inner loop leaves: the five-bit digits above the pending bits, most significant
  first, and the pending bits.\<close>

lemma encode_digits_ok:
  "unat v < 2 ^ n \<Longrightarrow> n \<le> 32 \<Longrightarrow> n div 5 \<le> l \<Longrightarrow>
   \<exists>v'. encode_digits v n l =
          Inr (v', n mod 5, l - n div 5, map ((!) base32hex) (digits_be 32 (n div 5) (unat v div 2 ^ (n mod 5))))
        \<and> unat v' = unat v mod 2 ^ (n mod 5)"
proof (induction v n l rule: encode_digits.induct)
  case (1 v n l)
  show ?case
  proof (cases "5 \<le> n")
    case False
    with 1(2) show ?thesis by (simp add: encode_digits.simps [of v n l])
  next
    case True
    define s where "s = n - 5"
    define w where "w = v AND (push_bit s 1 - 1)"
    have w': "w = v AND (2 ^ s - 1)" by (simp add: w_def)
    have n: "n = s + 5" using True by (simp add: s_def)
    then have n': "n div 5 = Suc (s div 5)" "n mod 5 = s mod 5" by simp_all
    have w: "unat w = unat v mod 2 ^ s" by (simp only: w_def unat_low_bits)
    have l: "0 < l" "s div 5 \<le> l - 1" using 1(4) n' by simp_all
    obtain v' where rec: "encode_digits w s (l - 1) =
        Inr (v', s mod 5, l - 1 - s div 5,
             map ((!) base32hex) (digits_be 32 (s div 5) (unat w div 2 ^ (s mod 5))))"
      and v': "unat v' = unat w mod 2 ^ (s mod 5)"
      using 1(1)[OF True, of s "drop_bit s v AND 0x1F"] l 1(3) w by (fastforce simp: s_def w_def)
    have pow: "(2::nat) ^ s = 2 ^ (s mod 5) * 32 ^ (s div 5)"
    proof -
      have "(32::nat) = 2 ^ 5" by simp
      then have "(2::nat) ^ (s mod 5) * 32 ^ (s div 5) = 2 ^ (s mod 5 + 5 * (s div 5))"
        by (simp only: power_mult power_add)
      then show ?thesis by simp
    qed
    have top: "unat (drop_bit s v AND 0x1F) = unat v div 2 ^ (s mod 5) div 32 ^ (s div 5)"
      using 1(2) n by (simp add: unat_digit pow div_mult2_eq)
    have low: "unat w div 2 ^ (s mod 5) = unat v div 2 ^ (s mod 5) mod 32 ^ (s div 5)"
      by (simp add: w pow mod_mult2_eq)
    have dig: "digits_be 32 (n div 5) (unat v div 2 ^ (n mod 5)) =
        unat (drop_bit s v AND 0x1F) # digits_be 32 (s div 5) (unat w div 2 ^ (s mod 5))"
    proof -
      have "unat (drop_bit s v AND 0x1F) < 32"
        using 1(2) n by (simp add: unat_digit less_mult_imp_div_less power_add mult.commute)
      then show ?thesis
        using digits_be_add [of 32 1 "s div 5" "unat v div 2 ^ (s mod 5)"]
        by (simp add: n' top low digits_be_mod)
    qed
    have "unat v' = unat v mod 2 ^ (n mod 5)"
      using v' n' by (simp add: w pow mod_mult2_eq mod_mod_cancel)
    then show ?thesis
      using True l rec dig n'
      by (simp add: encode_digits.simps [of v n l] Let_def flip: s_def w')
  qed
qed

text \<open>The outer loop, by induction over the input: with \<open>m\<close> bits pending, the digits written are
  those of the number made of the pending bits followed by the input.\<close>

abbreviation value_bytes :: "bytes \<Rightarrow> nat" where
  "value_bytes bs \<equiv> value_be 256 (map unat bs)"

lemma unat_byte_less [simp]: "unat (b :: byte) < 256"
  using unsigned_less [of b, where ?'a = nat] by simp

lemma value_bytes_less: "value_bytes bs < 2 ^ (8 * length bs)"
proof -
  have "value_bytes bs < 256 ^ length (map unat bs)" by (rule value_be_less) auto
  then show ?thesis by (simp add: power_mult)
qed

lemma encode_bytes_ok:
  assumes "unat v < 2 ^ m" and "m \<le> 4" and "(m + 8 * length bs) div 5 \<le> l"
  defines "n \<equiv> m + 8 * length bs" and "x \<equiv> unat v * 2 ^ (8 * length bs) + value_bytes bs"
  shows "\<exists>v'. encode_bytes bs v m l =
           Inr (v', n mod 5, l - n div 5, map ((!) base32hex) (digits_be 32 (n div 5) (x div 2 ^ (n mod 5))))
         \<and> unat v' = x mod 2 ^ (n mod 5)"
  using assms(1-3) unfolding n_def x_def
proof (induction bs arbitrary: v m l)
  case Nil
  then show ?case by simp
next
  case (Cons b bs)
  define k where "k = 8 * length bs"
  define x1 where "x1 = unat v * 256 + unat b"
  define r where "r = (m + 8) mod 5"
  define q where "q = (m + 8) div 5"
  have m8: "m + 8 = 5 * q + r" by (simp add: q_def r_def)
  have "(2::nat) ^ m \<le> 2 ^ 24" using Cons.prems(2) by (intro power_increasing) auto
  then have x1: "unat (push_bit 8 v OR ucast b) = x1"
    using Cons.prems(1) unat_push_byte [of v b] by (simp add: x1_def)
  have "Suc (unat v) * 256 \<le> 2 ^ m * 256" using Cons.prems(1) by (intro mult_le_mono1) simp
  then have "x1 < 2 ^ (m + 8)" using unat_byte_less [of b]
    by (simp add: x1_def power_add del: unat_byte_less)
  moreover have "q \<le> l"
    using order_trans [OF div_le_mono Cons.prems(3)] by (simp add: q_def)
  ultimately obtain v1 where enc: "encode_digits (push_bit 8 v OR ucast b) (m + 8) l =
      Inr (v1, r, l - q, map ((!) base32hex) (digits_be 32 q (x1 div 2 ^ r)))"
    and v1: "unat v1 = x1 mod 2 ^ r"
    using encode_digits_ok [of "push_bit 8 v OR ucast b" "m + 8" l] Cons.prems x1
    by (auto simp: q_def r_def)
  define n' where "n' = r + k"
  define x' where "x' = unat v1 * 2 ^ k + value_bytes bs"
  have split5: "m + (8 + k) = 5 * q + n'" using m8 by (simp add: n'_def)
  have n: "(m + (8 + k)) div 5 = q + n' div 5" "(m + (8 + k)) mod 5 = n' mod 5"
    by (simp_all add: split5)
  have "unat v1 < 2 ^ r" "r \<le> 4" by (auto simp: v1 r_def)
  moreover have "n' div 5 \<le> l - q"
    using Cons.prems(3) n(1) by (simp add: k_def)
  ultimately obtain v2 where enc': "encode_bytes bs v1 r (l - q) =
      Inr (v2, n' mod 5, l - q - n' div 5, map ((!) base32hex) (digits_be 32 (n' div 5) (x' div 2 ^ (n' mod 5))))"
    and v2: "unat v2 = x' mod 2 ^ (n' mod 5)"
    using Cons.IH [of v1 r "l - q"] by (auto simp: n'_def x'_def k_def)
  have pow256: "(256::nat) ^ length bs = 2 ^ k" by (simp add: k_def power_mult)
  define x where "x = unat v * 2 ^ (8 + k) + value_be 256 (unat b # map unat bs)"
  have x: "x = (x1 div 2 ^ r) * 2 ^ n' + x'"
  proof -
    have "x = x1 * 2 ^ k + value_bytes bs"
      using pow256 by (simp add: x_def x1_def value_be_Cons power_add algebra_simps)
    also have "x1 = x1 div 2 ^ r * 2 ^ r + unat v1" by (simp only: v1 div_mult_mod_eq)
    finally show ?thesis by (simp add: x'_def n'_def power_add algebra_simps)
  qed
  have x': "x' < 2 ^ n'"
  proof -
    have "Suc (unat v1) * 2 ^ k \<le> 2 ^ r * 2 ^ k" using v1 by (intro mult_le_mono1) (simp add: Suc_le_eq)
    then show ?thesis using value_bytes_less [of bs] by (simp add: x'_def n'_def k_def power_add)
  qed
  have pow: "(2::nat) ^ n' = 32 ^ (n' div 5) * 2 ^ (n' mod 5)"
  proof -
    have "(32::nat) ^ (n' div 5) * 2 ^ (n' mod 5) = 2 ^ (5 * (n' div 5) + n' mod 5)"
      by (simp only: power_mult power_add) simp
    then show ?thesis by simp
  qed
  have xd: "x div 2 ^ (n' mod 5) = (x1 div 2 ^ r) * 32 ^ (n' div 5) + x' div 2 ^ (n' mod 5)"
    by (simp add: x pow mult.assoc [symmetric])
  have "x' div 2 ^ (n' mod 5) < 32 ^ (n' div 5)"
    using x' by (simp add: pow less_mult_imp_div_less)
  then have dig: "digits_be 32 (q + n' div 5) (x div 2 ^ (n' mod 5)) =
      digits_be 32 q (x1 div 2 ^ r) @ digits_be 32 (n' div 5) (x' div 2 ^ (n' mod 5))"
    by (simp add: xd digits_be_mult_add)
  have "x mod 2 ^ (n' mod 5) = unat v2"
    by (simp add: x pow v2 mult.assoc [symmetric])
  with dig enc enc' n show ?case
    by (simp flip: k_def x_def)
qed

text \<open>The reference encoding: as many digits as cover the bits of the input, the last one padded
  with zero bits.\<close>

definition base32_length :: "nat \<Rightarrow> nat" where
  "base32_length n = (8 * n + 4) div 5"

lemma ceil_div5: "(n + 4) div 5 = n div 5 + (if n mod 5 = 0 then 0 else (1::nat))"
  by presburger

lemma base32_length_alt:
  "base32_length n = 8 * n div 5 + (if 8 * n mod 5 = 0 then 0 else 1)"
  unfolding base32_length_def by (rule ceil_div5)

definition base32_spec :: "bytes \<Rightarrow> string" where
  "base32_spec bs =
     (let k = base32_length (length bs)
      in map ((!) base32hex) (digits_be 32 k (value_bytes bs * 2 ^ (5 * k - 8 * length bs))))"

lemma length_base32_spec [simp]: "length (base32_spec bs) = base32_length (length bs)"
  by (simp add: base32_spec_def Let_def)

lemma unat_last_digit:
  assumes "unat (v :: u32) < 2 ^ r" and "r \<le> 5"
  shows "unat (push_bit (5 - r) v AND 0x1F) = unat v * 2 ^ (5 - r)"
proof -
  have "unat v * 2 ^ (5 - r) < 2 ^ r * 2 ^ (5 - r)" using assms(1) by simp
  also have "\<dots> = 2 ^ 5" using assms(2) by (simp flip: power_add)
  finally have x: "unat v * 2 ^ (5 - r) < 2 ^ 5" .
  then have "unat (push_bit (5 - r) v) = unat v * 2 ^ (5 - r)"
    by (simp add: unsigned_push_bit_eq push_bit_eq_mult [of _ "unat v"] take_bit_nat_eq_self
        del: push_bit_eq_mult)
  then have "unat (push_bit (5 - r) v AND 0x1F) = unat v * 2 ^ (5 - r) AND 0x1F"
    by (simp only: unsigned_and_eq) simp
  with x show ?thesis using nat_and_mask [of "unat v * 2 ^ (5 - r)" 5] by simp
qed

lemma base32encode_ok:
  assumes "base32_length (length bs) < outLen"
  shows "base32encode bs outLen = Inr (base32_spec bs @ [CHR 0x00])"
proof -
  define n where "n = 8 * length bs"
  have fits: "n div 5 \<le> outLen" using assms by (simp add: base32_length_def n_def)
  obtain v where enc: "encode_bytes bs 0 0 outLen = Inr (v, n mod 5, outLen - n div 5,
        map ((!) base32hex) (digits_be 32 (n div 5) (value_bytes bs div 2 ^ (n mod 5))))"
    and v: "unat v = value_bytes bs mod 2 ^ (n mod 5)"
    using encode_bytes_ok [of 0 0 bs outLen] fits by (auto simp: n_def)
  show ?thesis
  proof (cases "n mod 5 = 0")
    case True
    then have k: "base32_length (length bs) = n div 5" "5 * (n div 5) = n"
      by (auto simp: base32_length_def n_def)
    with assms enc True show ?thesis
      by (simp add: base32encode_def base32_spec_def Let_def n_def)
  next
    case False
    let ?r = "n mod 5" and ?x = "value_bytes bs"
    have k: "base32_length (length bs) = Suc (n div 5)"
      using False by (simp add: base32_length_alt n_def)
    have pad: "5 * Suc (n div 5) - n = 5 - ?r" by presburger
    have last: "unat (push_bit (5 - ?r) v AND 0x1F) = ?x mod 2 ^ ?r * 2 ^ (5 - ?r)"
      using unat_last_digit [of v ?r] by (simp add: v)
    have p32: "(32::nat) = 2 ^ ?r * 2 ^ (5 - ?r)" by (simp flip: power_add)
    have "?x * 2 ^ (5 - ?r) div 32 = ?x div 2 ^ ?r"
      by (simp add: p32)
    moreover have "?x * 2 ^ (5 - ?r) mod 32 = ?x mod 2 ^ ?r * 2 ^ (5 - ?r)"
      by (simp add: p32 mult_mod_left)
    ultimately show ?thesis
      using assms enc False k last pad
      by (simp add: base32encode_def base32_spec_def Let_def n_def)
  qed
qed

text \<open>When the buffer is too small for the digits and the terminating NUL, the encoder throws.\<close>

lemma encode_digits_error:
  "n \<le> 32 \<Longrightarrow> l < n div 5 \<Longrightarrow> encode_digits v n l = Inl InsufficientBufferSizeException"
proof (induction v n l rule: encode_digits.induct)
  case (1 v n l)
  then have n: "5 \<le> n" by (cases "5 \<le> n") auto
  then have "n div 5 = Suc ((n - 5) div 5)" by (simp add: le_div_geq)
  then have "0 < l \<Longrightarrow> l - 1 < (n - 5) div 5" using 1(3) by linarith
  with 1(1)[OF n] 1(2) n show ?case
    by (auto simp: encode_digits.simps [of v n l] Let_def)
qed

lemma encode_bytes_error:
  "unat v < 2 ^ m \<Longrightarrow> m \<le> 4 \<Longrightarrow> l < (m + 8 * length bs) div 5 \<Longrightarrow>
   encode_bytes bs v m l = Inl InsufficientBufferSizeException"
proof (induction bs arbitrary: v m l)
  case (Cons b bs)
  show ?case
  proof (cases "l < (m + 8) div 5")
    case True
    with Cons.prems show ?thesis by (simp add: encode_digits_error)
  next
    case False
    have "(2::nat) ^ m \<le> 2 ^ 24" using Cons.prems(2) by (intro power_increasing) auto
    moreover have "Suc (unat v) * 256 \<le> 2 ^ m * 256"
      using Cons.prems(1) by (intro mult_le_mono1) simp
    ultimately have "unat (push_bit 8 v OR ucast b) < 2 ^ (m + 8)"
      using unat_push_byte [of v b] Cons.prems(1) unat_byte_less [of b]
      by (simp add: power_add del: unat_byte_less)
    then obtain v1 out where enc: "encode_digits (push_bit 8 v OR ucast b) (m + 8) l =
        Inr (v1, (m + 8) mod 5, l - (m + 8) div 5, out)" and "unat v1 < 2 ^ ((m + 8) mod 5)"
      using encode_digits_ok [of "push_bit 8 v OR ucast b" "m + 8" l] False Cons.prems(2) by auto
    moreover have "l - (m + 8) div 5 < ((m + 8) mod 5 + 8 * length bs) div 5"
    proof -
      have "m + 8 * length (b # bs) = 5 * ((m + 8) div 5) + ((m + 8) mod 5 + 8 * length bs)"
        by (simp flip: add.assoc)
      then have "(m + 8 * length (b # bs)) div 5 =
          (m + 8) div 5 + ((m + 8) mod 5 + 8 * length bs) div 5"
        by (simp only: div_mult_self4)
      with Cons.prems(3) False show ?thesis by linarith
    qed
    ultimately have "encode_bytes bs v1 ((m + 8) mod 5) (l - (m + 8) div 5)
        = Inl InsufficientBufferSizeException"
      by (intro Cons.IH) simp_all
    with enc show ?thesis by simp
  qed
qed simp

lemma base32encode_error:
  assumes "outLen \<le> base32_length (length bs)"
  shows "base32encode bs outLen = Inl InsufficientBufferSizeException"
proof (cases "outLen < 8 * length bs div 5")
  case True
  then show ?thesis using encode_bytes_error [of 0 0 outLen bs] by (simp add: base32encode_def)
next
  case False
  then obtain v out where enc: "encode_bytes bs 0 0 outLen =
      Inr (v, 8 * length bs mod 5, outLen - 8 * length bs div 5, out)"
    using encode_bytes_ok [of 0 0 bs outLen] by auto
  have "outLen - 8 * length bs div 5 \<le> (if 8 * length bs mod 5 = 0 then 0 else 1)"
    using assms False by (simp add: base32_length_alt)
  with enc show ?thesis by (auto simp: base32encode_def split: if_splits)
qed

section \<open>The decoder\<close>

lemma group_bytes_arith:
  assumes "\<And>d. d \<in> {a, b, c, d', e, f, g, h} \<Longrightarrow> 0 \<le> d \<and> d < 32"
  shows "group_bytes a b c d' e f g h =
    [word_of_int (a * 8 + b div 4), word_of_int (b mod 4 * 64 + (c * 2 + d' div 16)),
     word_of_int (d' mod 16 * 16 + e div 2), word_of_int (e mod 2 * 128 + (f * 4 + g div 8)),
     word_of_int (g mod 8 * 32 + h)]"
proof -
  have r: "0 \<le> x" "x < 32" if "x \<in> {a, b, c, d', e, f, g, h}" for x
    using assms that by blast+
  have "push_bit 3 a OR drop_bit 2 b = a * 8 + b div 4"
    using int_push_bit_or [of "b div 4" 3 a] r [of b] by (simp add: drop_bit_eq_div)
  moreover have "push_bit 6 (b AND 3) OR push_bit 1 c OR drop_bit 4 d'
      = b mod 4 * 64 + (c * 2 + d' div 16)"
    using int_push_bit_or [of "d' div 16" 1 c] r [of d'] r [of c] int_and_mask [of b 2]
      int_push_bit_or [of "c * 2 + d' div 16" 6 "b mod 4"]
    by (simp add: drop_bit_eq_div or.assoc)
  moreover have "push_bit 4 (d' AND 0xF) OR drop_bit 1 e = d' mod 16 * 16 + e div 2"
    using int_push_bit_or [of "e div 2" 4 "d' mod 16"] r [of e] int_and_mask [of d' 4]
    by (simp add: drop_bit_eq_div)
  moreover have "push_bit 7 (e AND 1) OR push_bit 2 f OR drop_bit 3 g
      = e mod 2 * 128 + (f * 4 + g div 8)"
    using int_push_bit_or [of "g div 8" 2 f] r [of f] r [of g] int_and_mask [of e 1]
      int_push_bit_or [of "f * 4 + g div 8" 7 "e mod 2"]
    by (simp add: drop_bit_eq_div or.assoc)
  moreover have "push_bit 5 (g AND 7) OR h = g mod 8 * 32 + h"
    using int_push_bit_or [of h 5 "g mod 8"] r [of h] int_and_mask [of g 3] by simp
  ultimately show ?thesis by (simp only: group_bytes_def)
qed

text \<open>A group of eight digits decodes to the five base-256 digits of the same number.\<close>

lemma regroup_digits:
  assumes "a < 32" "b < 32" "c < 32" "d < 32" "e < 32" "f < 32" "g < 32" "h < (32::nat)"
  shows "digits_be 256 5 (value_be 32 [a, b, c, d, e, f, g, h]) =
    [a * 8 + b div 4, b mod 4 * 64 + (c * 2 + d div 16), d mod 16 * 16 + e div 2,
     e mod 2 * 128 + (f * 4 + g div 8), g mod 8 * 32 + h]" (is "_ = ?bs")
proof -
  have regroup: "value_be 32 [a, 4 * bq + br, c, 16 * dq + dr, 2 * eq + er, f, 8 * gq + gr, h] =
      value_be 256 [a * 8 + bq, br * 64 + (c * 2 + dq), dr * 16 + eq, er * 128 + (f * 4 + gq), gr * 32 + h]"
    for bq br dq dr eq er gq gr :: nat
    by (simp add: value_be_def algebra_simps)
  have "value_be 32 [a, b, c, d, e, f, g, h] = value_be 256 ?bs"
    using regroup [of "b div 4" "b mod 4" "d div 16" "d mod 16" "e div 2" "e mod 2" "g div 8" "g mod 8"]
    by (simp only: mult_div_mod_eq)
  moreover have "digits_be 256 (length ?bs) (value_be 256 ?bs) = ?bs"
  proof (rule digits_be_value_be)
    fix x assume "x \<in> set ?bs"
    moreover have "b mod 4 < 4" "d mod 16 < 16" "e mod 2 < 2" "g mod 8 < 8" by simp_all
    moreover have "b div 4 < 8" "d div 16 < 2" "e div 2 < 16" "g div 8 < 4"
      using assms by (simp_all add: less_mult_imp_div_less)
    ultimately show "x < 256" using assms unfolding set_simps by safe linarith+
  qed
  moreover have "length ?bs = 5" by simp
  ultimately show ?thesis by (simp only:)
qed

lemma digits_to_bytes_digits_be:
  "digits_to_bytes (map int (digits_be 32 8 x)) = map of_nat (digits_be 256 5 x)"
proof -
  have "length (digits_be 32 8 x) = Suc (Suc (Suc (Suc (Suc (Suc (Suc (Suc 0)))))))"
    by simp
  then obtain a b c d e f g h where ds: "digits_be 32 8 x = [a, b, c, d, e, f, g, h]"
    unfolding length_Suc_conv by blast
  have lt: "y < 32" if "y \<in> {a, b, c, d, e, f, g, h}" for y
    using digits_be_less [of 32 y 8 x] that by (simp add: ds)
  have "value_be 32 [a, b, c, d, e, f, g, h] = x mod 256 ^ 5"
    using value_be_digits_be [of 32 8 x] by (simp add: ds)
  then have "digits_be 256 5 x = digits_be 256 5 (value_be 32 [a, b, c, d, e, f, g, h])"
    by (simp only: digits_be_mod)
  also have "\<dots> = [a * 8 + b div 4, b mod 4 * 64 + (c * 2 + d div 16), d mod 16 * 16 + e div 2,
     e mod 2 * 128 + (f * 4 + g div 8), g mod 8 * 32 + h]"
    by (rule regroup_digits) (simp_all add: lt)
  finally have bs: "map of_nat (digits_be 256 5 x) = (map word_of_int (map int
      [a * 8 + b div 4, b mod 4 * 64 + (c * 2 + d div 16), d mod 16 * 16 + e div 2,
       e mod 2 * 128 + (f * 4 + g div 8), g mod 8 * 32 + h]) :: bytes)"
    by (simp del: of_nat_add of_nat_mult)
  have "digits_to_bytes (map int (digits_be 32 8 x)) =
      group_bytes (int a) (int b) (int c) (int d) (int e) (int f) (int g) (int h)"
    by (simp add: ds digits_to_bytes_def)
  also have "\<dots> = map word_of_int (map int
      [a * 8 + b div 4, b mod 4 * 64 + (c * 2 + d div 16), d mod 16 * 16 + e div 2,
       e mod 2 * 128 + (f * 4 + g div 8), g mod 8 * 32 + h])"
    by (subst group_bytes_arith) (auto simp: lt zdiv_int zmod_int)
  finally show ?thesis by (simp only: bs)
qed

lemma bytes_of_value: "map of_nat (digits_be 256 (length bs) (value_bytes bs)) = (bs :: bytes)"
proof -
  have "digits_be 256 (length (map unat bs)) (value_bytes bs) = map unat bs"
    by (rule digits_be_value_be) auto
  then show ?thesis by (simp add: comp_def)
qed

lemma digits_be_zero: "digits_be B k 0 = replicate k 0"
  by (induction k) (simp_all add: replicate_append_same)

lemma map_digits_digits_be:
  "map_digits (map ((!) base32hex) (digits_be 32 k x)) = Inr (map int (digits_be 32 k x))"
  by (rule map_digits_base32hex) (auto dest: digits_be_less [rotated])

lemma base32_pad: "8 * n \<le> 5 * base32_length n"
  unfolding base32_length_def by linarith

lemma base32_length_add5: "base32_length (5 + n) = 8 + base32_length n"
  by (simp add: base32_length_def)

lemma base32_spec_group:
  assumes "length b5 = 5"
  shows "base32_spec (b5 @ bs) = map ((!) base32hex) (digits_be 32 8 (value_bytes b5)) @ base32_spec bs"
proof -
  define n where "n = length bs"
  define k where "k = base32_length n"
  define p where "p = 5 * k - 8 * n"
  have np: "8 * n + p = 5 * k" using base32_pad [of n] by (simp add: p_def k_def)
  have p2: "(256::nat) ^ n * 2 ^ p = 32 ^ k"
  proof -
    have "(256::nat) ^ n * 2 ^ p = 2 ^ (8 * n + p)" by (simp add: power_add power_mult)
    then show ?thesis by (simp add: np power_mult)
  qed
  have "value_bytes bs * 2 ^ p < 2 ^ (8 * n) * 2 ^ p"
    using value_bytes_less [of bs] by (simp add: n_def)
  then have lt: "value_bytes bs * 2 ^ p < 32 ^ k" using p2 by (simp add: power_mult)
  have "value_bytes (b5 @ bs) * 2 ^ p = value_bytes b5 * 32 ^ k + value_bytes bs * 2 ^ p"
    using p2 by (simp add: value_be_append n_def algebra_simps)
  moreover have "length (b5 @ bs) = 5 + n" by (simp add: assms n_def)
  moreover have "5 * (8 + k) - 8 * (5 + n) = p" by (simp add: p_def)
  ultimately show ?thesis
    using digits_be_mult_add [OF lt, of 8]
    by (simp add: base32_spec_def base32_length_add5 Let_def flip: n_def k_def p_def)
qed

lemma decode_tail:
  assumes "extra_bytes k = Some e" and "e = length bs" and "k = base32_length e" and "k < 8"
  shows "take e (digits_to_bytes (map int (digits_be 32 k (value_bytes bs * 2 ^ (5 * k - 8 * e)))
           @ replicate (8 - k) 0)) = bs"
proof -
  let ?x = "value_bytes bs"
  have e5: "e \<le> 5" using assms(1) by (auto simp: extra_bytes_def split: if_splits)
  have "map int (digits_be 32 k (?x * 2 ^ (5 * k - 8 * e))) @ replicate (8 - k) 0
      = map int (digits_be 32 8 (?x * 2 ^ (5 * k - 8 * e) * 32 ^ (8 - k)))"
    using digits_be_mult_add [of 0 32 "8 - k" k "?x * 2 ^ (5 * k - 8 * e)"] assms(4)
    by (simp add: digits_be_zero)
  moreover have "?x * 2 ^ (5 * k - 8 * e) * 32 ^ (8 - k) = ?x * 256 ^ (5 - e)"
  proof -
    have "(2::nat) ^ (5 * k - 8 * e) * 32 ^ (8 - k) = 2 ^ (5 * k - 8 * e + 5 * (8 - k))"
      by (simp add: power_add power_mult)
    also have "5 * k - 8 * e + 5 * (8 - k) = 8 * (5 - e)"
      using base32_pad [of e] assms(3,4) e5 by simp
    finally show ?thesis by (simp add: power_mult)
  qed
  moreover have "digits_be 256 5 (?x * 256 ^ (5 - e)) = digits_be 256 e ?x @ replicate (5 - e) 0"
    using digits_be_mult_add [of 0 256 "5 - e" e ?x] e5 by (simp add: digits_be_zero)
  ultimately have "digits_to_bytes (map int (digits_be 32 k (?x * 2 ^ (5 * k - 8 * e)))
      @ replicate (8 - k) 0) = map of_nat (digits_be 256 e ?x @ replicate (5 - e) 0)"
    by (simp only: digits_to_bytes_digits_be)
  then show ?thesis using bytes_of_value [of bs] assms(2) by simp
qed

lemma decode_groups_spec: "decode_groups (base32_spec bs) = Inr bs"
proof (induction "length bs" arbitrary: bs rule: less_induct)
  case less
  show ?case
  proof (cases "length bs < 5")
    case True
    then have "length bs = 0 \<or> length bs = 1 \<or> length bs = 2 \<or> length bs = 3 \<or> length bs = 4"
      by linarith
    then have k: "extra_bytes (base32_length (length bs)) = Some (length bs)"
      "base32_length (length bs) < 8" "base32_length (length bs) = 0 \<longleftrightarrow> bs = []"
      by (auto simp: extra_bytes_def base32_length_def)
    show ?thesis
    proof (cases "bs = []")
      case True
      then show ?thesis by (subst decode_groups.simps) (simp add: base32_spec_def base32_length_def)
    next
      case False
      with k have "length (base32_spec bs) \<noteq> 0" by simp
      then have "base32_spec bs \<noteq> []" by force
      with k decode_tail [OF k(1) refl refl k(2)] show ?thesis
        by (subst decode_groups.simps)
          (simp add: map_digits_digits_be base32_spec_def Let_def)
    qed
  next
    case False
    define b5 where "b5 = take 5 bs"
    have bs: "bs = b5 @ drop 5 bs" and b5: "length b5 = 5" using False by (simp_all add: b5_def)
    let ?g = "map ((!) base32hex) (digits_be 32 8 (value_bytes b5))"
    have spec: "base32_spec bs = ?g @ base32_spec (drop 5 bs)"
      using base32_spec_group [OF b5, of "drop 5 bs"] bs by simp
    have "decode_groups (base32_spec (drop 5 bs)) = Inr (drop 5 bs)"
      using False by (intro less) simp
    moreover have "digits_to_bytes (map int (digits_be 32 8 (value_bytes b5))) = b5"
      using bytes_of_value [of b5] b5 by (simp add: digits_to_bytes_digits_be)
    ultimately show ?thesis
      using bs by (subst decode_groups.simps) (simp add: spec map_digits_digits_be)
  qed
qed

lemma base32_length_extra:
  "extra_bytes (base32_length n mod 8) = Some (n mod 5)"
  "base32_length n div 8 = n div 5"
proof -
  have "base32_length n = 8 * (n div 5) + base32_length (n mod 5)"
  proof -
    have "base32_length n = (8 * (5 * (n div 5) + n mod 5) + 4) div 5" by (simp add: base32_length_def)
    also have "8 * (5 * q + r) + 4 = 5 * (8 * q) + (8 * r + 4)" for q r :: nat by simp
    finally show ?thesis by (simp only: div_mult_self4 base32_length_def)
  qed
  moreover have "n mod 5 = 0 \<or> n mod 5 = 1 \<or> n mod 5 = 2 \<or> n mod 5 = 3 \<or> n mod 5 = 4"
    using mod_less_divisor [of 5 n] by linarith
  then have "base32_length (n mod 5) < 8"
    "extra_bytes (base32_length (n mod 5)) = Some (n mod 5)"
    by (auto simp: extra_bytes_def base32_length_def)
  ultimately show "extra_bytes (base32_length n mod 8) = Some (n mod 5)"
    "base32_length n div 8 = n div 5" by simp_all
qed

lemma base32decode_spec:
  "base32decode (base32_spec bs) decLen =
     (if decLen < length bs then Inl InsufficientBufferSizeException else Inr bs)"
proof -
  have "length (base32_spec bs) AND 7 = base32_length (length bs) mod 8"
    using nat_and_mask [of "base32_length (length bs)" 3] by simp
  moreover have "drop_bit 3 (length (base32_spec bs)) = base32_length (length bs) div 8"
    by (simp add: drop_bit_eq_div)
  moreover have "length bs div 5 * 5 + length bs mod 5 = length bs" by simp
  ultimately show ?thesis
    by (simp add: base32decode_def base32_length_extra decode_groups_spec del: length_base32_spec)
qed

lemma base32_spec_no_NUL: "CHR 0x00 \<notin> set (base32_spec bs)"
proof
  assume "CHR 0x00 \<in> set (base32_spec bs)"
  then obtain d k x where "d \<in> set (digits_be 32 k x)" "CHR 0x00 = base32hex ! d"
    by (auto simp: base32_spec_def Let_def)
  moreover from this have "d < length base32hex"
    using digits_be_less [of 32 d k x] by (simp add: base32hex_def)
  ultimately have "CHR 0x00 \<in> set base32hex" by (simp only: nth_mem)
  then show False by (simp add: base32hex_def)
qed

lemma base32_spec_inj: "base32_spec bs = base32_spec cs \<Longrightarrow> bs = cs"
  by (metis decode_groups_spec sum.inject(2))

section \<open>Properties\<close>

text \<open>C20. Encoding a byte string into a buffer with room for its digits and the terminating NUL
  writes a NUL-terminated string without inner NULs; decoding that string into any buffer that
  holds the original bytes gives them back.\<close>

theorem base32_roundtrip:
  assumes "base32_length (length bs) < outLen" and "length bs \<le> decLen"
  shows "\<exists>s. base32encode bs outLen = Inr (s @ [CHR 0x00]) \<and> CHR 0x00 \<notin> set s
           \<and> base32decode s decLen = Inr bs"
  using assms base32encode_ok [OF assms(1)] base32_spec_no_NUL [of bs] base32decode_spec [of bs]
  by auto

theorem base32_roundtrip_witness:
  "\<exists>s. base32encode [0xDE, 0xAD, 0xBE] 6 = Inr (s @ [CHR 0x00]) \<and> CHR 0x00 \<notin> set s
     \<and> base32decode s 3 = Inr [0xDE, 0xAD, 0xBE]"
  by (rule base32_roundtrip) (simp_all add: base32_length_def)

text \<open>The encoder's bit-shifting loops compute the reference encoding (the base-32 digits of
  the input read as one big-endian number, padded with zero bits), and fail with
  \<^verbatim>\<open>InsufficientBufferSizeException\<close> exactly when the buffer has no room for all the digits and
  the NUL; the buffer of 53 characters that \<^verbatim>\<open>objectIdToString\<close> uses fits a 32-byte digest.\<close>

theorem base32encode_characterised:
  "base32encode bs outLen =
     (if base32_length (length bs) < outLen then Inr (base32_spec bs @ [CHR 0x00])
      else Inl InsufficientBufferSizeException)"
  by (simp add: base32encode_ok base32encode_error)

end
