(* ===== verification/Environment.thy ===== *)
theory Environment
  imports Nebula_Prelude
begin

text \<open>
  The library code the program calls, as parameters of the model: OpenSSL (its AES-256-CBC
  cipher, HMAC-SHA256, MD5 and PBKDF2 through the EVP interface) and the LZMA2 coder. The
  record \<open>env\<close> holds one function per library call; a call that reports failure returns
  \<open>None\<close>. The contexts the calls work on are values of the record's type parameters: \<open>'e\<close> and
  \<open>'d\<close> are encryption and decryption contexts, \<open>'h\<close> HMAC contexts, \<open>'m\<close> digest contexts, \<open>'l\<close>
  and \<open>'z\<close> the states of the LZMA2 encoder and decoder.

  What the modelled code relies on is stated by the predicates at the end, which are the
  documented behaviour of the libraries and appear as hypotheses of the theorems that need it.
\<close>

section \<open>The library calls\<close>

text \<open>OpenSSL's size constants.\<close>

definition EVP_MAX_KEY_LENGTH :: nat where "EVP_MAX_KEY_LENGTH = 64"
definition EVP_MAX_IV_LENGTH :: nat where "EVP_MAX_IV_LENGTH = 16"
definition EVP_MAX_BLOCK_LENGTH :: nat where "EVP_MAX_BLOCK_LENGTH = 32"
definition EVP_MAX_MD_SIZE :: nat where "EVP_MAX_MD_SIZE = 64"
definition PKCS5_SALT_LEN :: nat where "PKCS5_SALT_LEN = 8"
definition SHA256_DIGEST_LENGTH :: nat where "SHA256_DIGEST_LENGTH = 32"
definition MD5_DIGEST_LENGTH :: nat where "MD5_DIGEST_LENGTH = 16"

lemmas openssl_sizes = EVP_MAX_KEY_LENGTH_def EVP_MAX_IV_LENGTH_def EVP_MAX_BLOCK_LENGTH_def
  EVP_MAX_MD_SIZE_def PKCS5_SALT_LEN_def SHA256_DIGEST_LENGTH_def MD5_DIGEST_LENGTH_def

text \<open>The LZMA2 encoder drives its two callbacks itself: a state of the encoder either asks the
  input callback for at most \<open>n\<close> bytes, hands bytes to the output callback, or is done.\<close>

datatype 'l lzma_action =
    LzmaRead nat "bytes \<Rightarrow> 'l"
  | LzmaWrite bytes 'l
  | LzmaDone bool

datatype lzma_status =
    LZMA_STATUS_NOT_SPECIFIED
  | LZMA_STATUS_FINISHED_WITH_MARK
  | LZMA_STATUS_NOT_FINISHED
  | LZMA_STATUS_NEEDS_MORE_INPUT
  | LZMA_STATUS_MAYBE_FINISHED_WITHOUT_MARK

record ('e, 'd, 'h, 'm, 'l, 'z) env =
  EVP_EncryptInit_ex :: "bytes \<Rightarrow> bytes \<Rightarrow> 'e option"
  EVP_EncryptUpdate :: "'e \<Rightarrow> bytes \<Rightarrow> (bytes \<times> 'e) option"
  EVP_EncryptFinal_ex :: "'e \<Rightarrow> (bytes \<times> 'e) option"
  EVP_DecryptInit_ex :: "bytes \<Rightarrow> bytes \<Rightarrow> 'd option"
  EVP_DecryptUpdate :: "'d \<Rightarrow> bytes \<Rightarrow> (bytes \<times> 'd) option"
  EVP_DecryptFinal_ex :: "'d \<Rightarrow> (bytes \<times> 'd) option"
  HMAC_Init :: "bytes \<Rightarrow> 'h option"
  HMAC_Update :: "'h \<Rightarrow> bytes \<Rightarrow> 'h option"
  HMAC_Final :: "'h \<Rightarrow> bytes option"
  EVP_DigestInit :: "'m option"
  EVP_DigestUpdate :: "'m \<Rightarrow> bytes \<Rightarrow> 'm option"
  EVP_DigestFinal :: "'m \<Rightarrow> bytes option"
  PKCS5_PBKDF2_HMAC :: "bytes \<Rightarrow> bytes \<Rightarrow> u32 \<Rightarrow> nat \<Rightarrow> bytes option"
  Lzma2Enc_Create :: "(byte \<times> 'l) option"
  Lzma2Enc_Step :: "'l \<Rightarrow> 'l lzma_action"
  Lzma2Dec_Allocate :: "byte \<Rightarrow> 'z option"
  Lzma2Dec_DecodeToBuf :: "'z \<Rightarrow> nat \<Rightarrow> bytes \<Rightarrow> ('z \<times> bytes \<times> nat \<times> lzma_status) option"
  uninitialised :: "nat \<Rightarrow> bytes"

text \<open>
  \<^item> The cipher calls are those of \<^verbatim>\<open>EVP_aes_256_cbc()\<close>, the only cipher the program uses; an
    \<open>Update\<close> call returns the bytes it emits.
  \<^item> \<open>Lzma2Enc_Create\<close> stands for creating the encoder and setting its properties (\<open>None\<close> when
    \<^verbatim>\<open>Lzma2Enc_SetProps\<close> fails); it gives the property byte and the initial state.
  \<^item> \<open>Lzma2Dec_DecodeToBuf z outSize src\<close> gives the new decoder state, the bytes decoded, the
    number of input bytes consumed and the status.
  \<^item> \<open>uninitialised n\<close> is what a local buffer of \<open>n\<close> bytes holds before it is written;
    \<open>local_buf\<close> is such a buffer.
\<close>

definition local_buf :: "('e, 'd, 'h, 'm, 'l, 'z) env \<Rightarrow> nat \<Rightarrow> bytes" where
  "local_buf E n = take n (uninitialised E n @ replicate n 0)"

lemma length_local_buf [simp]: "length (local_buf E n) = n"
  by (simp add: local_buf_def)

section \<open>Documented behaviour\<close>

text \<open>The output of a sequence of \<open>Update\<close> calls on a context.\<close>

fun enc_updates :: "('e, 'd, 'h, 'm, 'l, 'z) env \<Rightarrow> 'e \<Rightarrow> bytes list \<Rightarrow> (bytes \<times> 'e) option" where
  "enc_updates E c [] = Some ([], c)"
| "enc_updates E c (x # xs) =
     (case EVP_EncryptUpdate E c x of None \<Rightarrow> None
      | Some (o1, c') \<Rightarrow> map_option (\<lambda>(o2, c''). (o1 @ o2, c'')) (enc_updates E c' xs))"

fun dec_updates :: "('e, 'd, 'h, 'm, 'l, 'z) env \<Rightarrow> 'd \<Rightarrow> bytes list \<Rightarrow> (bytes \<times> 'd) option" where
  "dec_updates E c [] = Some ([], c)"
| "dec_updates E c (x # xs) =
     (case EVP_DecryptUpdate E c x of None \<Rightarrow> None
      | Some (o1, c') \<Rightarrow> map_option (\<lambda>(o2, c''). (o1 @ o2, c'')) (dec_updates E c' xs))"

fun hmac_updates :: "('e, 'd, 'h, 'm, 'l, 'z) env \<Rightarrow> 'h \<Rightarrow> bytes list \<Rightarrow> 'h option" where
  "hmac_updates E c [] = Some c"
| "hmac_updates E c (x # xs) =
     (case HMAC_Update E c x of None \<Rightarrow> None | Some c' \<Rightarrow> hmac_updates E c' xs)"

fun digest_updates :: "('e, 'd, 'h, 'm, 'l, 'z) env \<Rightarrow> 'm \<Rightarrow> bytes list \<Rightarrow> 'm option" where
  "digest_updates E c [] = Some c"
| "digest_updates E c (x # xs) =
     (case EVP_DigestUpdate E c x of None \<Rightarrow> None | Some c' \<Rightarrow> digest_updates E c' xs)"

text \<open>A whole encryption and a whole decryption, from \<open>Init\<close> to \<open>Final\<close>.\<close>

definition evp_encrypt :: "('e, 'd, 'h, 'm, 'l, 'z) env \<Rightarrow> bytes \<Rightarrow> bytes \<Rightarrow> bytes list \<Rightarrow> bytes option" where
  "evp_encrypt E key iv xs =
     (case EVP_EncryptInit_ex E key iv of None \<Rightarrow> None
      | Some c \<Rightarrow> (case enc_updates E c xs of None \<Rightarrow> None
        | Some (out, c') \<Rightarrow> map_option (\<lambda>(fin, _). out @ fin) (EVP_EncryptFinal_ex E c')))"

definition evp_decrypt :: "('e, 'd, 'h, 'm, 'l, 'z) env \<Rightarrow> bytes \<Rightarrow> bytes \<Rightarrow> bytes list \<Rightarrow> bytes option" where
  "evp_decrypt E key iv xs =
     (case EVP_DecryptInit_ex E key iv of None \<Rightarrow> None
      | Some c \<Rightarrow> (case dec_updates E c xs of None \<Rightarrow> None
        | Some (out, c') \<Rightarrow> map_option (\<lambda>(fin, _). out @ fin) (EVP_DecryptFinal_ex E c')))"

definition hmac_of :: "('e, 'd, 'h, 'm, 'l, 'z) env \<Rightarrow> bytes \<Rightarrow> bytes list \<Rightarrow> bytes option" where
  "hmac_of E key xs =
     (case HMAC_Init E key of None \<Rightarrow> None
      | Some c \<Rightarrow> (case hmac_updates E c xs of None \<Rightarrow> None | Some c' \<Rightarrow> HMAC_Final E c'))"

definition digest_of :: "('e, 'd, 'h, 'm, 'l, 'z) env \<Rightarrow> bytes list \<Rightarrow> bytes option" where
  "digest_of E xs =
     (case EVP_DigestInit E of None \<Rightarrow> None
      | Some c \<Rightarrow> (case digest_updates E c xs of None \<Rightarrow> None | Some c' \<Rightarrow> EVP_DigestFinal E c'))"

text \<open>The cipher: encryption under \<open>key\<close> succeeds for every way the plaintext is cut into
  updates, and decrypting the ciphertext, however that is cut, gives the plaintext back.\<close>

definition cipher_ok :: "('e, 'd, 'h, 'm, 'l, 'z) env \<Rightarrow> bytes \<Rightarrow> bool" where
  "cipher_ok E key \<longleftrightarrow>
     (\<forall>iv xs. length iv = 16 \<longrightarrow>
        (\<exists>c. evp_encrypt E key iv xs = Some c \<and>
             (\<forall>ys. concat ys = c \<longrightarrow> evp_decrypt E key iv ys = Some (concat xs))))"

text \<open>Padding adds a whole block to a plaintext of whole blocks.\<close>

definition cipher_padded :: "('e, 'd, 'h, 'm, 'l, 'z) env \<Rightarrow> bytes \<Rightarrow> bool" where
  "cipher_padded E key \<longleftrightarrow>
     (\<forall>iv xs c. evp_encrypt E key iv xs = Some c \<and> 16 dvd length (concat xs) \<longrightarrow> length c = length (concat xs) + 16)"

text \<open>The key derivation delivers as many bytes as it is asked for, for any positive number of rounds.\<close>

definition kdf_ok :: "('e, 'd, 'h, 'm, 'l, 'z) env \<Rightarrow> bool" where
  "kdf_ok E \<longleftrightarrow> (\<forall>pw salt rounds n. 0 < sint rounds \<longrightarrow> (\<exists>k. PKCS5_PBKDF2_HMAC E pw salt rounds n = Some k \<and> length k = n))"

text \<open>HMAC-SHA256 and MD5: the calls succeed, and the tag of a message is \<open>H key message\<close>,
  however the message is cut into updates; a tag has 32 bytes, a digest 16.\<close>

definition hmac_ok :: "('e, 'd, 'h, 'm, 'l, 'z) env \<Rightarrow> (bytes \<Rightarrow> bytes \<Rightarrow> bytes) \<Rightarrow> bool" where
  "hmac_ok E H \<longleftrightarrow>
     (\<forall>key xs. hmac_of E key xs = Some (H key (concat xs)) \<and> length (H key (concat xs)) = 32)"

definition digest_ok :: "('e, 'd, 'h, 'm, 'l, 'z) env \<Rightarrow> (bytes \<Rightarrow> bytes) \<Rightarrow> bool" where
  "digest_ok E D \<longleftrightarrow> (\<forall>xs. digest_of E xs = Some (D (concat xs)) \<and> length (D (concat xs)) = 16)"

lemma cipher_paddedD:
  "cipher_padded E key \<Longrightarrow> evp_encrypt E key iv xs = Some c \<Longrightarrow> 16 dvd length (concat xs) \<Longrightarrow> length c = length (concat xs) + 16"
  unfolding cipher_padded_def by blast

lemma cipher_okE:
  assumes "cipher_ok E key" and "length iv = 16"
  obtains c where "evp_encrypt E key iv xs = Some c"
    and "\<And>ys. concat ys = c \<Longrightarrow> evp_decrypt E key iv ys = Some (concat xs)"
  using assms unfolding cipher_ok_def by blast

lemma hmac_okD: "hmac_ok E H \<Longrightarrow> hmac_of E key xs = Some (H key (concat xs))"
  by (simp add: hmac_ok_def)

lemma hmac_ok_length: "hmac_ok E H \<Longrightarrow> length (H key x) = 32"
  unfolding hmac_ok_def by (metis append_Nil2 concat.simps)

lemma hmac_of_Some:
  assumes "hmac_ok E H"
  obtains c c' where "HMAC_Init E key = Some c" "hmac_updates E c xs = Some c'"
    "HMAC_Final E c' = Some (H key (concat xs))"
  using hmac_okD [OF assms, of key xs] that
  by (auto simp: hmac_of_def split: option.splits)

lemma digest_of_Some:
  assumes "digest_ok E D"
  obtains c c' where "EVP_DigestInit E = Some c" "digest_updates E c xs = Some c'"
    "EVP_DigestFinal E c' = Some (D (concat xs))"
proof -
  have "digest_of E xs = Some (D (concat xs))" using assms by (simp add: digest_ok_def)
  then show thesis using that by (auto simp: digest_of_def split: option.splits)
qed

lemma evp_encrypt_SomeE:
  assumes "evp_encrypt E key iv xs = Some c"
  obtains ctx out ctx' fin ctx'' where "EVP_EncryptInit_ex E key iv = Some ctx"
    "enc_updates E ctx xs = Some (out, ctx')" "EVP_EncryptFinal_ex E ctx' = Some (fin, ctx'')"
    "c = out @ fin"
  using assms that by (auto simp: evp_encrypt_def split: option.splits prod.splits)

lemma evp_decrypt_SomeE:
  assumes "evp_decrypt E key iv xs = Some c"
  obtains ctx out ctx' fin ctx'' where "EVP_DecryptInit_ex E key iv = Some ctx"
    "dec_updates E ctx xs = Some (out, ctx')" "EVP_DecryptFinal_ex E ctx' = Some (fin, ctx'')"
    "c = out @ fin"
  using assms that by (auto simp: evp_decrypt_def split: option.splits prod.splits)

lemma hmac_updates_append:
  "hmac_updates E c (xs @ ys) = Option.bind (hmac_updates E c xs) (\<lambda>c'. hmac_updates E c' ys)"
  by (induction xs arbitrary: c) (auto split: option.splits)

text \<open>The LZMA2 encoder run on a whole input: the pieces it writes, when it ends well.\<close>

inductive lzma_encodes :: "('e, 'd, 'h, 'm, 'l, 'z) env \<Rightarrow> 'l \<Rightarrow> bytes \<Rightarrow> bytes list \<Rightarrow> bool"
  for E :: "('e, 'd, 'h, 'm, 'l, 'z) env" where
  encodes_done: "Lzma2Enc_Step E l = LzmaDone True \<Longrightarrow> lzma_encodes E l x []"
| encodes_read: "Lzma2Enc_Step E l = LzmaRead n k \<Longrightarrow> n < 2 ^ 63 \<Longrightarrow>
    lzma_encodes E (k (take n x)) (drop n x) zs \<Longrightarrow> lzma_encodes E l x zs"
| encodes_write: "Lzma2Enc_Step E l = LzmaWrite w l' \<Longrightarrow> lzma_encodes E l' x zs
    \<Longrightarrow> lzma_encodes E l x (w # zs)"

text \<open>
  The decoder, where \<open>D z i\<close> is the output still due when its state is \<open>z\<close> and \<open>i\<close> the input it has
  still to read: given some of its input and room for output it delivers a prefix of what is due;
  it says so when everything is delivered and the end mark, the last byte of the stream, is read;
  otherwise it makes progress and does not run out of input.
\<close>

definition lzma_finished :: "lzma_status \<Rightarrow> bool" where
  "lzma_finished st \<longleftrightarrow>
     st = LZMA_STATUS_FINISHED_WITH_MARK \<or> st = LZMA_STATUS_MAYBE_FINISHED_WITHOUT_MARK"

definition lzma_decodes ::
    "('e, 'd, 'h, 'm, 'l, 'z) env \<Rightarrow> ('z \<Rightarrow> bytes \<Rightarrow> bytes option) \<Rightarrow> bool" where
  "lzma_decodes E D \<longleftrightarrow>
     (\<forall>z i x n buf i'. D z i = Some x \<and> i = buf @ i' \<and> buf \<noteq> [] \<and> 0 < n \<longrightarrow>
        (\<exists>z' out used st. Lzma2Dec_DecodeToBuf E z n buf = Some (z', out, used, st) \<and>
           length out \<le> n \<and> used \<le> length buf \<and>
           (if lzma_finished st then out = x \<and> used = length i
            else x = out @ drop (length out) x \<and> D z' (drop used i) = Some (drop (length out) x) \<and>
                 (0 < used \<or> out \<noteq> []) \<and> used < length i)))"

definition lzma_ok :: "('e, 'd, 'h, 'm, 'l, 'z) env \<Rightarrow> bool" where
  "lzma_ok E \<longleftrightarrow>
     (\<exists>prop l z0 D. Lzma2Enc_Create E = Some (prop, l) \<and> Lzma2Dec_Allocate E prop = Some z0 \<and>
        lzma_decodes E D \<and>
        (\<forall>x. \<exists>zs. lzma_encodes E l x zs \<and> concat zs \<noteq> [] \<and> D z0 (concat zs) = Some x))"

lemma lzma_decodesE:
  assumes "lzma_decodes E D" and "D z (buf @ i') = Some x" and "buf \<noteq> []" and "0 < n"
  obtains z' out used st where "Lzma2Dec_DecodeToBuf E z n buf = Some (z', out, used, st)"
    "length out \<le> n" "used \<le> length buf"
    "lzma_finished st \<longrightarrow> out = x \<and> used = length (buf @ i')"
    "\<not> lzma_finished st \<longrightarrow> x = out @ drop (length out) x \<and> D z' (drop used (buf @ i')) = Some (drop (length out) x)
       \<and> (0 < used \<or> out \<noteq> []) \<and> used < length (buf @ i')"
proof -
  obtain z' out used st where "Lzma2Dec_DecodeToBuf E z n buf = Some (z', out, used, st)"
    "length out \<le> n" "used \<le> length buf"
    "if lzma_finished st then out = x \<and> used = length (buf @ i')
     else x = out @ drop (length out) x \<and> D z' (drop used (buf @ i')) = Some (drop (length out) x)
       \<and> (0 < used \<or> out \<noteq> []) \<and> used < length (buf @ i')"
    using assms unfolding lzma_decodes_def by blast
  then show thesis by (intro that [of z' out used st]) (simp_all split: if_splits)
qed

section \<open>An instance\<close>

text \<open>
  A concrete environment with the documented behaviour, on which the hypotheses above are
  shown to hold together: the cipher copies its input and appends a block of padding, the tag
  of a message is a key byte followed by the start of the message, and the compressed form of a
  byte string marks every byte with a one and ends with a zero.
\<close>

fun plain_dec_update :: "bytes \<Rightarrow> bytes \<Rightarrow> (bytes \<times> bytes) option" where
  "plain_dec_update held x =
     (let b = held @ x in Some (take (length b - 16) b, drop (length b - 16) b))"

definition plain_hmac :: "bytes \<Rightarrow> bytes \<Rightarrow> bytes" where
  "plain_hmac key x = sum_list key # take 31 (x @ replicate 31 0)"

definition plain_digest :: "bytes \<Rightarrow> bytes" where
  "plain_digest x = take 16 (x @ replicate 16 0)"

fun plain_lzma_step :: "nat \<times> bytes \<Rightarrow> (nat \<times> bytes) lzma_action" where
  "plain_lzma_step (ph, buf) =
     (if ph = 0 then LzmaRead 4096 (\<lambda>bs. if bs = [] then (2, []) else (1, bs))
      else if ph = 1 then LzmaWrite (concat (map (\<lambda>b. [1, b]) buf)) (0, [])
      else if ph = 2 then LzmaWrite [0] (3, [])
      else LzmaDone True)"

fun plain_lzma_decode :: "bool \<Rightarrow> nat \<Rightarrow> bytes \<Rightarrow> bool \<times> bytes \<times> nat \<times> lzma_status" where
  "plain_lzma_decode z n [] = (z, [], 0, LZMA_STATUS_NEEDS_MORE_INPUT)"
| "plain_lzma_decode False n (b # src) =
     (if b = 0 then (False, [], 1, LZMA_STATUS_FINISHED_WITH_MARK)
      else case plain_lzma_decode True n src of (z, out, used, st) \<Rightarrow> (z, out, Suc used, st))"
| "plain_lzma_decode True n (b # src) =
     (if n = 0 then (True, [], 0, LZMA_STATUS_NOT_FINISHED)
      else case plain_lzma_decode False (n - 1) src of (z, out, used, st) \<Rightarrow> (z, b # out, Suc used, st))"

definition plain_env :: "(unit, bytes, bytes \<times> bytes, bytes, nat \<times> bytes, bool) env" where
  "plain_env =
     \<lparr>EVP_EncryptInit_ex = (\<lambda>key iv. Some ()),
      EVP_EncryptUpdate = (\<lambda>c x. Some (x, c)),
      EVP_EncryptFinal_ex = (\<lambda>c. Some (replicate 16 16, c)),
      EVP_DecryptInit_ex = (\<lambda>key iv. Some []),
      EVP_DecryptUpdate = plain_dec_update,
      EVP_DecryptFinal_ex = (\<lambda>held. if length held = 16 then Some ([], []) else None),
      HMAC_Init = (\<lambda>key. Some (key, [])),
      HMAC_Update = (\<lambda>(key, m) x. Some (key, m @ x)),
      HMAC_Final = (\<lambda>(key, m). Some (plain_hmac key m)),
      EVP_DigestInit = Some [],
      EVP_DigestUpdate = (\<lambda>m x. Some (m @ x)),
      EVP_DigestFinal = (\<lambda>m. Some (plain_digest m)),
      PKCS5_PBKDF2_HMAC = (\<lambda>pw salt rounds n. Some (take n (pw @ replicate n 0))),
      Lzma2Enc_Create = Some (24, (0, [])),
      Lzma2Enc_Step = plain_lzma_step,
      Lzma2Dec_Allocate = (\<lambda>prop. Some False),
      Lzma2Dec_DecodeToBuf = (\<lambda>z n src. Some (plain_lzma_decode z n src)),
      uninitialised = (\<lambda>n. replicate n 0)\<rparr>"

lemma plain_env_sel [simp]:
  "EVP_EncryptInit_ex plain_env = (\<lambda>key iv. Some ())"
  "EVP_EncryptUpdate plain_env = (\<lambda>c x. Some (x, c))"
  "EVP_EncryptFinal_ex plain_env = (\<lambda>c. Some (replicate 16 16, c))"
  "EVP_DecryptInit_ex plain_env = (\<lambda>key iv. Some [])"
  "EVP_DecryptUpdate plain_env = plain_dec_update"
  "EVP_DecryptFinal_ex plain_env = (\<lambda>held. if length held = 16 then Some ([], []) else None)"
  "HMAC_Init plain_env = (\<lambda>key. Some (key, []))"
  "HMAC_Update plain_env = (\<lambda>(key, m) x. Some (key, m @ x))"
  "HMAC_Final plain_env = (\<lambda>(key, m). Some (plain_hmac key m))"
  "EVP_DigestInit plain_env = Some []"
  "EVP_DigestUpdate plain_env = (\<lambda>m x. Some (m @ x))"
  "EVP_DigestFinal plain_env = (\<lambda>m. Some (plain_digest m))"
  "PKCS5_PBKDF2_HMAC plain_env = (\<lambda>pw salt rounds n. Some (take n (pw @ replicate n 0)))"
  "Lzma2Enc_Create plain_env = Some (24, (0, []))"
  "Lzma2Enc_Step plain_env = plain_lzma_step"
  "Lzma2Dec_Allocate plain_env = (\<lambda>prop. Some False)"
  "Lzma2Dec_DecodeToBuf plain_env = (\<lambda>z n src. Some (plain_lzma_decode z n src))"
  "uninitialised plain_env = (\<lambda>n. replicate n 0)"
  by (simp_all add: plain_env_def)

lemma plain_enc_updates: "enc_updates plain_env c xs = Some (concat xs, ())"
  by (induction xs arbitrary: c) simp_all

lemma plain_dec_updates:
  "dec_updates plain_env held xs =
     (let b = held @ concat xs in
      if xs = [] then Some ([], held) else Some (take (length b - 16) b, drop (length b - 16) b))"
proof (induction xs arbitrary: held)
  case (Cons x xs)
  define b where "b = held @ x"
  define k where "k = length b - 16"
  have upd: "EVP_DecryptUpdate plain_env held x = Some (take k b, drop k b)"
    by (simp add: b_def k_def Let_def)
  show ?case
  proof (cases "xs = []")
    case True
    with upd show ?thesis by (simp add: b_def k_def Let_def)
  next
    case False
    define c where "c = b @ concat xs"
    have dk: "drop k b @ concat xs = drop k c" and tk: "take k c = take k b"
      by (simp_all add: c_def k_def)
    have kk: "length (drop k c) - 16 + k = length c - 16" by (simp add: c_def k_def)
    have "dec_updates plain_env (drop k b) xs =
        Some (take (length (drop k c) - 16) (drop k c), drop (length (drop k c) - 16) (drop k c))"
      using Cons.IH [of "drop k b"] False by (simp add: dk Let_def)
    moreover have "take k b @ take (length (drop k c) - 16) (drop k c) = take (length c - 16) c"
      using take_add [of k "length (drop k c) - 16" c] kk by (simp add: tk add.commute)
    moreover have "drop (length (drop k c) - 16) (drop k c) = drop (length c - 16) c"
      using kk by simp
    ultimately show ?thesis using upd by (simp add: c_def b_def Let_def)
  qed
qed simp

lemma plain_cipher_ok: "cipher_ok plain_env key"
  unfolding cipher_ok_def
proof (intro allI impI)
  fix iv :: bytes and xs :: "bytes list" assume "length iv = 16"
  have "evp_encrypt plain_env key iv xs = Some (concat xs @ replicate 16 16)"
    by (simp add: evp_encrypt_def plain_enc_updates)
  moreover have "evp_decrypt plain_env key iv ys = Some (concat xs)"
    if "concat ys = concat xs @ replicate 16 16" for ys
  proof -
    have "ys \<noteq> []" using that by auto
    then have "dec_updates plain_env [] ys = Some (concat xs, replicate 16 16)"
      by (simp add: plain_dec_updates that Let_def)
    then show ?thesis by (simp add: evp_decrypt_def)
  qed
  ultimately show "\<exists>c. evp_encrypt plain_env key iv xs = Some c \<and>
      (\<forall>ys. concat ys = c \<longrightarrow> evp_decrypt plain_env key iv ys = Some (concat xs))" by blast
qed

lemma plain_hmac_updates: "hmac_updates plain_env (key, m) xs = Some (key, m @ concat xs)"
  by (induction xs arbitrary: m) simp_all

lemma length_plain_hmac: "length (plain_hmac key x) = 32"
  by (simp add: plain_hmac_def min_def)

lemma length_plain_digest: "length (plain_digest x) = 16"
  by (simp add: plain_digest_def min_def)

lemma plain_hmac_ok: "hmac_ok plain_env plain_hmac"
  unfolding hmac_ok_def hmac_of_def
  by (simp add: plain_hmac_updates length_plain_hmac)

lemma plain_digest_updates: "digest_updates plain_env m xs = Some (m @ concat xs)"
  by (induction xs arbitrary: m) simp_all

lemma plain_digest_ok: "digest_ok plain_env plain_digest"
  unfolding digest_ok_def digest_of_def by (simp add: plain_digest_updates length_plain_digest)

text \<open>The encoding of a byte string, and what the decoder still owes for the rest of one.\<close>

definition plain_marks :: "bytes \<Rightarrow> bytes" where
  "plain_marks x = concat (map (\<lambda>b. [1, b]) x) @ [0]"

fun plain_due :: "bool \<Rightarrow> bytes \<Rightarrow> bytes option" where
  "plain_due z [] = None"
| "plain_due False (b # i) =
     (if b = 0 then if i = [] then Some [] else None else if b = 1 then plain_due True i else None)"
| "plain_due True (b # i) = map_option ((#) b) (plain_due False i)"

lemma plain_due_marks: "plain_due False (plain_marks x) = Some x"
  by (induction x) (simp_all add: plain_marks_def)

lemma plain_lzma_decode_ok:
  assumes "plain_due z (buf @ i') = Some x" and "plain_lzma_decode z n buf = (z', out, used, st)"
  shows "length out \<le> n \<and> used \<le> length buf \<and>
         (if lzma_finished st then out = x \<and> used = length (buf @ i')
          else x = out @ drop (length out) x \<and> plain_due z' (drop used (buf @ i')) = Some (drop (length out) x)
               \<and> used < length (buf @ i'))"
  using assms
proof (induction z n buf arbitrary: x z' out used st rule: plain_lzma_decode.induct)
  case (1 z n)
  then have "i' \<noteq> []" by auto
  with 1 show ?case by (auto simp: lzma_finished_def)
next
  case (2 n b src)
  show ?case
  proof (cases "b = 0")
    case True
    with 2 show ?thesis by (auto simp: lzma_finished_def split: if_splits)
  next
    case False
    with 2(2) have due: "plain_due True (src @ i') = Some x" by (auto split: if_splits)
    obtain z1 out1 used1 st1 where rec: "plain_lzma_decode True n src = (z1, out1, used1, st1)"
      by (cases "plain_lzma_decode True n src")
    from 2(1)[OF False due rec] False 2(3) rec show ?thesis by (auto split: if_splits)
  qed
next
  case (3 n b src)
  show ?case
  proof (cases "n = 0")
    case True
    with 3 show ?thesis by (auto simp: lzma_finished_def)
  next
    case False
    from 3(2) obtain ys where x: "x = b # ys" and due: "plain_due False (src @ i') = Some ys" by auto
    obtain z1 out1 used1 st1 where rec: "plain_lzma_decode False (n - 1) src = (z1, out1, used1, st1)"
      by (cases "plain_lzma_decode False (n - 1) src")
    from 3(1)[OF False due rec] False 3(3) rec x show ?thesis by (auto split: if_splits)
  qed
qed

lemma plain_lzma_decode_progress:
  "buf \<noteq> [] \<Longrightarrow> 0 < n \<Longrightarrow> plain_lzma_decode z n buf = (z', out, used, st) \<Longrightarrow> 0 < used"
  by (cases buf; cases z) (auto split: if_splits prod.splits)

lemma plain_lzma_decodes: "lzma_decodes plain_env plain_due"
  unfolding lzma_decodes_def
proof (intro allI impI)
  fix z i x and n :: nat and buf i'
  assume *: "plain_due z i = Some x \<and> i = buf @ i' \<and> buf \<noteq> [] \<and> 0 < n"
  obtain z' out used st where dec: "plain_lzma_decode z n buf = (z', out, used, st)"
    by (cases "plain_lzma_decode z n buf")
  with * plain_lzma_decode_ok [of z buf i' x n z' out used st]
    plain_lzma_decode_progress [of buf n z z' out used st]
  show "\<exists>z' out used st. Lzma2Dec_DecodeToBuf plain_env z n buf = Some (z', out, used, st) \<and>
     length out \<le> n \<and> used \<le> length buf \<and>
     (if lzma_finished st then out = x \<and> used = length i
      else x = out @ drop (length out) x \<and> plain_due z' (drop used i) = Some (drop (length out) x) \<and>
           (0 < used \<or> out \<noteq> []) \<and> used < length i)"
    by auto
qed

lemma plain_lzma_encodes: "\<exists>zs. lzma_encodes plain_env (0, []) x zs \<and> concat zs = plain_marks x"
proof (induction "length x" arbitrary: x rule: less_induct)
  case less
  let ?k = "\<lambda>bs :: bytes. if bs = [] then (2 :: nat, []) else (1, bs)"
  show ?case
  proof (cases "x = []")
    case True
    have "lzma_encodes plain_env (2, []) [] [[0]]"
      by (rule encodes_write [of _ _ _ "(3, [])"], simp, rule encodes_done, simp)
    then have "lzma_encodes plain_env (0, []) x [[0]]"
      using True by (intro encodes_read [of _ "(0, [])" 4096 ?k]) simp_all
    then show ?thesis using True by (intro exI [of _ "[[0]]"]) (simp add: plain_marks_def)
  next
    case False
    let ?w = "concat (map (\<lambda>b. [1, b]) (take 4096 x))"
    obtain zs where zs: "lzma_encodes plain_env (0, []) (drop 4096 x) zs" "concat zs = plain_marks (drop 4096 x)"
      using less [of "drop 4096 x"] False by auto
    have "lzma_encodes plain_env (1, take 4096 x) (drop 4096 x) (?w # zs)"
      by (rule encodes_write [of _ "(1, take 4096 x)" ?w "(0, [])"]) (use zs in simp_all)
    then have "lzma_encodes plain_env (0, []) x (?w # zs)"
      using False by (intro encodes_read [of _ "(0, [])" 4096 ?k]) simp_all
    moreover have "concat (?w # zs) = plain_marks x"
      by (simp only: zs(2) concat.simps plain_marks_def append_assoc [symmetric] concat_append [symmetric]
          map_append [symmetric] append_take_drop_id)
    ultimately show ?thesis by blast
  qed
qed

lemma plain_lzma_ok: "lzma_ok plain_env"
proof -
  have "\<exists>zs. lzma_encodes plain_env (0, []) x zs \<and> concat zs \<noteq> [] \<and> plain_due False (concat zs) = Some x" for x
  proof -
    obtain zs where "lzma_encodes plain_env (0, []) x zs" "concat zs = plain_marks x"
      using plain_lzma_encodes by blast
    moreover have "plain_marks x \<noteq> []" by (simp add: plain_marks_def)
    ultimately show ?thesis using plain_due_marks [of x] by metis
  qed
  then have "Lzma2Enc_Create plain_env = Some (24, (0, [])) \<and> Lzma2Dec_Allocate plain_env 24 = Some False \<and>
      lzma_decodes plain_env plain_due \<and> (\<forall>x. \<exists>zs. lzma_encodes plain_env (0, []) x zs \<and> concat zs \<noteq> []
        \<and> plain_due False (concat zs) = Some x)"
    using plain_lzma_decodes by simp
  then show ?thesis unfolding lzma_ok_def by blast
qed

lemma plain_cipher_padded: "cipher_padded plain_env key"
  by (auto simp: cipher_padded_def evp_encrypt_def plain_enc_updates)

lemma plain_kdf_ok: "kdf_ok plain_env"
  by (auto simp: kdf_ok_def min_def)

end
