(* ===== verification/Rolling_Hash.thy ===== *)
theory Rolling_Hash
  imports Environment
begin

text \<open>
  \<^verbatim>\<open>libnebula/RollingHash.cpp\<close>: the keyed polynomial rolling hash that cuts files into blocks.
  The hash lives in 64-bit words, so its arithmetic wraps as the source's \<open>uint64_t\<close> does; the
  window is the circular buffer of the source.

  The hash is shown to be the polynomial of the bytes in the window at every moment, hence a
  function of the last \<open>windowSize\<close> bytes alone.
\<close>

section \<open>Definitions\<close>

record RollingHash =
  mHash :: u64
  mConstant :: u64
  mConstantPowWinSize :: u64
  mWindowSize :: nat
  mIndex :: nat
  mWindow :: bytes
  mKey :: bytes
  mSubTable :: "u32 list"

text \<open>The square-and-multiply loop of the constructor.\<close>

function pow_loop :: "nat \<Rightarrow> u64 \<Rightarrow> u64 \<Rightarrow> u64" where
  "pow_loop u base acc =
     (if 0 < u then pow_loop (drop_bit 1 u) (base * base) (if u AND 1 \<noteq> 0 then base * acc else acc)
      else acc)"
  by pat_completeness auto
termination
  by (relation "measure (\<lambda>(u, base, acc). u)") (auto simp: drop_bit_eq_div)

declare pow_loop.simps [simp del]

text \<open>\<^verbatim>\<open>(p[0] << 24) | (p[1] << 16) | (p[2] << 8) | p[3]\<close>\<close>

definition be32 :: "bytes \<Rightarrow> u32" where
  "be32 p = push_bit 24 (ucast (p ! 0)) OR push_bit 16 (ucast (p ! 1))
            OR push_bit 8 (ucast (p ! 2)) OR ucast (p ! 3)"

definition sub_table :: "bytes \<Rightarrow> u32 list" where
  "sub_table outBlock = map (\<lambda>i. be32 (drop (push_bit 2 i) outBlock)) [0..<256]"

text \<open>The initial hash: \<open>windowSize\<close> times the substitute of the zero byte.\<close>

fun initial_hash :: "nat \<Rightarrow> u64 \<Rightarrow> u32 \<Rightarrow> u64 \<Rightarrow> u64" where
  "initial_hash 0 c t h = h"
| "initial_hash (Suc i) c t h = initial_hash i c t (h * c + ucast t)"

definition RollingHash_new ::
    "('e, 'd, 'h, 'm, 'l, 'z) env \<Rightarrow> bytes \<Rightarrow> nat \<Rightarrow> exn + RollingHash" where
  "RollingHash_new E key windowSize =
     (let k = take 32 key; pw = pow_loop windowSize 33 1 in
      case EVP_EncryptInit_ex E k (replicate EVP_MAX_IV_LENGTH 0xAA) of
        None \<Rightarrow> Inl EncryptionFailedException
      | Some ctx \<Rightarrow>
          (case EVP_EncryptUpdate E ctx (replicate (256 * 4) 0x33) of
             None \<Rightarrow> Inl EncryptionFailedException
           | Some (out, ctx') \<Rightarrow>
               (case EVP_EncryptFinal_ex E ctx' of
                  None \<Rightarrow> Inl EncryptionFailedException
                | Some (fin, _) \<Rightarrow>
                    let outBlock = overwrite (uninitialised E (256 * 4 + EVP_MAX_BLOCK_LENGTH)) (out @ fin);
                        tab = sub_table outBlock in
                    Inr \<lparr>mHash = initial_hash windowSize 33 (tab ! 0) 0, mConstant = 33,
                         mConstantPowWinSize = pw, mWindowSize = windowSize,
                         mIndex = windowSize - 1, mWindow = replicate windowSize 0,
                         mKey = k, mSubTable = tab\<rparr>)))"

definition RollingHash_roll :: "byte \<Rightarrow> RollingHash \<Rightarrow> u64 \<times> RollingHash" where
  "RollingHash_roll c rh =
     (let i = (mIndex rh + 1) mod mWindowSize rh;
          sub = mConstantPowWinSize rh * ucast (mSubTable rh ! unat (mWindow rh ! i));
          h = mHash rh * mConstant rh + ucast (mSubTable rh ! unat c) - sub in
      (h, rh\<lparr>mIndex := i, mWindow := (mWindow rh)[i := c], mHash := h\<rparr>))"

section \<open>The hash as a polynomial of the window\<close>

text \<open>The reference: the polynomial of a byte string in the constant of the hash.\<close>

definition poly_hash :: "u32 list \<Rightarrow> u64 \<Rightarrow> bytes \<Rightarrow> u64" where
  "poly_hash tab c bs = foldl (\<lambda>h b. h * c + ucast (tab ! unat b)) 0 bs"

text \<open>The window in the order the bytes came, the oldest first.\<close>

definition window :: "RollingHash \<Rightarrow> bytes" where
  "window rh = drop (Suc (mIndex rh)) (mWindow rh) @ take (Suc (mIndex rh)) (mWindow rh)"

definition rolling_inv :: "RollingHash \<Rightarrow> bool" where
  "rolling_inv rh \<longleftrightarrow>
     0 < mWindowSize rh \<and> length (mWindow rh) = mWindowSize rh \<and> mIndex rh < mWindowSize rh \<and>
     length (mSubTable rh) = 256 \<and>
     mConstantPowWinSize rh = mConstant rh ^ mWindowSize rh \<and>
     mHash rh = poly_hash (mSubTable rh) (mConstant rh) (window rh)"

lemma pow_loop_eq: "pow_loop u base acc = base ^ u * acc"
proof (induction u base acc rule: pow_loop.induct)
  case (1 u base acc)
  show ?case
  proof (cases "0 < u")
    case True
    have "base ^ u = (base * base) ^ (u div 2) * base ^ (u mod 2)"
      by (simp flip: power2_eq_square power_mult power_add)
    moreover have "u AND 1 = u mod 2" using nat_and_mask [of u 1] by simp
    ultimately show ?thesis
      using 1 True by (cases "u mod 2 = 0") (simp_all add: pow_loop.simps [of u] drop_bit_eq_div)
  qed (simp add: pow_loop.simps)
qed

lemma poly_hash_snoc: "poly_hash tab c (bs @ [b]) = poly_hash tab c bs * c + ucast (tab ! unat b)"
  by (simp add: poly_hash_def)

lemma poly_hash_Cons:
  "poly_hash tab c (b # bs) = ucast (tab ! unat b) * c ^ length bs + poly_hash tab c bs"
proof (induction bs rule: rev_induct)
  case Nil
  show ?case by (simp add: poly_hash_def)
next
  case (snoc x xs)
  have "poly_hash tab c (b # xs @ [x]) = poly_hash tab c (b # xs) * c + ucast (tab ! unat x)"
    using poly_hash_snoc [of tab c "b # xs" x] by simp
  then show ?case by (simp add: snoc poly_hash_snoc algebra_simps)
qed

lemma length_window: "rolling_inv rh \<Longrightarrow> length (window rh) = mWindowSize rh"
  by (simp add: rolling_inv_def window_def)

lemma window_roll:
  assumes "rolling_inv rh"
  shows "window (snd (RollingHash_roll c rh)) = tl (window rh) @ [c]"
    and "hd (window rh) = mWindow rh ! ((mIndex rh + 1) mod mWindowSize rh)"
proof -
  let ?w = "mWindow rh" and ?n = "mWindowSize rh" and ?i = "mIndex rh"
  have n: "0 < ?n" "length ?w = ?n" "?i < ?n" using assms by (simp_all add: rolling_inv_def)
  have "window (snd (RollingHash_roll c rh)) = tl (window rh) @ [c]
        \<and> hd (window rh) = ?w ! ((?i + 1) mod ?n)"
  proof (cases "Suc ?i < ?n")
    case True
    with n have "drop (Suc ?i) ?w = ?w ! Suc ?i # drop (Suc (Suc ?i)) ?w"
      by (simp add: Cons_nth_drop_Suc)
    with True n show ?thesis
      by (simp add: window_def RollingHash_roll_def Let_def take_Suc_conv_app_nth
          drop_update_cancel take_update_cancel)
  next
    case False
    with n have i: "Suc ?i = ?n" by simp
    moreover obtain x xs where "?w = x # xs" using n by (cases ?w) auto
    ultimately show ?thesis using n by (auto simp: window_def RollingHash_roll_def Let_def)
  qed
  then show "window (snd (RollingHash_roll c rh)) = tl (window rh) @ [c]"
    and "hd (window rh) = ?w ! ((?i + 1) mod ?n)" by simp_all
qed

lemma rolling_inv_roll:
  assumes "rolling_inv rh"
  shows "rolling_inv (snd (RollingHash_roll c rh))"
proof -
  let ?T = "mSubTable rh" and ?k = "mConstant rh"
  let ?old = "mWindow rh ! ((mIndex rh + 1) mod mWindowSize rh)"
  have len: "length (window rh) = mWindowSize rh" "0 < mWindowSize rh"
    using assms length_window by (auto simp: rolling_inv_def)
  then have w: "window rh = ?old # tl (window rh)"
    using window_roll(2) [OF assms] by (cases "window rh") auto
  have "mHash rh = ucast (?T ! unat ?old) * ?k ^ (mWindowSize rh - 1) + poly_hash ?T ?k (tl (window rh))"
    using assms w poly_hash_Cons [of ?T ?k ?old "tl (window rh)"] len
    by (simp add: rolling_inv_def)
  moreover have "?k * ?k ^ (mWindowSize rh - 1) = ?k ^ mWindowSize rh"
    using len by (simp flip: power_Suc)
  ultimately have "mHash rh * ?k + ucast (?T ! unat c) - ?k ^ mWindowSize rh * ucast (?T ! unat ?old)
      = poly_hash ?T ?k (tl (window rh) @ [c])"
    by (simp add: poly_hash_snoc algebra_simps flip: mult.assoc [of ?k])
  with assms window_roll(1) [OF assms, of c] show ?thesis
    by (simp add: rolling_inv_def RollingHash_roll_def Let_def)
qed

lemma initial_hash_eq: "initial_hash n c t h = foldl (\<lambda>h _. h * c + ucast t) h (replicate n (0 :: byte))"
  by (induction n arbitrary: h) simp_all

lemma RollingHash_new_ok:
  assumes "cipher_ok E (take 32 key)"
  shows "\<exists>rh. RollingHash_new E key w = Inr rh"
proof -
  have "length (replicate EVP_MAX_IV_LENGTH (0xAA :: byte)) = 16" by (simp add: EVP_MAX_IV_LENGTH_def)
  then obtain c where "evp_encrypt E (take 32 key) (replicate EVP_MAX_IV_LENGTH 0xAA) [replicate (256 * 4) 0x33] = Some c"
    by (rule cipher_okE [OF assms])
  then show ?thesis
    by (rule evp_encrypt_SomeE) (auto simp: RollingHash_new_def Let_def split: option.splits prod.splits)
qed

lemma RollingHash_new_inv:
  assumes "RollingHash_new E key w = Inr rh" and "0 < w"
  shows "rolling_inv rh" and "window rh = replicate w 0" and "mWindowSize rh = w"
    and "mConstant rh = 33"
proof -
  from assms(1) obtain tab where rh: "length tab = 256"
    "rh = \<lparr>mHash = initial_hash w 33 (tab ! 0) 0, mConstant = 33,
          mConstantPowWinSize = 33 ^ w, mWindowSize = w,
          mIndex = w - 1, mWindow = replicate w 0, mKey = take 32 key, mSubTable = tab\<rparr>"
    by (auto simp: RollingHash_new_def Let_def pow_loop_eq sub_table_def split: option.splits)
  show w: "window rh = replicate w 0" using assms(2) rh by (simp add: window_def)
  have "foldl (\<lambda>h b. h * 33 + ucast (tab ! unat b)) h (replicate n (0 :: byte)) =
        foldl (\<lambda>h _. h * 33 + ucast (tab ! 0)) h (replicate n (0 :: byte))" for n and h :: u64
    by (induction n arbitrary: h) simp_all
  with rh assms(2) w show "rolling_inv rh"
    by (simp add: rolling_inv_def poly_hash_def initial_hash_eq)
  show "mWindowSize rh = w" and "mConstant rh = 33" using rh by simp_all
qed

text \<open>Rolling a whole byte string.\<close>

fun rolls :: "bytes \<Rightarrow> RollingHash \<Rightarrow> RollingHash" where
  "rolls [] rh = rh"
| "rolls (b # bs) rh = rolls bs (snd (RollingHash_roll b rh))"

lemma roll_frame [simp]:
  "mWindowSize (snd (RollingHash_roll c rh)) = mWindowSize rh"
  "mConstant (snd (RollingHash_roll c rh)) = mConstant rh"
  "mSubTable (snd (RollingHash_roll c rh)) = mSubTable rh"
  "fst (RollingHash_roll c rh) = mHash (snd (RollingHash_roll c rh))"
  by (simp_all add: RollingHash_roll_def Let_def)

lemma rolls_frame [simp]:
  "mWindowSize (rolls bs rh) = mWindowSize rh"
  "mConstant (rolls bs rh) = mConstant rh"
  "mSubTable (rolls bs rh) = mSubTable rh"
  by (induction bs arbitrary: rh) simp_all

lemma rolls_inv: "rolling_inv rh \<Longrightarrow> rolling_inv (rolls bs rh)"
  by (induction bs arbitrary: rh) (simp_all add: rolling_inv_roll)

lemma window_rolls:
  "rolling_inv rh \<Longrightarrow> window (rolls bs rh) = drop (length bs) (window rh @ bs)"
proof (induction bs arbitrary: rh)
  case (Cons b bs)
  obtain x xs where w: "window rh = x # xs"
    using length_window [OF Cons.prems] Cons.prems by (cases "window rh") (auto simp: rolling_inv_def)
  from Cons.IH [OF rolling_inv_roll [OF Cons.prems]]
  have "window (rolls (b # bs) rh) = drop (length bs) (tl (window rh) @ [b] @ bs)"
    by (simp add: window_roll(1) [OF Cons.prems])
  with w show ?case by simp
qed simp

section \<open>Properties\<close>

text \<open>C18. The rolling hash is the polynomial hash of its window: after a fresh hash has rolled over
  any byte string, its value is the polynomial (in the constant 33, over the keyed substitution
  table, modulo \<open>2 ^ 64\<close>) of the last \<open>windowSize\<close> bytes, where the window starts out as zeros. The
  constant-time update of \<^verbatim>\<open>roll\<close> never drifts from the definition.\<close>

theorem rolling_hash_is_window_hash:
  assumes "RollingHash_new E key w = Inr rh" and "0 < w"
  shows "mHash (rolls bs rh) = poly_hash (mSubTable rh) 33 (drop (length bs) (replicate w 0 @ bs))"
proof -
  note new = RollingHash_new_inv [OF assms]
  have "rolling_inv (rolls bs rh)" by (rule rolls_inv [OF new(1)])
  then have "mHash (rolls bs rh) = poly_hash (mSubTable rh) 33 (window (rolls bs rh))"
    by (simp add: rolling_inv_def new(4))
  then show ?thesis by (simp add: window_rolls [OF new(1)] new(2))
qed

theorem rolling_hash_is_window_hash_witness:
  "\<exists>rh. RollingHash_new plain_env (replicate 32 7) 4 = Inr rh \<and>
        mHash (rolls [1, 2, 3] rh) = poly_hash (mSubTable rh) 33 [0, 1, 2, 3]"
proof -
  obtain rh where "RollingHash_new plain_env (replicate 32 7) 4 = Inr rh"
    by (simp add: RollingHash_new_def Let_def)
  with rolling_hash_is_window_hash [OF this, of "[1, 2, 3]"] show ?thesis
    by (simp add: eval_nat_numeral)
qed

text \<open>C19. The hash forgets everything before the window: two fresh hashes of the same key that roll
  over byte strings which agree on their last \<open>windowSize\<close> bytes have the same value, so a file
  shifted by an insertion is cut at the same places again once the window has passed it.\<close>

theorem rolling_hash_resynchronises:
  assumes "RollingHash_new E key w = Inr rh" and "0 < w" and "length bs = w"
  shows "mHash (rolls (xs @ bs) rh) = mHash (rolls (ys @ bs) rh)"
proof -
  note new = RollingHash_new_inv [OF assms(1,2)]
  have hash: "mHash (rolls zs rh) = poly_hash (mSubTable rh) 33 (drop (length zs) (replicate w 0 @ zs))"
    for zs
    using rolls_inv [OF new(1), of zs] window_rolls [OF new(1), of zs] new
    by (simp add: rolling_inv_def)
  have "drop (length (zs @ bs)) (replicate w 0 @ zs @ bs) = bs" for zs :: bytes
    using assms(3) by simp
  then show ?thesis by (simp only: hash)
qed

theorem rolling_hash_resynchronises_witness:
  "\<exists>rh. RollingHash_new plain_env (replicate 32 7) 2 = Inr rh \<and>
        mHash (rolls ([9, 9, 9] @ [1, 2]) rh) = mHash (rolls ([] @ [1, 2]) rh)"
proof -
  obtain rh where "RollingHash_new plain_env (replicate 32 7) 2 = Inr rh"
    by (simp add: RollingHash_new_def Let_def)
  with rolling_hash_resynchronises [OF this, of "[1, 2]" "[9, 9, 9]" "[]"] show ?thesis by auto
qed

end
