(* ===== verification/Streams.thy ===== *)
theory Streams
  imports Nebula_Prelude
begin

text \<open>
  The stream interfaces, \<^verbatim>\<open>libnebula/InputStream.{h,cpp}\<close> and \<^verbatim>\<open>OutputStream.{h,cpp}\<close>. A class
  with virtual methods is a record of its methods over the object's state (its table of virtual
  functions); a subclass takes the record of the base class's methods and replaces those it
  overrides. \<open>read n\<close> returns the bytes the source stores into the caller's buffer, the
  source's return value being their number.

  The contract \<^verbatim>\<open>InputStream.h\<close> documents for \<open>read\<close> (all the bytes asked for, fewer only at the
  end of the stream) is the locale \<open>input_stream\<close>, its extension by \<^verbatim>\<open>rewind\<close> the locale
  \<open>rewindable_stream\<close>, and the contract of \<^verbatim>\<open>write\<close> the locale \<open>output_stream\<close>. What
  the non-virtual methods (\<^verbatim>\<open>copyTo\<close>, \<^verbatim>\<open>readExpected\<close>, \<^verbatim>\<open>readType\<close>) and the default \<^verbatim>\<open>skip\<close> do is
  proved once from the contracts.
\<close>

section \<open>Input streams\<close>

text \<open>The default \<^verbatim>\<open>skip\<close> reads and discards, 8192 bytes at a time.\<close>

function InputStream_skip_loop ::
    "(nat \<Rightarrow> ('s, bytes) io) \<Rightarrow> nat \<Rightarrow> nat \<Rightarrow> ('s, nat) io" where
  "InputStream_skip_loop rd n skipped s =
     (if skipped < n then
        let nextSkip = (if n - skipped > 8192 then 8192 else n - skipped) in
        (case rd nextSkip s of
           None \<Rightarrow> None
         | Some (Inl e, s') \<Rightarrow> Some (Inl e, s')
         | Some (Inr bs, s') \<Rightarrow>
             if length bs = 0 then Some (Inr skipped, s')
             else InputStream_skip_loop rd n (skipped + length bs) s')
      else Some (Inr skipped, s))"
  by pat_completeness auto
termination
  by (relation "measure (\<lambda>(rd, n, skipped, s). n - skipped)") (auto intro!: diff_less_mono2)

declare InputStream_skip_loop.simps [simp del]

definition InputStream_skip :: "(nat \<Rightarrow> ('s, bytes) io) \<Rightarrow> nat \<Rightarrow> ('s, nat) io" where
  "InputStream_skip rd n = InputStream_skip_loop rd n 0"

definition InputStream_close :: "('s, unit) io" where
  "InputStream_close = return_io ()"

definition InputStream_canRewind :: "'s \<Rightarrow> bool" where
  "InputStream_canRewind s = False"

definition InputStream_rewind :: "('s, unit) io" where
  "InputStream_rewind = throw_io InvalidOperationException"

definition InputStream_size :: "('s, int) io" where
  "InputStream_size = return_io (- 1)"

text \<open>The table of virtual methods, and the methods a class inherits when it overrides \<^verbatim>\<open>read\<close> only.\<close>

record 's instream =
  is_read :: "nat \<Rightarrow> ('s, bytes) io"
  is_skip :: "nat \<Rightarrow> ('s, nat) io"
  is_close :: "('s, unit) io"
  is_canRewind :: "'s \<Rightarrow> bool"
  is_rewind :: "('s, unit) io"
  is_size :: "('s, int) io"

definition InputStream :: "(nat \<Rightarrow> ('s, bytes) io) \<Rightarrow> 's instream" where
  "InputStream rd =
     \<lparr>is_read = rd, is_skip = InputStream_skip rd, is_close = InputStream_close,
      is_canRewind = InputStream_canRewind, is_rewind = InputStream_rewind,
      is_size = InputStream_size\<rparr>"

definition readExpected :: "(nat \<Rightarrow> ('s, bytes) io) \<Rightarrow> nat \<Rightarrow> ('s, bytes) io" where
  "readExpected rd n =
     bind_io (rd n) (\<lambda>bs. if length bs \<noteq> n then throw_io ShortReadException else return_io bs)"

section \<open>Output streams\<close>

record 'o outstream =
  os_write :: "bytes \<Rightarrow> ('o, unit) io"
  os_flush :: "('o, unit) io"
  os_close :: "('o, unit) io"

definition OutputStream_flush :: "('o, unit) io" where
  "OutputStream_flush = return_io ()"

definition OutputStream_close :: "('o, unit) io" where
  "OutputStream_close = return_io ()"

definition OutputStream :: "(bytes \<Rightarrow> ('o, unit) io) \<Rightarrow> 'o outstream" where
  "OutputStream wr =
     \<lparr>os_write = wr, os_flush = OutputStream_flush, os_close = OutputStream_close\<rparr>"

text \<open>The loop \<^verbatim>\<open>while((n = stream.read(buffer, size)) > 0) { ... }\<close>, which several functions share:
  the state is the stream and the state its body works on. It ends when a read returns
  nothing; on a stream that never ends it does not return (\<open>None\<close>).\<close>

partial_function (option) read_each ::
    "(nat \<Rightarrow> ('s, bytes) io) \<Rightarrow> nat \<Rightarrow> (bytes \<Rightarrow> ('c, unit) io) \<Rightarrow> ('s \<times> 'c, unit) io" where
  "read_each rd n body st =
     (case rd n (fst st) of
        None \<Rightarrow> None
      | Some (Inl e, s') \<Rightarrow> Some (Inl e, (s', snd st))
      | Some (Inr bs, s') \<Rightarrow>
          if 0 < length bs then
            (case body bs (snd st) of
               None \<Rightarrow> None
             | Some (Inl e, c') \<Rightarrow> Some (Inl e, (s', c'))
             | Some (Inr _, c') \<Rightarrow> read_each rd n body (s', c'))
          else Some (Inr (), (s', snd st)))"

definition copyTo ::
    "(nat \<Rightarrow> ('s, bytes) io) \<Rightarrow> (bytes \<Rightarrow> ('o, unit) io) \<Rightarrow> ('s \<times> 'o, unit) io" where
  "copyTo rd wr = read_each rd 16384 wr"

section \<open>Typed values in native byte order\<close>

text \<open>\<^verbatim>\<open>writeType\<close> and \<^verbatim>\<open>readType\<close> copy the object representation of an integer, which is little
  endian on the machines the program is built for.\<close>

fun word_to_le :: "nat \<Rightarrow> 'a::len word \<Rightarrow> bytes" where
  "word_to_le 0 w = []"
| "word_to_le (Suc n) w = ucast w # word_to_le n (drop_bit 8 w)"

fun word_of_le :: "bytes \<Rightarrow> 'a::len word" where
  "word_of_le [] = 0"
| "word_of_le (b # bs) = ucast b OR push_bit 8 (word_of_le bs)"

definition writeType :: "(bytes \<Rightarrow> ('o, unit) io) \<Rightarrow> nat \<Rightarrow> 'a::len word \<Rightarrow> ('o, unit) io" where
  "writeType wr sz w = wr (word_to_le sz w)"

definition readType :: "(nat \<Rightarrow> ('s, bytes) io) \<Rightarrow> nat \<Rightarrow> ('s, 'a::len word) io" where
  "readType rd sz = bind_io (readExpected rd sz) (\<lambda>bs. return_io (word_of_le bs))"

lemma length_word_to_le [simp]: "length (word_to_le n w) = n"
  by (induction n arbitrary: w) simp_all

lemma word_of_le_word_to_le: "word_of_le (word_to_le n (w :: 'a::len word)) = take_bit (8 * n) w"
proof (induction n arbitrary: w)
  case (Suc n)
  have "ucast (ucast w :: byte) = take_bit 8 w"
    by (rule bit_word_eqI) (simp add: bit_simps)
  moreover have "take_bit 8 w OR push_bit 8 (take_bit (8 * n) (drop_bit 8 w)) = take_bit (8 * Suc n) w"
    by (rule bit_word_eqI) (auto simp: bit_simps)
  ultimately show ?case by (simp add: Suc)
qed simp

lemma word_of_le_full: "LENGTH('a) \<le> 8 * n \<Longrightarrow> word_of_le (word_to_le n (w :: 'a::len word)) = w"
  by (simp add: word_of_le_word_to_le take_bit_word_eq_self)

lemma word_to_le_inj: "LENGTH('a) \<le> 8 * n \<Longrightarrow> word_to_le n (v :: 'a::len word) = word_to_le n w \<Longrightarrow> v = w"
  by (metis word_of_le_full)

section \<open>Chunks\<close>

text \<open>The pieces a byte string is cut into by reads of \<open>n\<close> bytes, and a loop body run over them.\<close>

function chunks :: "nat \<Rightarrow> 'a list \<Rightarrow> 'a list list" where
  "chunks n xs = (if xs = [] \<or> n = 0 then [] else take n xs # chunks n (drop n xs))"
  by pat_completeness auto
termination
  by (relation "measure (\<lambda>(n, xs). length xs)") auto

declare chunks.simps [simp del]

lemma chunks_Nil [simp]: "chunks n [] = []"
  by (simp add: chunks.simps)

lemma chunks_step: "xs \<noteq> [] \<Longrightarrow> 0 < n \<Longrightarrow> chunks n xs = take n xs # chunks n (drop n xs)"
  by (subst chunks.simps) simp

lemma concat_chunks: "0 < n \<Longrightarrow> concat (chunks n xs) = xs"
  by (induction n xs rule: chunks.induct) (subst chunks.simps, auto)

primrec feed :: "('a \<Rightarrow> ('c, unit) io) \<Rightarrow> 'a list \<Rightarrow> ('c, unit) io" where
  "feed f [] = return_io ()"
| "feed f (x # xs) = bind_io (f x) (\<lambda>_. feed f xs)"

section \<open>Parsing\<close>

text \<open>\<open>parses rest ok m x bs\<close>: the operation \<open>m\<close> on a stream consumes \<open>bs\<close> and returns \<open>x\<close>, whatever follows.\<close>

definition parses :: "('s \<Rightarrow> bytes) \<Rightarrow> ('s \<Rightarrow> bool) \<Rightarrow> ('s, 'a) io \<Rightarrow> 'a \<Rightarrow> bytes \<Rightarrow> bool" where
  "parses rest ok m x bs \<longleftrightarrow>
     (\<forall>s tail. ok s \<and> rest s = bs @ tail \<longrightarrow> (\<exists>s'. m s = Some (Inr x, s') \<and> rest s' = tail \<and> ok s'))"

lemma parsesE:
  assumes "parses rest ok m x bs" and "ok s" and "rest s = bs @ tail"
  obtains s' where "m s = Some (Inr x, s')" "rest s' = tail" "ok s'"
  using assms unfolding parses_def by blast

lemma parses_return [intro]: "parses rest ok (return_io x) x []"
  by (simp add: parses_def)

lemma parses_bind:
  assumes "parses rest ok m x bs" and "parses rest ok (f x) y cs"
  shows "parses rest ok (bind_io m f) y (bs @ cs)"
  unfolding parses_def
proof (intro allI impI)
  fix s tail
  assume "ok s \<and> rest s = (bs @ cs) @ tail"
  then obtain s1 where s1: "m s = Some (Inr x, s1)" "rest s1 = cs @ tail" "ok s1"
    using assms(1) by (auto elim: parsesE)
  then obtain s2 where "f x s1 = Some (Inr y, s2)" "rest s2 = tail" "ok s2"
    using assms(2) by (auto elim: parsesE)
  with s1 show "\<exists>s'. bind_io m f s = Some (Inr y, s') \<and> rest s' = tail \<and> ok s'" by simp
qed

lemma parses_guard:
  assumes "parses rest ok m x bs" and "\<not> bad x" and "parses rest ok (f x) y cs"
  shows "parses rest ok (bind_io m (\<lambda>v. if bad v then throw_io e else f v)) y (bs @ cs)"
  by (rule parses_bind [OF assms(1)]) (simp add: assms)

section \<open>The contracts\<close>

locale input_stream =
  fixes read :: "nat \<Rightarrow> ('s, bytes) io"
    and rest :: "'s \<Rightarrow> bytes"
    and inv :: "'s \<Rightarrow> bool"
  assumes read_ok: "inv s \<Longrightarrow> n < 2 ^ 63 \<Longrightarrow>
    \<exists>s'. read n s = Some (Inr (take n (rest s)), s') \<and> rest s' = drop n (rest s) \<and> inv s'"
begin

lemma read_eof: "inv s \<Longrightarrow> n < 2 ^ 63 \<Longrightarrow> rest s = [] \<Longrightarrow> \<exists>s'. read n s = Some (Inr [], s') \<and> rest s' = [] \<and> inv s'"
  using read_ok [of s n] by simp

lemma readExpected_ok:
  "inv s \<Longrightarrow> n < 2 ^ 63 \<Longrightarrow> n \<le> length (rest s) \<Longrightarrow>
   \<exists>s'. readExpected read n s = Some (Inr (take n (rest s)), s') \<and> rest s' = drop n (rest s) \<and> inv s'"
  using read_ok [of s n] by (auto simp: readExpected_def bind_io_def)

lemma readExpected_short:
  "inv s \<Longrightarrow> n < 2 ^ 63 \<Longrightarrow> length (rest s) < n \<Longrightarrow> \<exists>s'. readExpected read n s = Some (Inl ShortReadException, s')"
  using read_ok [of s n] by (auto simp: readExpected_def bind_io_def)

lemma readType_ok:
  assumes "inv s" and "rest s = word_to_le n (w :: 'a::len word) @ tail" and "LENGTH('a) \<le> 8 * n"
    and "n < 2 ^ 63"
  shows "\<exists>s'. readType read n s = Some (Inr w, s') \<and> rest s' = tail \<and> inv s'"
  using readExpected_ok [OF assms(1,4)] assms(2,3)
  by (auto simp: readType_def word_of_le_full)

lemma skip_loop_ok:
  "inv s \<Longrightarrow> skipped \<le> n \<Longrightarrow>
   \<exists>s'. InputStream_skip_loop read n skipped s = Some (Inr (skipped + min (n - skipped) (length (rest s))), s')
      \<and> rest s' = drop (n - skipped) (rest s) \<and> inv s'"
proof (induction "n - skipped" arbitrary: skipped s rule: less_induct)
  case less
  define k where "k = (if n - skipped > 8192 then 8192 else n - skipped)"
  have k63: "k < 2 ^ 63" by (simp add: k_def)
  show ?case
  proof (cases "skipped < n \<and> rest s \<noteq> []")
    case False
    moreover obtain s1 where "rest s = [] \<Longrightarrow> read k s = Some (Inr [], s1) \<and> rest s1 = [] \<and> inv s1"
      using read_eof [OF less.prems(1) k63] by blast
    ultimately show ?thesis using less.prems
      by (intro exI [of _ "if skipped < n then s1 else s"])
         (auto simp: InputStream_skip_loop.simps [of read n skipped s] Let_def simp flip: k_def)
  next
    case True
    define r where "r = length (take k (rest s))"
    have k: "0 < k" "k \<le> n - skipped" using True by (auto simp: k_def)
    have r: "0 < r" "r \<le> k" using True k by (auto simp: r_def)
    obtain s1 where s1: "read k s = Some (Inr (take k (rest s)), s1)"
      "rest s1 = drop k (rest s)" "inv s1" using read_ok [OF less.prems(1) k63] by blast
    have "n - (skipped + r) < n - skipped" "skipped + r \<le> n" using r k True by auto
    from less.hyps [OF this(1) s1(3) this(2)] obtain s2 where s2:
      "InputStream_skip_loop read n (skipped + r) s1 =
         Some (Inr (skipped + r + min (n - (skipped + r)) (length (rest s1))), s2)"
      "rest s2 = drop (n - (skipped + r)) (rest s1)" "inv s2" by blast
    have "InputStream_skip_loop read n skipped s = InputStream_skip_loop read n (skipped + r) s1"
      using True s1 r by (auto simp: InputStream_skip_loop.simps [of read n skipped s] r_def Let_def min_def simp flip: k_def)
    moreover have "skipped + r + min (n - (skipped + r)) (length (rest s1))
        = skipped + min (n - skipped) (length (rest s))"
      using k by (auto simp: s1(2) r_def min_def)
    moreover have "drop (n - (skipped + r)) (rest s1) = drop (n - skipped) (rest s)"
      using k by (cases "k \<le> length (rest s)") (auto simp: s1(2) r_def min_def)
    ultimately show ?thesis using s2 by auto
  qed
qed

lemma skip_ok:
  "inv s \<Longrightarrow> \<exists>s'. InputStream_skip read n s = Some (Inr (min n (length (rest s))), s')
      \<and> rest s' = drop n (rest s) \<and> inv s'"
  using skip_loop_ok [of s 0 n] by (simp add: InputStream_skip_def)

lemma read_each_step:
  assumes "inv s" and "rest s \<noteq> []" and "0 < n" and "n < 2 ^ 63"
  obtains s' where "rest s' = drop n (rest s)" "inv s'"
    "read_each read n f (s, c) =
       (case f (take n (rest s)) c of
          None \<Rightarrow> None
        | Some (Inl e, c') \<Rightarrow> Some (Inl e, (s', c'))
        | Some (Inr _, c') \<Rightarrow> read_each read n f (s', c'))"
proof -
  obtain s' where "read n s = Some (Inr (take n (rest s)), s')" "rest s' = drop n (rest s)" "inv s'"
    using read_ok [OF assms(1,4)] by blast
  with assms show thesis
    by (intro that [of s']) (simp_all add: read_each.simps [of read n f "(s, c)"])
qed

lemma read_each_ok:
  "inv s \<Longrightarrow> 0 < n \<Longrightarrow> n < 2 ^ 63 \<Longrightarrow> feed f (chunks n (rest s)) c = Some (Inr (), c') \<Longrightarrow>
   \<exists>s'. read_each read n f (s, c) = Some (Inr (), (s', c')) \<and> rest s' = [] \<and> inv s'"
proof (induction "length (rest s)" arbitrary: s c rule: less_induct)
  case less
  show ?case
  proof (cases "rest s = []")
    case True
    then obtain s1 where "read n s = Some (Inr [], s1)" "rest s1 = []" "inv s1"
      using read_eof [OF less.prems(1,3)] by blast
    with True less.prems(4) show ?thesis
      by (intro exI [of _ s1]) (simp add: read_each.simps [of read n f "(s, c')"])
  next
    case False
    obtain s1 where s1: "rest s1 = drop n (rest s)" "inv s1"
      "read_each read n f (s, c) =
         (case f (take n (rest s)) c of None \<Rightarrow> None
          | Some (Inl e, c') \<Rightarrow> Some (Inl e, (s1, c'))
          | Some (Inr _, c') \<Rightarrow> read_each read n f (s1, c'))"
      by (rule read_each_step [OF less.prems(1) False less.prems(2,3)])
    from less.prems(2,4) False obtain c1 where "f (take n (rest s)) c = Some (Inr (), c1)"
      "feed f (chunks n (rest s1)) c1 = Some (Inr (), c')"
      by (auto simp: chunks_step s1(1) bind_io_eq_Inr)
    moreover have "length (rest s1) < length (rest s)"
      using False less.prems(2) by (simp add: s1(1))
    ultimately show ?thesis using less.hyps [of s1 c1] s1 less.prems(2,3) by simp
  qed
qed

lemma read_each_error:
  "inv s \<Longrightarrow> 0 < n \<Longrightarrow> n < 2 ^ 63 \<Longrightarrow> feed f (chunks n (rest s)) c = Some (Inl e, c') \<Longrightarrow>
   \<exists>s'. read_each read n f (s, c) = Some (Inl e, (s', c')) \<and> inv s'"
proof (induction "length (rest s)" arbitrary: s c rule: less_induct)
  case less
  then have False: "rest s \<noteq> []" by auto
  obtain s1 where s1: "rest s1 = drop n (rest s)" "inv s1"
    "read_each read n f (s, c) =
       (case f (take n (rest s)) c of None \<Rightarrow> None
        | Some (Inl e, c') \<Rightarrow> Some (Inl e, (s1, c'))
        | Some (Inr _, c') \<Rightarrow> read_each read n f (s1, c'))"
    by (rule read_each_step [OF less.prems(1) False less.prems(2,3)])
  have "length (rest s1) < length (rest s)" using False less.prems(2) by (simp add: s1(1))
  with less.hyps [of s1] s1 less.prems False show ?case
    by (auto simp: chunks_step bind_io_def split: option.splits sum.splits prod.splits)
qed

lemma parses_readExpected: "n < 2 ^ 63 \<Longrightarrow> length bs = n \<Longrightarrow> parses rest inv (readExpected read n) bs bs"
  unfolding parses_def
proof (intro allI impI)
  fix s tail
  assume "n < 2 ^ 63" "length bs = n" "inv s \<and> rest s = bs @ tail"
  with readExpected_ok [of s n] show "\<exists>s'. readExpected read n s = Some (Inr bs, s') \<and> rest s' = tail \<and> inv s'"
    by simp
qed

lemma parses_readType:
  "LENGTH('a) \<le> 8 * n \<Longrightarrow> n < 2 ^ 63 \<Longrightarrow> parses rest inv (readType read n) (w :: 'a::len word) (word_to_le n w)"
  unfolding parses_def using readType_ok by blast

end

text \<open>A stream that can be rewound: \<open>whole\<close> is what it delivers after \<open>rewind\<close>. Its \<open>skip\<close> may
  return any number, since the overriding implementations differ in what they return at the
  end of the stream.\<close>

locale rewindable_stream = input_stream "is_read V" rest inv
  for V :: "'s instream" and rest :: "'s \<Rightarrow> bytes" and inv :: "'s \<Rightarrow> bool" +
  fixes whole :: "'s \<Rightarrow> bytes"
  assumes canRewind_ok: "inv s \<Longrightarrow> is_canRewind V s"
    and rewind_ok: "inv s \<Longrightarrow>
      \<exists>s'. is_rewind V s = Some (Inr (), s') \<and> rest s' = whole s \<and> whole s' = whole s \<and> inv s'"
    and read_whole: "inv s \<Longrightarrow> n < 2 ^ 63 \<Longrightarrow> is_read V n s = Some (r, s') \<Longrightarrow> whole s' = whole s"
    and skip_law: "inv s \<Longrightarrow> n < 2 ^ 63 \<Longrightarrow>
      \<exists>k s'. is_skip V n s = Some (Inr k, s') \<and> rest s' = drop n (rest s) \<and> whole s' = whole s \<and> inv s'"
    and size_law: "inv s \<Longrightarrow> is_size V s = Some (Inr (int (length (whole s))), s)"
begin

lemma read_frame: "input_stream (is_read V) rest (\<lambda>s. inv s \<and> whole s = w)"
  by unfold_locales (use read_ok read_whole in blast)

lemma default_skip_frame:
  "inv s \<Longrightarrow> \<exists>k s'. InputStream_skip (is_read V) n s = Some (Inr k, s')
      \<and> rest s' = drop n (rest s) \<and> whole s' = whole s \<and> inv s'"
  using input_stream.skip_ok [OF read_frame, of s "whole s" n] by blast

lemma read_each_frame:
  "inv s \<Longrightarrow> 0 < n \<Longrightarrow> n < 2 ^ 63 \<Longrightarrow> feed f (chunks n (rest s)) c = Some (Inr (), c') \<Longrightarrow>
   \<exists>s'. read_each (is_read V) n f (s, c) = Some (Inr (), (s', c')) \<and> rest s' = [] \<and> whole s' = whole s \<and> inv s'"
  using input_stream.read_each_ok [OF read_frame, of s "whole s" n f c c'] by auto

end

locale output_stream =
  fixes emit :: "bytes \<Rightarrow> ('o, unit) io"
    and written :: "'o \<Rightarrow> bytes"
    and room :: "'o \<Rightarrow> nat \<Rightarrow> bool"
  assumes write_ok: "room t (length bs) \<Longrightarrow>
      \<exists>t'. emit bs t = Some (Inr (), t') \<and> written t' = written t @ bs
         \<and> (\<forall>k. room t (length bs + k) \<longrightarrow> room t' k)"
    and room_mono: "room t n \<Longrightarrow> m \<le> n \<Longrightarrow> room t m"
begin

lemma feed_write_ok:
  "room t (length (concat xs) + k) \<Longrightarrow>
   \<exists>t'. feed emit xs t = Some (Inr (), t') \<and> written t' = written t @ concat xs \<and> room t' k"
proof (induction xs arbitrary: t)
  case (Cons x xs)
  have "room t (length x)" using Cons.prems by (rule room_mono) simp
  then obtain t1 where t1: "emit x t = Some (Inr (), t1)" "written t1 = written t @ x"
    "\<And>j. room t (length x + j) \<Longrightarrow> room t1 j" using write_ok by blast
  have "room t1 (length (concat xs) + k)" using Cons.prems by (intro t1(3)) (simp add: add.assoc)
  then obtain t' where "feed emit xs t1 = Some (Inr (), t')"
    "written t' = written t1 @ concat xs" "room t' k" using Cons.IH by blast
  with t1 show ?case by simp
qed simp

lemma write_feed: "room t (length bs) \<Longrightarrow> \<exists>t'. emit bs t = Some (Inr (), t') \<and> written t' = written t @ bs"
  using write_ok by blast

end

text \<open>Two streams together: copying writes everything the input has left.\<close>

locale stream_copy = input_stream read rest inv + output_stream emit written room
  for read :: "nat \<Rightarrow> ('s, bytes) io" and rest inv
    and emit :: "bytes \<Rightarrow> ('o, unit) io" and written room
begin

lemma copyTo_ok:
  assumes "inv s" and "room t (length (rest s) + k)"
  shows "\<exists>s' t'. copyTo read emit (s, t) = Some (Inr (), (s', t')) \<and> rest s' = [] \<and> inv s'
           \<and> written t' = written t @ rest s \<and> room t' k"
proof -
  obtain t' where "feed emit (chunks 16384 (rest s)) t = Some (Inr (), t')"
    "written t' = written t @ rest s" "room t' k"
    using feed_write_ok [of t "chunks 16384 (rest s)" k] assms(2) by (auto simp: concat_chunks)
  with read_each_ok [OF assms(1), of 16384 emit t t'] show ?thesis
    by (auto simp: copyTo_def)
qed

end

end
