(* ===== verification/Memory_Streams.thy ===== *)
theory Memory_Streams
  imports Streams
begin

text \<open>
  \<^verbatim>\<open>MemoryInputStream\<close> and \<^verbatim>\<open>MemoryOutputStream\<close>. A pointer into a buffer is an index; the
  bytes of an output buffer that lie behind \<^verbatim>\<open>mNext\<close> are never read through the class and are
  not part of the state. Both classes are shown to keep the stream contracts.
\<close>

section \<open>MemoryInputStream\<close>

text \<open>\<open>mStart\<close> holds the buffer (from \<^verbatim>\<open>mStart\<close> to \<^verbatim>\<open>mEnd\<close>), \<open>mNext\<close> is the offset of \<^verbatim>\<open>mNext\<close> in it.\<close>

record MemoryInputStream =
  mStart :: bytes
  mNext :: nat

definition MemoryInputStream_new :: "bytes \<Rightarrow> MemoryInputStream" where
  "MemoryInputStream_new buffer = \<lparr>mStart = buffer, mNext = 0\<rparr>"

definition MemoryInputStream_read :: "nat \<Rightarrow> (MemoryInputStream, bytes) io" where
  "MemoryInputStream_read sz = (\<lambda>s.
     if mNext s \<ge> length (mStart s) then Some (Inr [], s)
     else
       let size' = (if sz > length (mStart s) - mNext s then length (mStart s) - mNext s else sz) in
       Some (Inr (take size' (drop (mNext s) (mStart s))), s\<lparr>mNext := mNext s + size'\<rparr>))"

definition MemoryInputStream_skip :: "nat \<Rightarrow> (MemoryInputStream, nat) io" where
  "MemoryInputStream_skip n = (\<lambda>s.
     let next' = (if mNext s + n \<ge> length (mStart s) then length (mStart s) else mNext s + n) in
     Some (Inr (next' - mNext s), s\<lparr>mNext := next'\<rparr>))"

definition MemoryInputStream_canRewind :: "MemoryInputStream \<Rightarrow> bool" where
  "MemoryInputStream_canRewind s = True"

definition MemoryInputStream_rewind :: "(MemoryInputStream, unit) io" where
  "MemoryInputStream_rewind = modify_io (mNext_update (\<lambda>_. 0))"

definition MemoryInputStream_size :: "(MemoryInputStream, int) io" where
  "MemoryInputStream_size = gets_io (\<lambda>s. int (length (mStart s)))"

definition MemoryInputStream_methods :: "MemoryInputStream instream" where
  "MemoryInputStream_methods = (InputStream MemoryInputStream_read)
     \<lparr>is_skip := MemoryInputStream_skip, is_canRewind := MemoryInputStream_canRewind,
      is_rewind := MemoryInputStream_rewind, is_size := MemoryInputStream_size\<rparr>"

lemma MemoryInputStream_sel [simp]:
  "is_read MemoryInputStream_methods = MemoryInputStream_read"
  "is_skip MemoryInputStream_methods = MemoryInputStream_skip"
  "is_canRewind MemoryInputStream_methods = MemoryInputStream_canRewind"
  "is_rewind MemoryInputStream_methods = MemoryInputStream_rewind"
  "is_size MemoryInputStream_methods = MemoryInputStream_size"
  by (simp_all add: MemoryInputStream_methods_def InputStream_def)

definition mem_rest :: "MemoryInputStream \<Rightarrow> bytes" where
  "mem_rest s = drop (mNext s) (mStart s)"

definition mem_inv :: "MemoryInputStream \<Rightarrow> bool" where
  "mem_inv s \<longleftrightarrow> mNext s \<le> length (mStart s)"

lemma mem_new [simp]:
  "mem_inv (MemoryInputStream_new b)" "mem_rest (MemoryInputStream_new b) = b"
  "mStart (MemoryInputStream_new b) = b"
  by (simp_all add: MemoryInputStream_new_def mem_inv_def mem_rest_def)

interpretation mem_in: rewindable_stream MemoryInputStream_methods mem_rest mem_inv mStart
proof unfold_locales
  fix s n
  assume *: "mem_inv s"
  show "\<exists>s'. is_read MemoryInputStream_methods n s = Some (Inr (take n (mem_rest s)), s')
      \<and> mem_rest s' = drop n (mem_rest s) \<and> mem_inv s'"
    using * by (auto simp: MemoryInputStream_read_def mem_rest_def mem_inv_def Let_def add.commute)
  show "is_canRewind MemoryInputStream_methods s" by (simp add: MemoryInputStream_canRewind_def)
  show "\<exists>s'. is_rewind MemoryInputStream_methods s = Some (Inr (), s') \<and> mem_rest s' = mStart s
      \<and> mStart s' = mStart s \<and> mem_inv s'"
    by (simp add: MemoryInputStream_rewind_def mem_rest_def mem_inv_def)
  show "mStart s' = mStart s" if "is_read MemoryInputStream_methods n s = Some (r, s')" for r s'
    using that by (auto simp: MemoryInputStream_read_def Let_def split: if_splits)
  show "\<exists>k s'. is_skip MemoryInputStream_methods n s = Some (Inr k, s')
      \<and> mem_rest s' = drop n (mem_rest s) \<and> mStart s' = mStart s \<and> mem_inv s'"
    by (simp add: MemoryInputStream_skip_def mem_rest_def mem_inv_def Let_def add.commute)
  show "is_size MemoryInputStream_methods s = Some (Inr (int (length (mStart s))), s)"
    by (simp add: MemoryInputStream_size_def)
qed

section \<open>MemoryOutputStream\<close>

text \<open>\<open>mData\<close> holds the bytes written (from \<^verbatim>\<open>mStart\<close> to \<^verbatim>\<open>mNext\<close>), \<open>mCapacity\<close> the size of the
  buffer (\<^verbatim>\<open>mEnd - mStart\<close>).\<close>

record MemoryOutputStream =
  mData :: bytes
  mCapacity :: nat

definition MemoryOutputStream_new :: "nat \<Rightarrow> MemoryOutputStream" where
  "MemoryOutputStream_new sz = \<lparr>mData = [], mCapacity = sz\<rparr>"

definition MemoryOutputStream_size :: "MemoryOutputStream \<Rightarrow> nat" where
  "MemoryOutputStream_size t = length (mData t)"

definition MemoryOutputStream_reset :: "(MemoryOutputStream, unit) io" where
  "MemoryOutputStream_reset = modify_io (mData_update (\<lambda>_. []))"

definition MemoryOutputStream_write :: "bytes \<Rightarrow> (MemoryOutputStream, unit) io" where
  "MemoryOutputStream_write bs = (\<lambda>t.
     if length bs > mCapacity t - length (mData t) then Some (Inl InsufficientBufferSizeException, t)
     else Some (Inr (), t\<lparr>mData := mData t @ bs\<rparr>))"

definition MemoryOutputStream_methods :: "MemoryOutputStream outstream" where
  "MemoryOutputStream_methods = OutputStream MemoryOutputStream_write"

definition mem_room :: "MemoryOutputStream \<Rightarrow> nat \<Rightarrow> bool" where
  "mem_room t n \<longleftrightarrow> length (mData t) + n \<le> mCapacity t"

interpretation mem_out: output_stream MemoryOutputStream_write mData mem_room
  by unfold_locales (auto simp: MemoryOutputStream_write_def mem_room_def)

lemma MemoryOutputStream_write_full:
  "\<not> mem_room t (length bs) \<Longrightarrow> bs \<noteq> [] \<Longrightarrow>
   MemoryOutputStream_write bs t = Some (Inl InsufficientBufferSizeException, t)"
  by (cases bs) (auto simp: MemoryOutputStream_write_def mem_room_def)

end
