(* ===== verification/Filter_Streams.thy ===== *)
theory Filter_Streams
  imports Memory_Streams
begin

text \<open>
  The input streams that read from other input streams: \<^verbatim>\<open>MultiInputStream\<close>,
  \<^verbatim>\<open>InputRangeStream\<close> and \<^verbatim>\<open>BufferedInputStream\<close>. Each takes the table of methods of the
  streams below as an argument, as the classes take them through \<^verbatim>\<open>InputStream&\<close>, and is shown
  to keep the contract the streams below keep.
\<close>

section \<open>MultiInputStream\<close>

text \<open>\<open>mCurStream\<close> is the position of the iterator, the length of the list standing for \<^verbatim>\<open>end()\<close>.\<close>

record 's MultiInputStream =
  mStreamList :: "'s list"
  mCurStream :: nat

definition MultiInputStream_new :: "'s list \<Rightarrow> 's MultiInputStream" where
  "MultiInputStream_new l = \<lparr>mStreamList = l, mCurStream = 0\<rparr>"

function MultiInputStream_read_loop ::
    "'s instream \<Rightarrow> nat \<Rightarrow> bytes \<Rightarrow> ('s MultiInputStream, bytes) io" where
  "MultiInputStream_read_loop V sz acc m =
     (if length acc < sz then
        if mCurStream m < length (mStreamList m) then
          (case is_read V (sz - length acc) (mStreamList m ! mCurStream m) of
             None \<Rightarrow> None
           | Some (r, s') \<Rightarrow>
               let m' = m\<lparr>mStreamList := (mStreamList m)[mCurStream m := s']\<rparr> in
               (case r of
                  Inl e \<Rightarrow> Some (Inl e, m')
                | Inr bs \<Rightarrow>
                    if length bs = 0 then
                      let m'' = m'\<lparr>mCurStream := mCurStream m + 1\<rparr> in
                      if mCurStream m'' = length (mStreamList m'') then Some (Inr acc, m'')
                      else MultiInputStream_read_loop V sz acc m''
                    else MultiInputStream_read_loop V sz (acc @ bs) m'))
        else Some (Inl UndefinedBehaviour, m)
      else Some (Inr acc, m))"
  by pat_completeness auto
termination
  by (relation "measures [\<lambda>(V, sz, acc, m). length (mStreamList m) - mCurStream m,
                          \<lambda>(V, sz, acc, m). sz - length acc]")
     (auto intro!: diff_less_mono2)

declare MultiInputStream_read_loop.simps [simp del]

definition MultiInputStream_read :: "'s instream \<Rightarrow> nat \<Rightarrow> ('s MultiInputStream, bytes) io" where
  "MultiInputStream_read V sz = (\<lambda>m.
     if mCurStream m = length (mStreamList m) then Some (Inr [], m)
     else MultiInputStream_read_loop V sz [] m)"

primrec sum_sizes :: "'s instream \<Rightarrow> int \<Rightarrow> 's list \<Rightarrow> ((exn + int) \<times> 's list) option" where
  "sum_sizes V tot [] = Some (Inr tot, [])"
| "sum_sizes V tot (s # ss) =
     (case is_size V s of
        None \<Rightarrow> None
      | Some (Inl e, s') \<Rightarrow> Some (Inl e, s' # ss)
      | Some (Inr sz, s') \<Rightarrow>
          if sz < 0 then Some (Inr (- 1), s' # ss)
          else map_option (\<lambda>(r, ss'). (r, s' # ss')) (sum_sizes V (tot + sz) ss))"

definition MultiInputStream_size :: "'s instream \<Rightarrow> ('s MultiInputStream, int) io" where
  "MultiInputStream_size V =
     zoom_io mStreamList (\<lambda>l. mStreamList_update (\<lambda>_. l)) (sum_sizes V 0)"

definition MultiInputStream_canRewind :: "'s instream \<Rightarrow> 's MultiInputStream \<Rightarrow> bool" where
  "MultiInputStream_canRewind V m = list_all (is_canRewind V) (mStreamList m)"

primrec rewind_all :: "'s instream \<Rightarrow> 's list \<Rightarrow> ((exn + unit) \<times> 's list) option" where
  "rewind_all V [] = Some (Inr (), [])"
| "rewind_all V (s # ss) =
     (case is_rewind V s of
        None \<Rightarrow> None
      | Some (Inl e, s') \<Rightarrow> Some (Inl e, s' # ss)
      | Some (Inr _, s') \<Rightarrow> map_option (\<lambda>(r, ss'). (r, s' # ss')) (rewind_all V ss))"

definition MultiInputStream_rewind :: "'s instream \<Rightarrow> ('s MultiInputStream, unit) io" where
  "MultiInputStream_rewind V = (\<lambda>m.
     if MultiInputStream_canRewind V m then
       seq_io (zoom_io mStreamList (\<lambda>l. mStreamList_update (\<lambda>_. l)) (rewind_all V))
              (modify_io (mCurStream_update (\<lambda>_. 0))) m
     else Some (Inr (), m))"

definition MultiInputStream_methods :: "'s instream \<Rightarrow> 's MultiInputStream instream" where
  "MultiInputStream_methods V = (InputStream (MultiInputStream_read V))
     \<lparr>is_size := MultiInputStream_size V, is_canRewind := MultiInputStream_canRewind V,
      is_rewind := MultiInputStream_rewind V\<rparr>"

lemma MultiInputStream_sel [simp]:
  "is_read (MultiInputStream_methods V) = MultiInputStream_read V"
  "is_skip (MultiInputStream_methods V) = InputStream_skip (MultiInputStream_read V)"
  "is_canRewind (MultiInputStream_methods V) = MultiInputStream_canRewind V"
  "is_rewind (MultiInputStream_methods V) = MultiInputStream_rewind V"
  "is_size (MultiInputStream_methods V) = MultiInputStream_size V"
  by (simp_all add: MultiInputStream_methods_def InputStream_def)

definition multi_rest :: "('s \<Rightarrow> bytes) \<Rightarrow> 's MultiInputStream \<Rightarrow> bytes" where
  "multi_rest rest m = concat (map rest (drop (mCurStream m) (mStreamList m)))"

definition multi_inv :: "('s \<Rightarrow> bool) \<Rightarrow> 's MultiInputStream \<Rightarrow> bool" where
  "multi_inv ok m \<longleftrightarrow> (\<forall>s \<in> set (mStreamList m). ok s) \<and> mCurStream m \<le> length (mStreamList m)"

definition multi_whole :: "('s \<Rightarrow> bytes) \<Rightarrow> 's MultiInputStream \<Rightarrow> bytes" where
  "multi_whole whole m = concat (map whole (mStreamList m))"

lemma multi_new [simp]:
  "multi_rest rest (MultiInputStream_new l) = concat (map rest l)"
  "multi_inv ok (MultiInputStream_new l) = (\<forall>s \<in> set l. ok s)"
  "multi_whole whole (MultiInputStream_new l) = concat (map whole l)"
  by (simp_all add: MultiInputStream_new_def multi_rest_def multi_inv_def multi_whole_def)

lemma concat_map_update:
  "i < length xs \<Longrightarrow> f y = f (xs ! i) \<Longrightarrow> concat (map f (xs[i := y])) = concat (map f xs)"
  by (metis list_update_id map_update)

text \<open>The streams below keep the contract, and so does the stream that joins them. The locale has
  the assumptions of \<open>rewindable_stream\<close> and another name, so that a client can join joined streams.\<close>

locale multi_input = rewindable_stream
begin

lemma multi_read_step:
  assumes "multi_inv inv m" and "mCurStream m < length (mStreamList m)" and "k < 2 ^ 63"
  obtains s' where "is_read V k (mStreamList m ! mCurStream m) =
      Some (Inr (take k (rest (mStreamList m ! mCurStream m))), s')"
    "rest s' = drop k (rest (mStreamList m ! mCurStream m))"
    "multi_inv inv (m\<lparr>mStreamList := (mStreamList m)[mCurStream m := s']\<rparr>)"
    "multi_whole whole (m\<lparr>mStreamList := (mStreamList m)[mCurStream m := s']\<rparr>) = multi_whole whole m"
    "multi_rest rest (m\<lparr>mStreamList := (mStreamList m)[mCurStream m := s']\<rparr>) =
       rest s' @ concat (map rest (drop (Suc (mCurStream m)) (mStreamList m)))"
proof -
  have "inv (mStreamList m ! mCurStream m)" using assms by (simp add: multi_inv_def)
  then obtain s' where s': "is_read V k (mStreamList m ! mCurStream m) =
      Some (Inr (take k (rest (mStreamList m ! mCurStream m))), s')"
    "rest s' = drop k (rest (mStreamList m ! mCurStream m))" "inv s'"
    "whole s' = whole (mStreamList m ! mCurStream m)" using read_ok [OF _ assms(3)] read_whole [OF _ assms(3)] by blast
  moreover have "drop (mCurStream m) ((mStreamList m)[mCurStream m := s'])
      = s' # drop (Suc (mCurStream m)) (mStreamList m)"
    using assms(2) by (simp add: Cons_nth_drop_Suc [symmetric])
  moreover have "\<forall>s \<in> set ((mStreamList m)[mCurStream m := s']). inv s"
    using s'(3) assms(1) set_update_subset_insert [of "mStreamList m" "mCurStream m" s']
    by (auto simp: multi_inv_def)
  ultimately show thesis using assms
    by (intro that [of s'])
       (simp_all add: multi_inv_def multi_whole_def multi_rest_def concat_map_update)
qed

lemma multi_rest_cur:
  "mCurStream m < length (mStreamList m) \<Longrightarrow> multi_rest rest m =
     rest (mStreamList m ! mCurStream m) @ concat (map rest (drop (Suc (mCurStream m)) (mStreamList m)))"
  by (simp add: multi_rest_def Cons_nth_drop_Suc [symmetric])

lemma multi_read_loop_ok:
  "multi_inv inv m \<Longrightarrow> mCurStream m < length (mStreamList m) \<Longrightarrow> length acc \<le> sz \<Longrightarrow> sz < 2 ^ 63 \<Longrightarrow>
   \<exists>m'. MultiInputStream_read_loop V sz acc m =
          Some (Inr (acc @ take (sz - length acc) (multi_rest rest m)), m')
      \<and> multi_rest rest m' = drop (sz - length acc) (multi_rest rest m)
      \<and> multi_inv inv m' \<and> multi_whole whole m' = multi_whole whole m"
proof (induction "(length (mStreamList m) - mCurStream m) * Suc sz + (sz - length acc)"
    arbitrary: m acc rule: less_induct)
  case less
  define k where "k = sz - length acc"
  have k63: "k < 2 ^ 63" using less.prems(4) by (simp add: k_def)
  define later where "later = concat (map rest (drop (Suc (mCurStream m)) (mStreamList m)))"
  obtain s' where s': "is_read V k (mStreamList m ! mCurStream m) =
      Some (Inr (take k (rest (mStreamList m ! mCurStream m))), s')"
    "rest s' = drop k (rest (mStreamList m ! mCurStream m))"
    "multi_inv inv (m\<lparr>mStreamList := (mStreamList m)[mCurStream m := s']\<rparr>)"
    "multi_whole whole (m\<lparr>mStreamList := (mStreamList m)[mCurStream m := s']\<rparr>) = multi_whole whole m"
    "multi_rest rest (m\<lparr>mStreamList := (mStreamList m)[mCurStream m := s']\<rparr>) = rest s' @ later"
    using multi_read_step [OF less.prems(1,2) k63] unfolding later_def by blast
  define r where "r = rest (mStreamList m ! mCurStream m)"
  define m1 where "m1 = m\<lparr>mStreamList := (mStreamList m)[mCurStream m := s']\<rparr>"
  define m2 where "m2 = m1\<lparr>mCurStream := mCurStream m + 1\<rparr>"
  have rest_m: "multi_rest rest m = r @ later"
    using multi_rest_cur [OF less.prems(2)] by (simp add: later_def r_def)
  have step: "MultiInputStream_read_loop V sz acc m =
     (if k = 0 then Some (Inr acc, m)
      else if take k r = [] then
        if mCurStream m + 1 = length (mStreamList m) then Some (Inr acc, m2)
        else MultiInputStream_read_loop V sz acc m2
      else MultiInputStream_read_loop V sz (acc @ take k r) m1)"
    using less.prems s'(1)
    by (auto simp: MultiInputStream_read_loop.simps [of V sz acc m] k_def [symmetric] r_def Let_def m1_def m2_def)
       (auto simp: k_def)
  have m2: "multi_inv inv m2" "multi_whole whole m2 = multi_whole whole m" "multi_rest rest m2 = later"
    using less.prems(2) s'(3,4) by (auto simp: m2_def m1_def multi_inv_def multi_whole_def multi_rest_def later_def)
  consider "k = 0" | "k \<noteq> 0" "r = []" "mCurStream m + 1 = length (mStreamList m)"
    | "k \<noteq> 0" "r = []" "mCurStream m + 1 \<noteq> length (mStreamList m)" | "k \<noteq> 0" "r \<noteq> []" by blast
  then show ?case
  proof cases
    case 1
    then show ?thesis using step less.prems by (simp add: k_def)
  next
    case 2
    then have "later = []" by (simp add: later_def)
    with 2 step m2 show ?thesis by (simp add: rest_m)
  next
    case 3
    have "MultiInputStream_read_loop V sz acc m = MultiInputStream_read_loop V sz acc m2"
      using step 3 by simp
    moreover have "(length (mStreamList m2) - mCurStream m2) * Suc sz + (sz - length acc)
        < (length (mStreamList m) - mCurStream m) * Suc sz + (sz - length acc)"
      using less.prems(2) by (simp add: m2_def m1_def del: mult_Suc_right)
    moreover have "mCurStream m2 < length (mStreamList m2)"
      using less.prems(2) 3 by (simp add: m2_def m1_def)
    ultimately show ?thesis using less.hyps [of m2 acc] less.prems(3,4) m2 3
      by (simp add: rest_m)
  next
    case 4
    have le: "length (acc @ take k r) \<le> sz" using less.prems(3) by (simp add: k_def)
    have "MultiInputStream_read_loop V sz acc m = MultiInputStream_read_loop V sz (acc @ take k r) m1"
      using step 4 by simp
    moreover have "sz - length (acc @ take k r) < sz - length acc"
      using 4 by (cases r) (auto simp: k_def)
    then have "(length (mStreamList m1) - mCurStream m1) * Suc sz + (sz - length (acc @ take k r))
        < (length (mStreamList m) - mCurStream m) * Suc sz + (sz - length acc)"
      by (simp add: m1_def del: length_append)
    moreover have "mCurStream m1 < length (mStreamList m1)" using less.prems(2) by (simp add: m1_def)
    moreover have "multi_rest rest m1 = drop k r @ later" using s' by (simp add: m1_def r_def)
    ultimately show ?thesis using less.hyps [of m1 "acc @ take k r"] le less.prems(4) s'(3,4)
      by (auto simp: rest_m m1_def [symmetric] min_def k_def split: if_splits)
  qed
qed

lemma multi_read_ok:
  assumes "multi_inv inv m" and "n < 2 ^ 63"
  shows "\<exists>m'. MultiInputStream_read V n m = Some (Inr (take n (multi_rest rest m)), m')
      \<and> multi_rest rest m' = drop n (multi_rest rest m) \<and> multi_inv inv m'
      \<and> multi_whole whole m' = multi_whole whole m"
proof (cases "mCurStream m = length (mStreamList m)")
  case True
  then show ?thesis using assms by (simp add: MultiInputStream_read_def multi_rest_def)
next
  case False
  with assms(1) have "mCurStream m < length (mStreamList m)" by (simp add: multi_inv_def)
  with multi_read_loop_ok [OF assms(1) this, of "[]" n] assms(2) False show ?thesis
    by (simp add: MultiInputStream_read_def)
qed

lemma rewind_all_ok:
  "(\<forall>s \<in> set ss. inv s) \<Longrightarrow>
   \<exists>ss'. rewind_all V ss = Some (Inr (), ss') \<and> length ss' = length ss \<and> (\<forall>s \<in> set ss'. inv s)
      \<and> map rest ss' = map whole ss \<and> map whole ss' = map whole ss"
proof (induction ss)
  case (Cons s ss)
  then obtain s' where "is_rewind V s = Some (Inr (), s')" "rest s' = whole s" "whole s' = whole s" "inv s'"
    using rewind_ok [of s] by auto
  with Cons show ?case by auto
qed simp

lemma sum_sizes_ok:
  "(\<forall>s \<in> set ss. inv s) \<Longrightarrow> sum_sizes V tot ss = Some (Inr (tot + int (length (concat (map whole ss)))), ss)"
  by (induction ss arbitrary: tot) (simp_all add: size_law)

lemma multi_frame:
  "input_stream (MultiInputStream_read V) (multi_rest rest) (\<lambda>m. multi_inv inv m \<and> multi_whole whole m = w)"
  by unfold_locales (use multi_read_ok in blast)

end

sublocale multi_input \<subseteq> joined: rewindable_stream "MultiInputStream_methods V" "multi_rest rest"
    "multi_inv inv" "multi_whole whole"
proof unfold_locales
  fix m n
  assume inv: "multi_inv inv m"
  then have all: "\<forall>s \<in> set (mStreamList m). inv s" by (simp add: multi_inv_def)
  show "is_canRewind (MultiInputStream_methods V) m"
    using all canRewind_ok by (simp add: MultiInputStream_canRewind_def list_all_iff)
  then show "\<exists>m'. is_rewind (MultiInputStream_methods V) m = Some (Inr (), m')
      \<and> multi_rest rest m' = multi_whole whole m \<and> multi_whole whole m' = multi_whole whole m
      \<and> multi_inv inv m'"
    using rewind_all_ok [OF all]
    by (auto simp: MultiInputStream_rewind_def multi_rest_def multi_whole_def multi_inv_def)
  show "\<exists>m'. is_read (MultiInputStream_methods V) n m = Some (Inr (take n (multi_rest rest m)), m')
      \<and> multi_rest rest m' = drop n (multi_rest rest m) \<and> multi_inv inv m'" if "n < 2 ^ 63"
    using multi_read_ok [OF inv that] by auto
  show "\<exists>k m'. is_skip (MultiInputStream_methods V) n m = Some (Inr k, m')
      \<and> multi_rest rest m' = drop n (multi_rest rest m) \<and> multi_whole whole m' = multi_whole whole m
      \<and> multi_inv inv m'"
    using input_stream.skip_ok [OF multi_frame, of m "multi_whole whole m" n] inv by auto
  show "is_size (MultiInputStream_methods V) m = Some (Inr (int (length (multi_whole whole m))), m)"
    using sum_sizes_ok [OF all, of 0] by (simp add: MultiInputStream_size_def zoom_io_def multi_whole_def)
  show "multi_whole whole m' = multi_whole whole m"
    if "n < 2 ^ 63" "is_read (MultiInputStream_methods V) n m = Some (r, m')" for r m'
    using multi_read_ok [OF inv that(1)] that(2) by auto
qed

section \<open>InputRangeStream\<close>

text \<open>The offsets are \<^verbatim>\<open>long\<close>; in \<^verbatim>\<open>read\<close> they are compared with a \<^verbatim>\<open>size_t\<close> and the comparison is
  unsigned, modulo $2^{64}$.\<close>

record 's InputRangeStream =
  rs_stream :: 's
  mOffset :: int
  mEndOffset :: int
  mPosition :: int

definition to_size_t :: "int \<Rightarrow> nat" where
  "to_size_t x = nat (x mod 2 ^ 64)"

definition InputRangeStream_new ::
    "'s instream \<Rightarrow> int \<Rightarrow> int \<Rightarrow> 's \<Rightarrow> ((exn + unit) \<times> 's InputRangeStream) option" where
  "InputRangeStream_new V offset sz s =
     (case is_skip V (to_size_t offset) s of
        None \<Rightarrow> None
      | Some (r, s') \<Rightarrow>
          Some (map_sum id (\<lambda>_. ()) r,
            \<lparr>rs_stream = s', mOffset = offset, mEndOffset = offset + sz, mPosition = offset\<rparr>))"

definition InputRangeStream_read :: "'s instream \<Rightarrow> nat \<Rightarrow> ('s InputRangeStream, bytes) io" where
  "InputRangeStream_read V sz = (\<lambda>r.
     let beyond = to_size_t (mPosition r + int sz) \<ge> to_size_t (mEndOffset r);
         sz' = (if beyond then to_size_t (mEndOffset r - mPosition r) else sz) in
     if beyond \<and> sz' = 0 then Some (Inr [], r)
     else
       (case is_read V sz' (rs_stream r) of
          None \<Rightarrow> None
        | Some (Inl e, s') \<Rightarrow> Some (Inl e, r\<lparr>rs_stream := s'\<rparr>)
        | Some (Inr bs, s') \<Rightarrow>
            Some (Inr bs, r\<lparr>rs_stream := s', mPosition := mPosition r + int (length bs)\<rparr>)))"

definition InputRangeStream_canRewind :: "'s instream \<Rightarrow> 's InputRangeStream \<Rightarrow> bool" where
  "InputRangeStream_canRewind V r = is_canRewind V (rs_stream r)"

definition InputRangeStream_rewind :: "'s instream \<Rightarrow> ('s InputRangeStream, unit) io" where
  "InputRangeStream_rewind V = (\<lambda>r.
     if InputRangeStream_canRewind V r then
       seq_io (zoom_io rs_stream (\<lambda>s. rs_stream_update (\<lambda>_. s))
                 (seq_io (is_rewind V) (is_skip V (to_size_t (mOffset r)))))
              (modify_io (\<lambda>r. r\<lparr>mPosition := mOffset r\<rparr>)) r
     else Some (Inr (), r))"

definition InputRangeStream_size :: "('s InputRangeStream, int) io" where
  "InputRangeStream_size = gets_io (\<lambda>r. mEndOffset r - mOffset r)"

definition InputRangeStream_methods :: "'s instream \<Rightarrow> 's InputRangeStream instream" where
  "InputRangeStream_methods V = (InputStream (InputRangeStream_read V))
     \<lparr>is_canRewind := InputRangeStream_canRewind V, is_rewind := InputRangeStream_rewind V,
      is_size := InputRangeStream_size\<rparr>"

lemma InputRangeStream_sel [simp]:
  "is_read (InputRangeStream_methods V) = InputRangeStream_read V"
  "is_skip (InputRangeStream_methods V) = InputStream_skip (InputRangeStream_read V)"
  "is_canRewind (InputRangeStream_methods V) = InputRangeStream_canRewind V"
  "is_rewind (InputRangeStream_methods V) = InputRangeStream_rewind V"
  "is_size (InputRangeStream_methods V) = InputRangeStream_size"
  by (simp_all add: InputRangeStream_methods_def InputStream_def)

lemma to_size_t_small [simp]: "0 \<le> x \<Longrightarrow> x < 2 ^ 64 \<Longrightarrow> to_size_t x = nat x"
  by (simp add: to_size_t_def)

definition range_rest :: "('s \<Rightarrow> bytes) \<Rightarrow> 's InputRangeStream \<Rightarrow> bytes" where
  "range_rest rest r = take (nat (mEndOffset r - mPosition r)) (rest (rs_stream r))"

definition range_whole :: "('s \<Rightarrow> bytes) \<Rightarrow> 's InputRangeStream \<Rightarrow> bytes" where
  "range_whole whole r = take (nat (mEndOffset r - mOffset r)) (drop (nat (mOffset r)) (whole (rs_stream r)))"

text \<open>The range lies inside the stream below, which stands at \<open>mPosition\<close>.\<close>

definition range_inv ::
    "('s \<Rightarrow> bytes) \<Rightarrow> ('s \<Rightarrow> bool) \<Rightarrow> ('s \<Rightarrow> bytes) \<Rightarrow> 's InputRangeStream \<Rightarrow> bool" where
  "range_inv rest ok whole r \<longleftrightarrow> ok (rs_stream r)
     \<and> 0 \<le> mOffset r \<and> mOffset r \<le> mPosition r \<and> mPosition r \<le> mEndOffset r
     \<and> mEndOffset r \<le> int (length (whole (rs_stream r))) \<and> mEndOffset r < 2 ^ 63
     \<and> rest (rs_stream r) = drop (nat (mPosition r)) (whole (rs_stream r))"

locale range_input = rewindable_stream
begin

lemma range_new_ok:
  assumes "inv s" and "rest s = whole s" and "off + n \<le> length (whole s)" and "off + n < 2 ^ 63"
  shows "\<exists>r. InputRangeStream_new V (int off) (int n) s = Some (Inr (), r) \<and> range_inv rest inv whole r
      \<and> range_rest rest r = take n (drop off (whole s)) \<and> range_whole whole r = take n (drop off (whole s))"
proof -
  obtain k s' where s': "is_skip V off s = Some (Inr k, s')" "rest s' = drop off (rest s)"
    "whole s' = whole s" "inv s'" using skip_law [OF assms(1), of off] assms(4) by auto
  have "nat (int off + int n - int off) = n" by simp
  then show ?thesis
    using s' assms by (simp add: InputRangeStream_new_def range_inv_def range_rest_def range_whole_def)
qed

lemma range_read_ok:
  assumes "range_inv rest inv whole r" and "n < 2 ^ 63"
  shows "\<exists>r'. InputRangeStream_read V n r = Some (Inr (take n (range_rest rest r)), r')
      \<and> range_rest rest r' = drop n (range_rest rest r) \<and> range_inv rest inv whole r'
      \<and> range_whole whole r' = range_whole whole r"
proof -
  define left where "left = nat (mEndOffset r - mPosition r)"
  define k where "k = min n left"
  have pos: "0 \<le> mPosition r" "mPosition r \<le> mEndOffset r" "mEndOffset r < 2 ^ 63"
    using assms(1) by (auto simp: range_inv_def)
  have beyond: "to_size_t (mPosition r + int n) \<ge> to_size_t (mEndOffset r) \<longleftrightarrow> left \<le> n"
    using pos assms(2) by (auto simp: left_def)
  have left: "to_size_t (mEndOffset r - mPosition r) = left" using pos by (simp add: left_def)
  have len: "k \<le> length (rest (rs_stream r))"
    using assms(1) by (auto simp: range_inv_def k_def left_def)
  have k63: "k < 2 ^ 63" using assms(2) by (simp add: k_def)
  have s: "inv (rs_stream r)" using assms(1) by (simp add: range_inv_def)
  obtain s' where s': "is_read V k (rs_stream r) = Some (Inr (take k (rest (rs_stream r))), s')"
    "rest s' = drop k (rest (rs_stream r))" "inv s'" "whole s' = whole (rs_stream r)"
    using read_ok [OF s k63] read_whole [OF s k63] by blast
  define r' where "r' = r\<lparr>rs_stream := s', mPosition := mPosition r + int k\<rparr>"
  have "range_inv rest inv whole r'"
    using assms(1) s' by (auto simp: r'_def range_inv_def k_def left_def nat_add_distrib add.commute)
  moreover have "range_rest rest r' = drop n (range_rest rest r)"
  proof -
    have "nat (mEndOffset r - (mPosition r + int k)) = left - k" by (simp add: left_def)
    then show ?thesis
      using s'(2) by (auto simp: r'_def range_rest_def k_def drop_take min_def simp flip: left_def)
  qed
  moreover have "range_whole whole r' = range_whole whole r"
    using s'(4) by (simp add: r'_def range_whole_def)
  moreover have "InputRangeStream_read V n r = Some (Inr (take n (range_rest rest r)), r')"
    if "left \<noteq> 0"
  proof -
    have "(if left \<le> n then left else n) = k" by (simp add: k_def)
    moreover have "take n (range_rest rest r) = take k (rest (rs_stream r))"
      by (simp add: range_rest_def k_def left_def)
    moreover have "length (take k (rest (rs_stream r))) = k" using len by simp
    ultimately show ?thesis
      using that s'(1) beyond by (cases "left \<le> n") (simp_all add: InputRangeStream_read_def left Let_def r'_def)
  qed
  moreover have "InputRangeStream_read V n r = Some (Inr (take n (range_rest rest r)), r)"
    "range_rest rest r = drop n (range_rest rest r)" if "left = 0"
    using that by (simp_all add: InputRangeStream_read_def beyond left Let_def range_rest_def flip: left_def)
  ultimately show ?thesis using assms(1) by (cases "left = 0") auto
qed

lemma range_frame:
  "input_stream (InputRangeStream_read V) (range_rest rest)
     (\<lambda>r. range_inv rest inv whole r \<and> range_whole whole r = w)"
  by unfold_locales (use range_read_ok in blast)

end

sublocale range_input \<subseteq> ranged: rewindable_stream "InputRangeStream_methods V" "range_rest rest"
    "range_inv rest inv whole" "range_whole whole"
proof unfold_locales
  fix r n
  assume inv: "range_inv rest inv whole r"
  then have s: "inv (rs_stream r)" by (simp add: range_inv_def)
  show can: "is_canRewind (InputRangeStream_methods V) r"
    using canRewind_ok [OF s] by (simp add: InputRangeStream_canRewind_def)
  show "\<exists>r'. is_read (InputRangeStream_methods V) n r = Some (Inr (take n (range_rest rest r)), r')
      \<and> range_rest rest r' = drop n (range_rest rest r) \<and> range_inv rest inv whole r'" if "n < 2 ^ 63"
    using range_read_ok [OF inv that] by auto
  show "range_whole whole r' = range_whole whole r"
    if "n < 2 ^ 63" "is_read (InputRangeStream_methods V) n r = Some (x, r')" for x r'
    using range_read_ok [OF inv that(1)] that(2) by auto
  show "\<exists>k r'. is_skip (InputRangeStream_methods V) n r = Some (Inr k, r')
      \<and> range_rest rest r' = drop n (range_rest rest r) \<and> range_whole whole r' = range_whole whole r
      \<and> range_inv rest inv whole r'"
    using input_stream.skip_ok [OF range_frame, of r "range_whole whole r" n] inv by auto
  show "is_size (InputRangeStream_methods V) r = Some (Inr (int (length (range_whole whole r))), r)"
    using inv by (auto simp: InputRangeStream_size_def range_whole_def range_inv_def)
  obtain s1 where s1: "is_rewind V (rs_stream r) = Some (Inr (), s1)" "rest s1 = whole (rs_stream r)"
    "whole s1 = whole (rs_stream r)" "inv s1" using rewind_ok [OF s] by blast
  have off: "to_size_t (mOffset r) = nat (mOffset r)" "nat (mOffset r) < 2 ^ 63"
    using inv by (auto simp: range_inv_def)
  obtain k s2 where s2: "is_skip V (nat (mOffset r)) s1 = Some (Inr k, s2)"
    "rest s2 = drop (nat (mOffset r)) (rest s1)" "whole s2 = whole s1" "inv s2"
    using skip_law [OF s1(4) off(2)] by blast
  show "\<exists>r'. is_rewind (InputRangeStream_methods V) r = Some (Inr (), r')
      \<and> range_rest rest r' = range_whole whole r \<and> range_whole whole r' = range_whole whole r
      \<and> range_inv rest inv whole r'"
    using can s1 s2 inv
    by (auto simp: InputRangeStream_rewind_def off range_rest_def range_whole_def range_inv_def)
qed

interpretation mem_range: range_input MemoryInputStream_methods mem_rest mem_inv mStart ..

section \<open>BufferedInputStream\<close>

text \<open>\<open>mBuffered\<close> is the part of \<^verbatim>\<open>mBuffer\<close> not yet delivered: the \<^verbatim>\<open>mBytesInBuffer\<close> bytes at
  \<^verbatim>\<open>mNext\<close>.\<close>

record 's BufferedInputStream =
  bs_stream :: 's
  mBuffered :: bytes

definition BufferedInputStream_new :: "'s \<Rightarrow> 's BufferedInputStream" where
  "BufferedInputStream_new s = \<lparr>bs_stream = s, mBuffered = []\<rparr>"

definition BufferedInputStream_reload :: "(nat \<Rightarrow> ('s, bytes) io) \<Rightarrow> ('s BufferedInputStream, bool) io" where
  "BufferedInputStream_reload rd = (\<lambda>b.
     if mBuffered b = [] then
       (case rd 8192 (bs_stream b) of
          None \<Rightarrow> None
        | Some (Inl e, s') \<Rightarrow> Some (Inl e, b\<lparr>bs_stream := s'\<rparr>)
        | Some (Inr bs, s') \<Rightarrow> Some (Inr (bs \<noteq> []), \<lparr>bs_stream = s', mBuffered = bs\<rparr>))
     else Some (Inr True, b))"

definition BufferedInputStream_readByte :: "(nat \<Rightarrow> ('s, bytes) io) \<Rightarrow> ('s BufferedInputStream, byte) io" where
  "BufferedInputStream_readByte rd =
     bind_io get_io (\<lambda>b0.
       seq_io (if mBuffered b0 = [] then seq_io (BufferedInputStream_reload rd) (return_io ()) else return_io ())
         (\<lambda>b. case mBuffered b of
                [] \<Rightarrow> Some (Inr 0, b)
              | x # xs \<Rightarrow> Some (Inr x, b\<lparr>mBuffered := xs\<rparr>)))"

definition BufferedInputStream_isEof :: "(nat \<Rightarrow> ('s, bytes) io) \<Rightarrow> ('s BufferedInputStream, bool) io" where
  "BufferedInputStream_isEof rd = bind_io (BufferedInputStream_reload rd) (\<lambda>loaded. return_io (\<not> loaded))"

function BufferedInputStream_read_loop ::
    "(nat \<Rightarrow> ('s, bytes) io) \<Rightarrow> nat \<Rightarrow> bytes \<Rightarrow> ('s BufferedInputStream, bytes) io" where
  "BufferedInputStream_read_loop rd sz acc b =
     (if sz \<ge> length (mBuffered b) then
        (case BufferedInputStream_reload rd (b\<lparr>mBuffered := []\<rparr>) of
           None \<Rightarrow> None
         | Some (Inl e, b') \<Rightarrow> Some (Inl e, b')
         | Some (Inr loaded, b') \<Rightarrow>
             if \<not> loaded then Some (Inr (acc @ mBuffered b), b')
             else BufferedInputStream_read_loop rd (sz - length (mBuffered b)) (acc @ mBuffered b) b')
      else Some (Inr (acc @ take sz (mBuffered b)), b\<lparr>mBuffered := drop sz (mBuffered b)\<rparr>))"
  by pat_completeness auto
termination
  by (relation "measures [\<lambda>(rd, sz, acc, b). sz, \<lambda>(rd, sz, acc, b). if mBuffered b = [] then 1 else 0]")
     (auto simp: BufferedInputStream_reload_def intro!: diff_less split: option.splits sum.splits if_splits
       dest: order.strict_trans2 [OF length_greater_0_conv [THEN iffD2]])

declare BufferedInputStream_read_loop.simps [simp del]

definition BufferedInputStream_read ::
    "(nat \<Rightarrow> ('s, bytes) io) \<Rightarrow> nat \<Rightarrow> ('s BufferedInputStream, bytes) io" where
  "BufferedInputStream_read rd sz = BufferedInputStream_read_loop rd sz []"

definition BufferedInputStream_size :: "'s instream \<Rightarrow> ('s BufferedInputStream, int) io" where
  "BufferedInputStream_size V = zoom_io bs_stream (\<lambda>s. bs_stream_update (\<lambda>_. s)) (is_size V)"

definition buf_rest :: "('s \<Rightarrow> bytes) \<Rightarrow> 's BufferedInputStream \<Rightarrow> bytes" where
  "buf_rest rest b = mBuffered b @ rest (bs_stream b)"

definition buf_inv :: "('s \<Rightarrow> bool) \<Rightarrow> 's BufferedInputStream \<Rightarrow> bool" where
  "buf_inv ok b \<longleftrightarrow> ok (bs_stream b)"

locale buffered_input = input_stream
begin

lemma reload_ok:
  assumes "buf_inv inv b"
  shows "\<exists>b'. BufferedInputStream_reload read b = Some (Inr (buf_rest rest b \<noteq> []), b')
     \<and> buf_rest rest b' = buf_rest rest b \<and> buf_inv inv b' \<and> (mBuffered b' = [] \<longleftrightarrow> buf_rest rest b = [])"
proof -
  obtain s' where "read 8192 (bs_stream b) = Some (Inr (take 8192 (rest (bs_stream b))), s')"
    "rest s' = drop 8192 (rest (bs_stream b))" "inv s'"
    using read_ok [of "bs_stream b" 8192] assms by (auto simp: buf_inv_def)
  with assms show ?thesis
    by (auto simp: BufferedInputStream_reload_def buf_rest_def buf_inv_def)
qed

lemma isEof_ok:
  assumes "buf_inv inv b"
  shows "\<exists>b'. BufferedInputStream_isEof read b = Some (Inr (buf_rest rest b = []), b')
     \<and> buf_rest rest b' = buf_rest rest b \<and> buf_inv inv b'"
proof -
  obtain b' where "BufferedInputStream_reload read b = Some (Inr (buf_rest rest b \<noteq> []), b')"
    "buf_rest rest b' = buf_rest rest b" "buf_inv inv b'" using reload_ok [OF assms] by blast
  then show ?thesis by (intro exI [of _ b']) (simp add: BufferedInputStream_isEof_def)
qed

lemma readByte_ok:
  assumes "buf_inv inv b" and "buf_rest rest b = x # xs"
  shows "\<exists>b'. BufferedInputStream_readByte read b = Some (Inr x, b') \<and> buf_rest rest b' = xs \<and> buf_inv inv b'"
proof (cases "mBuffered b")
  case Nil
  obtain b1 where b1: "BufferedInputStream_reload read b = Some (Inr True, b1)"
    "buf_rest rest b1 = x # xs" "buf_inv inv b1" "mBuffered b1 \<noteq> []"
    using reload_ok [OF assms(1)] assms(2) by auto
  then obtain ys where "mBuffered b1 = x # ys" by (cases "mBuffered b1") (auto simp: buf_rest_def)
  with b1 Nil show ?thesis
    by (auto simp: BufferedInputStream_readByte_def buf_rest_def buf_inv_def)
next
  case (Cons y ys)
  with assms show ?thesis
    by (auto simp: BufferedInputStream_readByte_def buf_rest_def buf_inv_def)
qed

lemma buffered_read_loop_ok:
  "buf_inv inv b \<Longrightarrow>
   \<exists>b'. BufferedInputStream_read_loop read sz acc b = Some (Inr (acc @ take sz (buf_rest rest b)), b')
     \<and> buf_rest rest b' = drop sz (buf_rest rest b) \<and> buf_inv inv b'"
proof (induction "2 * sz + (if mBuffered b = [] then 1 else 0)" arbitrary: sz acc b rule: less_induct)
  case less
  show ?case
  proof (cases "length (mBuffered b) \<le> sz")
    case False
    with less.prems show ?thesis
      by (auto simp: BufferedInputStream_read_loop.simps [of read sz acc b] buf_rest_def buf_inv_def)
  next
    case True
    obtain b1 where b1: "BufferedInputStream_reload read (b\<lparr>mBuffered := []\<rparr>) =
        Some (Inr (rest (bs_stream b) \<noteq> []), b1)" "buf_rest rest b1 = rest (bs_stream b)" "buf_inv inv b1"
      "mBuffered b1 = [] \<longleftrightarrow> rest (bs_stream b) = []"
      using reload_ok [of "b\<lparr>mBuffered := []\<rparr>"] less.prems by (auto simp: buf_rest_def buf_inv_def)
    show ?thesis
    proof (cases "rest (bs_stream b) = []")
      case rest: True
      with True b1 show ?thesis
        by (simp add: BufferedInputStream_read_loop.simps [of read sz acc b] buf_rest_def)
    next
      case rest: False
      let ?sz = "sz - length (mBuffered b)" and ?acc = "acc @ mBuffered b"
      have "2 * ?sz + (if mBuffered b1 = [] then 1 else 0) < 2 * sz + (if mBuffered b = [] then 1 else 0)"
        using rest b1(4) True by (cases "mBuffered b") auto
      from less.hyps [OF this b1(3), of ?acc] rest True b1 show ?thesis
        by (auto simp: BufferedInputStream_read_loop.simps [of read sz acc b] buf_rest_def [of rest b])
    qed
  qed
qed

lemma buffered_read_ok:
  "buf_inv inv b \<Longrightarrow> \<exists>b'. BufferedInputStream_read read n b = Some (Inr (take n (buf_rest rest b)), b')
     \<and> buf_rest rest b' = drop n (buf_rest rest b) \<and> buf_inv inv b'"
  using buffered_read_loop_ok [of b n "[]"] by (simp add: BufferedInputStream_read_def)

end

sublocale buffered_input \<subseteq> buffered: input_stream "BufferedInputStream_read read" "buf_rest rest" "buf_inv inv"
  by unfold_locales (rule buffered_read_ok)

interpretation mem_buffered: buffered_input MemoryInputStream_read mem_rest mem_inv
  by unfold_locales (use mem_in.read_ok in simp)

end
