(* ===== verification/Boost_Path.thy ===== *)
theory Boost_Path
  imports Nebula_Prelude
begin

text \<open>
  The part of \<^verbatim>\<open>boost::filesystem::path\<close> (POSIX variant of
  \<^verbatim>\<open>thirdparty/boost/libs/filesystem/src/path.cpp\<close>) the program works with: appending,
  \<^verbatim>\<open>parent_path\<close>, \<^verbatim>\<open>filename\<close>, \<^verbatim>\<open>extension\<close>, \<^verbatim>\<open>relative_path\<close> and \<^verbatim>\<open>lexically_normal\<close>. A path is
  its string; \<^verbatim>\<open>npos\<close> is \<open>None\<close>; an iterator is the pair of its position and its element.
\<close>

section \<open>Separators\<close>

definition is_sep :: "char \<Rightarrow> bool" where
  "is_sep c \<longleftrightarrow> c = CHR ''/''"

definition sep_at :: "string \<Rightarrow> nat \<Rightarrow> bool" where
  "sep_at str i \<longleftrightarrow> i < length str \<and> is_sep (str ! i)"

text \<open>\<^verbatim>\<open>find_first_of(separators, pos)\<close> and the last separator before position \<open>n\<close>.\<close>

definition find_first_sep :: "string \<Rightarrow> nat \<Rightarrow> nat option" where
  "find_first_sep str pos = List.find (sep_at str) [pos..<length str]"

definition find_last_sep :: "string \<Rightarrow> nat \<Rightarrow> nat option" where
  "find_last_sep str n = List.find (sep_at str) (rev [0..<n])"

fun sep_run_start :: "string \<Rightarrow> nat \<Rightarrow> nat" where
  "sep_run_start str 0 = 0"
| "sep_run_start str (Suc pos) = (if sep_at str pos then sep_run_start str pos else Suc pos)"

definition is_root_separator :: "string \<Rightarrow> nat \<Rightarrow> bool" where
  "is_root_separator str pos0 =
     (let pos = sep_run_start str pos0 in
      if pos = 0 then True
      else if pos < 3 \<or> \<not> sep_at str 0 \<or> \<not> sep_at str 1 then False
      else find_first_sep str 2 = Some pos)"

text \<open>\<^verbatim>\<open>find_last_of(separators, end_pos - 1)\<close> searches the whole string when \<open>end_pos\<close> is 0.\<close>

definition filename_pos :: "string \<Rightarrow> nat \<Rightarrow> nat" where
  "filename_pos str end_pos =
     (if end_pos = 2 \<and> sep_at str 0 \<and> sep_at str 1 then 0
      else if 0 < end_pos \<and> sep_at str (end_pos - 1) then end_pos - 1
      else
        (case find_last_sep str (if end_pos = 0 then length str else end_pos) of
           None \<Rightarrow> 0
         | Some pos \<Rightarrow> if pos = 1 \<and> sep_at str 0 then 0 else pos + 1))"

definition root_directory_start :: "string \<Rightarrow> nat \<Rightarrow> nat option" where
  "root_directory_start path sz =
     (if sz = 2 \<and> sep_at path 0 \<and> sep_at path 1 then None
      else if 3 < sz \<and> sep_at path 0 \<and> sep_at path 1 \<and> \<not> sep_at path 2 then
        (case find_first_sep path 2 of None \<Rightarrow> None | Some pos \<Rightarrow> if pos < sz then Some pos else None)
      else if 0 < sz \<and> sep_at path 0 then Some 0
      else None)"

section \<open>Decomposition\<close>

text \<open>The loop that skips the separators before \<open>end_pos\<close>, except the root directory.\<close>

fun skip_seps_back :: "string \<Rightarrow> nat option \<Rightarrow> nat \<Rightarrow> nat" where
  "skip_seps_back str root 0 = 0"
| "skip_seps_back str root (Suc e) =
     (if Some e \<noteq> root \<and> sep_at str e then skip_seps_back str root e else Suc e)"

definition m_parent_path_end :: "string \<Rightarrow> nat option" where
  "m_parent_path_end str =
     (let end_pos = filename_pos str (length str);
          filename_was_separator = (str \<noteq> [] \<and> sep_at str end_pos);
          root_dir_pos = root_directory_start str end_pos;
          end_pos' = skip_seps_back str root_dir_pos end_pos in
      if end_pos' = 1 \<and> root_dir_pos = Some 0 \<and> filename_was_separator then None else Some end_pos')"

definition parent_path :: "string \<Rightarrow> string" where
  "parent_path str = (case m_parent_path_end str of None \<Rightarrow> [] | Some e \<Rightarrow> take e str)"

text \<open>\<^verbatim>\<open>m_pathname.erase(m_parent_path_end())\<close>; erasing from \<^verbatim>\<open>npos\<close> throws \<^verbatim>\<open>std::out_of_range\<close>, which
  \<^verbatim>\<open>lexically_normal\<close> never reaches: it calls \<^verbatim>\<open>remove_filename\<close> on a path whose filename is a name.\<close>

definition remove_filename :: "string \<Rightarrow> string" where
  "remove_filename str = parent_path str"

definition filename :: "string \<Rightarrow> string" where
  "filename str =
     (let pos = filename_pos str (length str) in
      if str \<noteq> [] \<and> 0 < pos \<and> sep_at str pos \<and> \<not> is_root_separator str pos then ''.''
      else drop pos str)"

definition extension :: "string \<Rightarrow> string" where
  "extension str =
     (let name = filename str in
      if name = ''.'' \<or> name = ''..'' then []
      else (case List.find (\<lambda>i. name ! i = CHR ''.'') (rev [0..<length name]) of
              None \<Rightarrow> [] | Some pos \<Rightarrow> drop pos name))"

definition path_append :: "string \<Rightarrow> string \<Rightarrow> string" where
  "path_append str p =
     (if p = [] then str
      else if is_sep (hd p) then str @ p
      else if str \<noteq> [] \<and> \<not> is_sep (last str) then str @ ''/'' @ p
      else str @ p)"

section \<open>Iteration\<close>

definition plain_end :: "string \<Rightarrow> nat \<Rightarrow> nat" where
  "plain_end str pos = (case find_first_sep str pos of None \<Rightarrow> length str | Some e \<Rightarrow> e)"

fun skip_seps :: "string \<Rightarrow> nat \<Rightarrow> nat" where
  "skip_seps [] pos = pos"
| "skip_seps (c # cs) pos = (if is_sep c then skip_seps cs (pos + 1) else pos)"

definition first_element :: "string \<Rightarrow> nat \<times> nat" where
  "first_element src =
     (if src = [] then (0, 0)
      else if sep_at src 0 \<and> sep_at src 1 \<and> (length src = 2 \<or> \<not> sep_at src 2) then
        (0, plain_end src 2)
      else if sep_at src 0 then (skip_seps src 0 - 1, 1)
      else (0, plain_end src 0))"

definition path_begin :: "string \<Rightarrow> nat \<times> string" where
  "path_begin str = (case first_element str of (pos, n) \<Rightarrow> (pos, take n (drop pos str)))"

definition path_increment :: "string \<Rightarrow> nat \<times> string \<Rightarrow> nat \<times> string" where
  "path_increment str it =
     (case it of (pos0, element) \<Rightarrow>
        let pos = pos0 + length element in
        if pos \<ge> length str then (length str, [])
        else
          let was_net = (2 < length element \<and> sep_at element 0 \<and> sep_at element 1 \<and> \<not> sep_at element 2) in
          if sep_at str pos \<and> was_net then (pos, ''/'')
          else
            let pos' = (if sep_at str pos then skip_seps (drop pos str) pos else pos) in
            if sep_at str pos \<and> pos' = length str \<and> \<not> is_root_separator str (pos' - 1) then (pos' - 1, ''.'')
            else (pos', take (plain_end str pos' - pos') (drop pos' str)))"

definition path_last :: "string \<Rightarrow> nat \<times> string" where
  "path_last str =
     (let n = length str in
      if 1 < n \<and> sep_at str (n - 1) \<and> \<not> is_root_separator str (n - 1) then (n - 1, ''.'')
      else
        let end_pos = skip_seps_back str (root_directory_start str n) n;
            pos = filename_pos str end_pos in
        (pos, take (end_pos - pos) (drop pos str)))"

text \<open>The iterators from \<open>it\<close> up to \<^verbatim>\<open>end()\<close>, each of which lies behind the one before it.\<close>

function path_iterators :: "string \<Rightarrow> nat \<times> string \<Rightarrow> (nat \<times> string) list" where
  "path_iterators str it =
     (if fst it \<ge> length str then []
      else it # (if fst it < fst (path_increment str it) then path_iterators str (path_increment str it) else []))"
  by pat_completeness auto
termination
  by (relation "measure (\<lambda>(str, it). length str - fst it)") auto

declare path_iterators.simps [simp del]

definition relative_path :: "string \<Rightarrow> string" where
  "relative_path str =
     (case dropWhile (\<lambda>(pos, e). sep_at e 0) (path_iterators str (path_begin str)) of
        [] \<Rightarrow> []
      | (pos, e) # _ \<Rightarrow> drop pos str)"

text \<open>The loop of \<^verbatim>\<open>lexically_normal\<close>: \<open>start\<close> and \<open>final\<close> are the positions of the first and the
  last element, \<open>lastdot\<close> says that the last element is a dot.\<close>

fun normal_loop :: "nat \<Rightarrow> nat \<Rightarrow> bool \<Rightarrow> (nat \<times> string) list \<Rightarrow> string \<Rightarrow> string" where
  "normal_loop start final lastdot [] temp = temp"
| "normal_loop start final lastdot ((pos, e) # its) temp =
     (if e = ''.'' \<and> pos \<noteq> start \<and> pos \<noteq> final then normal_loop start final lastdot its temp
      else
        let lf = filename temp in
        if temp \<noteq> [] \<and> e = ''..'' \<and> lf \<noteq> [] \<and> lf \<noteq> ''.'' \<and> lf \<noteq> ''/''
           \<and> (length lf \<noteq> 2 \<or> (lf ! 0 \<noteq> CHR ''.'' \<and> lf ! 1 \<noteq> CHR ''.''))
        then
          let temp' = remove_filename temp in
          normal_loop start final lastdot its
            (if temp' = [] \<and> its \<noteq> [] \<and> fst (hd its) = final \<and> lastdot then path_append temp' ''.'' else temp')
        else normal_loop start final lastdot its (path_append temp e))"

definition lexically_normal :: "string \<Rightarrow> string" where
  "lexically_normal str =
     (if str = [] then []
      else
        let temp = normal_loop (fst (path_begin str)) (fst (path_last str)) (snd (path_last str) = ''.'')
                     (path_iterators str (path_begin str)) [] in
        if temp = [] then ''.'' else temp)"

section \<open>Directory and name\<close>

text \<open>A path made of a directory, a separator and a name, with no doubled separator.\<close>

definition plain_name :: "string \<Rightarrow> bool" where
  "plain_name n \<longleftrightarrow> n \<noteq> [] \<and> CHR ''/'' \<notin> set n"

definition plain_dir :: "string \<Rightarrow> bool" where
  "plain_dir d \<longleftrightarrow> d \<noteq> [] \<and> last d \<noteq> CHR ''/'' \<and> \<not> (sep_at d 0 \<and> sep_at d 1)"

lemma sep_at_append: "sep_at (xs @ ys) i \<longleftrightarrow> (if i < length xs then sep_at xs i else sep_at ys (i - length xs))"
  by (auto simp: sep_at_def nth_append)

lemma sep_at_simple [simp]: "plain_name n \<Longrightarrow> \<not> sep_at n i"
  by (metis is_sep_def nth_mem plain_name_def sep_at_def)

lemma sep_at_slash [simp]: "sep_at (CHR ''/'' # xs) 0"
  by (simp add: sep_at_def is_sep_def)

lemma sep_at_Suc [simp]: "sep_at (x # xs) (Suc i) = sep_at xs i"
  by (simp add: sep_at_def)

lemma sep_at_dir: "plain_dir d \<Longrightarrow> \<not> sep_at d (length d - 1)"
  by (auto simp: plain_dir_def sep_at_def is_sep_def last_conv_nth)

lemma find_last_sep_none: "(\<And>i. i < n \<Longrightarrow> \<not> sep_at str i) \<Longrightarrow> find_last_sep str n = None"
  by (auto simp: find_last_sep_def find_None_iff)

lemma find_last_sep_dir:
  "plain_name n \<Longrightarrow> find_last_sep (d @ ''/'' @ n) (length (d @ ''/'' @ n)) = Some (length d)"
proof (induction n rule: rev_induct)
  case Nil
  then show ?case by (simp add: plain_name_def)
next
  case (snoc c n)
  have upt: "rev [0..<Suc k] = k # rev [0..<k]" for k by simp
  have step: "find_last_sep str (Suc k) = (if sep_at str k then Some k else find_last_sep str k)" for str k
    by (simp add: find_last_sep_def upt del: upt_Suc)
  have cut: "find_last_sep (xs @ ys) (length xs) = find_last_sep xs (length xs)" for xs ys
  proof -
    have "List.find (sep_at (xs @ ys)) js = List.find (sep_at xs) js" if "\<forall>j \<in> set js. j < length xs" for js
      using that by (induction js) (auto simp: sep_at_append)
    then show ?thesis by (simp add: find_last_sep_def)
  qed
  let ?p = "d @ ''/'' @ n"
  have c: "\<not> sep_at (?p @ [c]) (length ?p)"
    using snoc.prems by (simp only: sep_at_append) (auto simp: sep_at_def plain_name_def is_sep_def)
  have "find_last_sep (?p @ [c]) (Suc (length ?p)) = find_last_sep ?p (length ?p)"
    using c cut [of ?p "[c]"] by (simp add: step)
  moreover have "find_last_sep ?p (length ?p) = Some (length d)"
  proof (cases "n = []")
    case True
    then show ?thesis using step [of ?p "length d"] by (simp add: sep_at_append)
  next
    case False
    then show ?thesis using snoc by (simp add: plain_name_def)
  qed
  ultimately show ?case by simp
qed

lemma filename_pos_dir:
  assumes "plain_dir d" and "plain_name n"
  shows "filename_pos (d @ ''/'' @ n) (length (d @ ''/'' @ n)) = length d + 1"
proof -
  let ?p = "d @ ''/'' @ n"
  have d0: "length d \<noteq> 0" and n0: "length n \<noteq> 0"
    using assms by (auto simp: plain_dir_def plain_name_def)
  have e: "\<not> sep_at ?p (length ?p - 1)"
  proof -
    obtain k where "length n = Suc k" using n0 by (cases "length n") auto
    then show ?thesis using assms(2) by (simp add: sep_at_append)
  qed
  have two: "\<not> (length d = 1 \<and> sep_at ?p 0)"
    using assms(1) sep_at_dir [OF assms(1)] by (auto simp: sep_at_append)
  have last: "find_last_sep ?p (length ?p) = Some (length d)" by (rule find_last_sep_dir [OF assms(2)])
  have len: "length ?p \<noteq> 2" using d0 n0 by (cases d; cases n) auto
  have "length ?p \<noteq> 0" by simp
  with e two last len show ?thesis unfolding filename_pos_def by (simp split del: if_split) auto
qed

lemma filename_dir: "plain_dir d \<Longrightarrow> plain_name n \<Longrightarrow> filename (d @ ''/'' @ n) = n"
  unfolding filename_def filename_pos_dir by (simp add: Let_def sep_at_append)

lemma parent_path_dir:
  assumes "plain_dir d" and "plain_name n"
  shows "parent_path (d @ ''/'' @ n) = d"
proof -
  let ?p = "d @ ''/'' @ n"
  have d0: "0 < length d" using assms(1) by (simp add: plain_dir_def)
  have "\<not> (sep_at ?p 0 \<and> sep_at ?p 1)"
    using assms(1) sep_at_dir [OF assms(1)] d0 by (auto simp: plain_dir_def sep_at_append split: if_splits)
  then have root: "root_directory_start ?p (length d + 1) \<noteq> Some (length d)"
    using d0 by (auto simp: root_directory_start_def)
  obtain k where k: "length d = Suc k" using d0 by (cases "length d") auto
  have "\<not> sep_at ?p k" using sep_at_dir [OF assms(1)] k by (simp add: sep_at_append)
  then have "skip_seps_back ?p (root_directory_start ?p (length d + 1)) (length d + 1) = length d"
    using root k by (auto simp: sep_at_append)
  moreover have "\<not> sep_at ?p (length d + 1)" using assms(2) by (simp add: sep_at_append)
  ultimately show ?thesis
    unfolding parent_path_def m_parent_path_end_def filename_pos_dir [OF assms] Let_def by simp
qed

text \<open>A bare name has no directory.\<close>

lemma filename_pos_name: "plain_name n \<Longrightarrow> filename_pos n (length n) = 0"
  by (simp add: filename_pos_def find_last_sep_none plain_name_def)

lemma filename_name: "plain_name n \<Longrightarrow> filename n = n"
  by (simp add: filename_def filename_pos_name)

lemma parent_path_name: "plain_name n \<Longrightarrow> parent_path n = []"
  by (simp add: parent_path_def m_parent_path_end_def filename_pos_name Let_def)

end
