(* ===== verification/File_Streams.thy ===== *)
theory File_Streams
  imports Filter_Streams Boost_Path "HOL-Library.AList"
begin

text \<open>
  \<^verbatim>\<open>FileStream\<close> and \<^verbatim>\<open>TempFileStream\<close>, over a model of the file system and of the C library's
  files. The file system maps paths to nodes; a read error can strike at a given offset of a
  file and a file may not be able to grow beyond a limit (a full disk). An open \<^verbatim>\<open>FILE\<close> holds the
  contents of its file; they reach the file system when it is flushed or closed. That a file
  does not change underneath a stream that has it open is an assumption of this model.
\<close>

section \<open>The file system\<close>

datatype fnode = DirNode | RegNode bytes

record filesys =
  fs_nodes :: "(string \<times> fnode) list"
  fs_bad :: "(string \<times> nat) list"
  fs_limit :: "nat option"
  fs_unique :: string

text \<open>\<open>fs_unique\<close> is the name the next call of \<^verbatim>\<open>boost::filesystem::unique_path()\<close> returns.\<close>

definition fs_node :: "filesys \<Rightarrow> string \<Rightarrow> fnode option" where
  "fs_node fs p = map_of (fs_nodes fs) p"

definition fs_write :: "string \<Rightarrow> bytes \<Rightarrow> filesys \<Rightarrow> filesys" where
  "fs_write p d fs = fs\<lparr>fs_nodes := AList.update p (RegNode d) (fs_nodes fs)\<rparr>"

definition fs_remove :: "string \<Rightarrow> filesys \<Rightarrow> filesys" where
  "fs_remove p fs = fs\<lparr>fs_nodes := AList.delete p (fs_nodes fs)\<rparr>"

lemma fs_node_write [simp]: "fs_node (fs_write p d fs) q = (if q = p then Some (RegNode d) else fs_node fs q)"
  by (simp add: fs_node_def fs_write_def update_conv')

lemma fs_node_remove [simp]: "fs_node (fs_remove p fs) q = (if q = p then None else fs_node fs q)"
  by (simp add: fs_node_def fs_remove_def delete_conv')

lemma fs_write_sel [simp]:
  "fs_bad (fs_write p d fs) = fs_bad fs" "fs_limit (fs_write p d fs) = fs_limit fs"
  "fs_unique (fs_write p d fs) = fs_unique fs"
  by (simp_all add: fs_write_def)

lemma fs_remove_sel [simp]:
  "fs_bad (fs_remove p fs) = fs_bad fs" "fs_limit (fs_remove p fs) = fs_limit fs"
  "fs_unique (fs_remove p fs) = fs_unique fs"
  by (simp_all add: fs_remove_def)

section \<open>Files of the C library\<close>

datatype FileMode = FileMode_Read | FileMode_Write | FileMode_ReadWrite

record cfile =
  cf_data :: bytes
  cf_pos :: nat
  cf_mode :: FileMode
  cf_error :: bool
  cf_bad :: "nat option"
  cf_limit :: "nat option"

text \<open>\<^verbatim>\<open>fopen\<close> with modes \<open>rb\<close>, \<open>wb\<close> and \<open>r+b\<close>. A directory can be opened for reading, but reading from it
  fails. Opening for writing creates or truncates the file, whose directory must exist.\<close>

definition fs_can_create :: "filesys \<Rightarrow> string \<Rightarrow> bool" where
  "fs_can_create fs p \<longleftrightarrow> p \<noteq> [] \<and> fs_node fs p \<noteq> Some DirNode \<and>
     (parent_path p = [] \<or> fs_node fs (parent_path p) = Some DirNode)"

definition fopen :: "string \<Rightarrow> FileMode \<Rightarrow> filesys \<Rightarrow> (cfile \<times> filesys) option" where
  "fopen p md fs =
     (case md of
        FileMode_Write \<Rightarrow>
          if fs_can_create fs p then
            Some (\<lparr>cf_data = [], cf_pos = 0, cf_mode = md, cf_error = False,
                   cf_bad = map_of (fs_bad fs) p, cf_limit = fs_limit fs\<rparr>, fs_write p [] fs)
          else None
      | _ \<Rightarrow>
          (case fs_node fs p of
             None \<Rightarrow> None
           | Some (RegNode d) \<Rightarrow>
               Some (\<lparr>cf_data = d, cf_pos = 0, cf_mode = md, cf_error = False,
                      cf_bad = map_of (fs_bad fs) p, cf_limit = fs_limit fs\<rparr>, fs)
           | Some DirNode \<Rightarrow>
               if md = FileMode_Read then
                 Some (\<lparr>cf_data = [], cf_pos = 0, cf_mode = md, cf_error = False,
                        cf_bad = Some 0, cf_limit = None\<rparr>, fs)
               else None))"

definition fread :: "nat \<Rightarrow> cfile \<Rightarrow> bytes \<times> cfile" where
  "fread n f =
     (if cf_mode f = FileMode_Write then ([], f\<lparr>cf_error := True\<rparr>)
      else
        let avail = take n (drop (cf_pos f) (cf_data f)) in
        (case cf_bad f of
           None \<Rightarrow> (avail, f\<lparr>cf_pos := cf_pos f + length avail\<rparr>)
         | Some b \<Rightarrow>
             if 0 < n \<and> b \<le> length (cf_data f) \<and> b < cf_pos f + n then
               let bs = take (b - cf_pos f) avail in
               (bs, f\<lparr>cf_pos := cf_pos f + length bs, cf_error := True\<rparr>)
             else (avail, f\<lparr>cf_pos := cf_pos f + length avail\<rparr>)))"

text \<open>\<^verbatim>\<open>fwrite\<close> returns the number of bytes written; writing behind the end fills the gap with zeros.\<close>

definition fwrite :: "bytes \<Rightarrow> cfile \<Rightarrow> nat \<times> cfile" where
  "fwrite bs f =
     (if cf_mode f = FileMode_Read then (0, f\<lparr>cf_error := True\<rparr>)
      else if bs = [] then (0, f)
      else
        let k = (case cf_limit f of None \<Rightarrow> length bs | Some l \<Rightarrow> min (length bs) (l - cf_pos f));
            d = cf_data f @ replicate (cf_pos f - length (cf_data f)) 0 in
        (k, f\<lparr>cf_data := (if k = 0 then cf_data f else take (cf_pos f) d @ take k bs @ drop (cf_pos f + k) d),
              cf_pos := cf_pos f + k, cf_error := cf_error f \<or> k < length bs\<rparr>))"

definition fseek :: "int \<Rightarrow> cfile \<Rightarrow> bool \<times> cfile" where
  "fseek pos f = (if pos < 0 then (False, f) else (True, f\<lparr>cf_pos := nat pos\<rparr>))"

definition fclose :: "string \<Rightarrow> cfile \<Rightarrow> filesys \<Rightarrow> filesys" where
  "fclose p f fs = (if cf_mode f = FileMode_Read then fs else fs_write p (cf_data f) fs)"

section \<open>FileStream\<close>

text \<open>The object with the file system it works in is the state of \<^verbatim>\<open>open\<close>, \<^verbatim>\<open>flush\<close> and \<^verbatim>\<open>close\<close>; the other
  operations only touch the object. Using the null \<^verbatim>\<open>mFp\<close> of a closed stream is undefined behaviour.\<close>

record FileStream =
  mFp :: "cfile option"
  mPath :: string

definition FileStream_new0 :: FileStream where
  "FileStream_new0 = \<lparr>mFp = None, mPath = []\<rparr>"

definition FileStream_close :: "(FileStream \<times> filesys, unit) io" where
  "FileStream_close = (\<lambda>(s, fs). case mFp s of
       None \<Rightarrow> Some (Inr (), (s, fs))
     | Some f \<Rightarrow> Some (Inr (), (\<lparr>mFp = None, mPath = []\<rparr>, fclose (mPath s) f fs)))"

definition FileStream_open :: "string \<Rightarrow> FileMode \<Rightarrow> (FileStream \<times> filesys, bool) io" where
  "FileStream_open p md = seq_io FileStream_close (\<lambda>(s, fs). case fopen p md fs of
       None \<Rightarrow> Some (Inr False, (s\<lparr>mFp := None\<rparr>, fs))
     | Some (f, fs') \<Rightarrow> Some (Inr True, (\<lparr>mFp = Some f, mPath = p\<rparr>, fs')))"

definition FileStream_new :: "string \<Rightarrow> FileMode \<Rightarrow> filesys \<Rightarrow> (exn + FileStream) \<times> filesys" where
  "FileStream_new p md fs =
     (case FileStream_open p md (FileStream_new0, fs) of
        Some (Inr True, (s, fs')) \<Rightarrow> (Inr s, fs')
      | Some (_, (s, fs')) \<Rightarrow> (Inl FileNotFoundException, fs')
      | None \<Rightarrow> (Inl UndefinedBehaviour, fs))"

definition FileStream_size :: "(FileStream, int) io" where
  "FileStream_size = (\<lambda>s. case mFp s of
       None \<Rightarrow> Some (Inl FilesystemError, s)
     | Some f \<Rightarrow> Some (Inr (int (length (cf_data f))), s))"

definition FileStream_canRewind :: "FileStream \<Rightarrow> bool" where
  "FileStream_canRewind s = True"

definition FileStream_seek :: "int \<Rightarrow> (FileStream, int) io" where
  "FileStream_seek offset = (\<lambda>s. case mFp s of
       None \<Rightarrow> Some (Inl UndefinedBehaviour, s)
     | Some f \<Rightarrow>
         (case fseek offset f of (ok, f') \<Rightarrow>
            if \<not> ok then Some (Inl FileIOException, s\<lparr>mFp := Some f'\<rparr>)
            else Some (Inr (int (cf_pos f')), s\<lparr>mFp := Some f'\<rparr>)))"

definition FileStream_rewind :: "(FileStream, unit) io" where
  "FileStream_rewind = (\<lambda>s. case mFp s of
       None \<Rightarrow> Some (Inl UndefinedBehaviour, s)
     | Some f \<Rightarrow>
         (case fseek 0 f of (ok, f') \<Rightarrow>
            Some (if ok then Inr () else Inl FileIOException, s\<lparr>mFp := Some f'\<rparr>)))"

definition FileStream_read :: "nat \<Rightarrow> (FileStream, bytes) io" where
  "FileStream_read n = (\<lambda>s. case mFp s of
       None \<Rightarrow> Some (Inl UndefinedBehaviour, s)
     | Some f \<Rightarrow>
         (case fread n f of (bs, f') \<Rightarrow>
            if length bs = 0 \<and> cf_error f' then Some (Inl FileIOException, s\<lparr>mFp := Some f'\<rparr>)
            else Some (Inr bs, s\<lparr>mFp := Some f'\<rparr>)))"

definition to_long :: "nat \<Rightarrow> int" where
  "to_long n = (if n mod 2 ^ 64 < 2 ^ 63 then int (n mod 2 ^ 64) else int (n mod 2 ^ 64) - 2 ^ 64)"

definition FileStream_skip :: "nat \<Rightarrow> (FileStream, nat) io" where
  "FileStream_skip n = (\<lambda>s. case mFp s of
       None \<Rightarrow> Some (Inl UndefinedBehaviour, s)
     | Some f \<Rightarrow>
         (case fseek (int (cf_pos f) + to_long n) f of (ok, f') \<Rightarrow>
            if \<not> ok then Some (Inl FileIOException, s\<lparr>mFp := Some f'\<rparr>)
            else Some (Inr (to_size_t (int (cf_pos f') - int (cf_pos f))), s\<lparr>mFp := Some f'\<rparr>)))"

definition FileStream_write :: "bytes \<Rightarrow> (FileStream, unit) io" where
  "FileStream_write bs = (\<lambda>s. case mFp s of
       None \<Rightarrow> Some (Inl UndefinedBehaviour, s)
     | Some f \<Rightarrow>
         (case fwrite bs f of (k, f') \<Rightarrow>
            Some (if k \<noteq> length bs then Inl FileIOException else Inr (), s\<lparr>mFp := Some f'\<rparr>)))"

definition FileStream_flush :: "(FileStream \<times> filesys, unit) io" where
  "FileStream_flush = (\<lambda>(s, fs). case mFp s of
       None \<Rightarrow> Some (Inr (), (s, fs))
     | Some f \<Rightarrow> Some (Inr (), (s, fclose (mPath s) f fs)))"

definition FileStream_methods :: "FileStream instream" where
  "FileStream_methods = (InputStream FileStream_read)
     \<lparr>is_skip := FileStream_skip, is_canRewind := FileStream_canRewind,
      is_rewind := FileStream_rewind, is_size := FileStream_size\<rparr>"

lemma FileStream_sel [simp]:
  "is_read FileStream_methods = FileStream_read" "is_skip FileStream_methods = FileStream_skip"
  "is_canRewind FileStream_methods = FileStream_canRewind"
  "is_rewind FileStream_methods = FileStream_rewind" "is_size FileStream_methods = FileStream_size"
  by (simp_all add: FileStream_methods_def InputStream_def)

text \<open>A stream opened for reading on a file without read errors.\<close>

definition file_inv :: "FileStream \<Rightarrow> bool" where
  "file_inv s \<longleftrightarrow> (case mFp s of None \<Rightarrow> False
     | Some f \<Rightarrow> cf_mode f \<noteq> FileMode_Write \<and> cf_bad f = None \<and> \<not> cf_error f)"

definition file_whole :: "FileStream \<Rightarrow> bytes" where
  "file_whole s = (case mFp s of None \<Rightarrow> [] | Some f \<Rightarrow> cf_data f)"

definition file_rest :: "FileStream \<Rightarrow> bytes" where
  "file_rest s = (case mFp s of None \<Rightarrow> [] | Some f \<Rightarrow> drop (cf_pos f) (cf_data f))"

interpretation file_in: rewindable_stream FileStream_methods file_rest file_inv file_whole
proof unfold_locales
  fix s :: FileStream and n :: nat
  assume inv: "file_inv s"
  then obtain f where f: "mFp s = Some f" "cf_mode f \<noteq> FileMode_Write" "cf_bad f = None" "\<not> cf_error f"
    by (auto simp: file_inv_def split: option.splits)
  show "\<exists>s'. is_read FileStream_methods n s = Some (Inr (take n (file_rest s)), s')
      \<and> file_rest s' = drop n (file_rest s) \<and> file_inv s'"
    using f by (auto simp: FileStream_read_def fread_def file_rest_def file_inv_def add.commute min_def Let_def)
  show "is_canRewind FileStream_methods s" by (simp add: FileStream_canRewind_def)
  show "\<exists>s'. is_rewind FileStream_methods s = Some (Inr (), s') \<and> file_rest s' = file_whole s
      \<and> file_whole s' = file_whole s \<and> file_inv s'"
    using f by (simp add: FileStream_rewind_def fseek_def file_rest_def file_whole_def file_inv_def)
  show "file_whole s' = file_whole s" if "is_read FileStream_methods n s = Some (r, s')" for r s'
    using that f by (auto simp: FileStream_read_def fread_def file_whole_def Let_def)
  show "\<exists>k s'. is_skip FileStream_methods n s = Some (Inr k, s') \<and> file_rest s' = drop n (file_rest s)
      \<and> file_whole s' = file_whole s \<and> file_inv s'" if "n < 2 ^ 63"
    using that f by (auto simp: FileStream_skip_def fseek_def file_rest_def file_whole_def file_inv_def to_long_def
        nat_add_distrib add.commute)
  show "is_size FileStream_methods s = Some (Inr (int (length (file_whole s))), s)"
    using f by (simp add: FileStream_size_def file_whole_def)
qed

end
