(* ===== verification/Temp_Streams.thy ===== *)
theory Temp_Streams
  imports File_Streams
begin

text \<open>
  \<^verbatim>\<open>TempFileStream\<close>: what is written stays in a 4 MiB memory buffer until it outgrows it and is then
  moved to a temporary file. The temporary file has a fresh name, so the part of the file system
  that holds it belongs to the object. \<^verbatim>\<open>inputStream()\<close> returns a memory stream or a file stream:
  the sum type \<open>base_in\<close>.
\<close>

section \<open>Memory or file\<close>

datatype base_in = MemIn MemoryInputStream | FileIn FileStream

definition lift_in :: "('t \<Rightarrow> 's) \<Rightarrow> ('t, 'a) io \<Rightarrow> 't \<Rightarrow> ((exn + 'a) \<times> 's) option" where
  "lift_in C m t = map_option (\<lambda>(r, t'). (r, C t')) (m t)"

lemma lift_in_Some [simp]: "m t = Some (r, t') \<Longrightarrow> lift_in C m t = Some (r, C t')"
  by (simp add: lift_in_def)

lemma lift_in_eq: "lift_in C m t = Some (r, s) \<longleftrightarrow> (\<exists>t'. m t = Some (r, t') \<and> s = C t')"
  by (auto simp: lift_in_def)

definition base_methods :: "base_in instream" where
  "base_methods =
     \<lparr>is_read = (\<lambda>n s. case s of MemIn m \<Rightarrow> lift_in MemIn (is_read MemoryInputStream_methods n) m
                               | FileIn f \<Rightarrow> lift_in FileIn (is_read FileStream_methods n) f),
      is_skip = (\<lambda>n s. case s of MemIn m \<Rightarrow> lift_in MemIn (is_skip MemoryInputStream_methods n) m
                               | FileIn f \<Rightarrow> lift_in FileIn (is_skip FileStream_methods n) f),
      is_close = InputStream_close,
      is_canRewind = (\<lambda>s. case s of MemIn m \<Rightarrow> is_canRewind MemoryInputStream_methods m
                                 | FileIn f \<Rightarrow> is_canRewind FileStream_methods f),
      is_rewind = (\<lambda>s. case s of MemIn m \<Rightarrow> lift_in MemIn (is_rewind MemoryInputStream_methods) m
                               | FileIn f \<Rightarrow> lift_in FileIn (is_rewind FileStream_methods) f),
      is_size = (\<lambda>s. case s of MemIn m \<Rightarrow> lift_in MemIn (is_size MemoryInputStream_methods) m
                             | FileIn f \<Rightarrow> lift_in FileIn (is_size FileStream_methods) f)\<rparr>"

fun base_rest :: "base_in \<Rightarrow> bytes" where
  "base_rest (MemIn m) = mem_rest m"
| "base_rest (FileIn f) = file_rest f"

fun base_inv :: "base_in \<Rightarrow> bool" where
  "base_inv (MemIn m) = mem_inv m"
| "base_inv (FileIn f) = file_inv f"

fun base_whole :: "base_in \<Rightarrow> bytes" where
  "base_whole (MemIn m) = mStart m"
| "base_whole (FileIn f) = file_whole f"

text \<open>A method of the sum meets its contract because both summands do.\<close>

lemma lift_in_ex:
  assumes "\<exists>t'. m t = Some (r, t') \<and> P t'"
  shows "\<exists>s'. lift_in C m t = Some (r, s') \<and> (\<exists>t'. s' = C t' \<and> P t')"
  using assms by (auto simp: lift_in_eq)

interpretation base: rewindable_stream base_methods base_rest base_inv base_whole
proof unfold_locales
  fix s :: base_in and n :: nat
  assume inv: "base_inv s"
  show "\<exists>s'. is_read base_methods n s = Some (Inr (take n (base_rest s)), s')
      \<and> base_rest s' = drop n (base_rest s) \<and> base_inv s'" if "n < 2 ^ 63"
  proof (cases s)
    case (MemIn m)
    with inv that mem_in.read_ok [of m n] show ?thesis by (auto simp: base_methods_def lift_in_def)
  next
    case (FileIn f)
    with inv that file_in.read_ok [of f n] show ?thesis by (auto simp: base_methods_def lift_in_def)
  qed
  show "is_canRewind base_methods s"
    using inv mem_in.canRewind_ok file_in.canRewind_ok by (cases s) (auto simp: base_methods_def)
  show "\<exists>s'. is_rewind base_methods s = Some (Inr (), s') \<and> base_rest s' = base_whole s
      \<and> base_whole s' = base_whole s \<and> base_inv s'"
  proof (cases s)
    case (MemIn m)
    with inv mem_in.rewind_ok [of m] show ?thesis by (auto simp: base_methods_def lift_in_def)
  next
    case (FileIn f)
    with inv file_in.rewind_ok [of f] show ?thesis by (auto simp: base_methods_def lift_in_def)
  qed
  show "base_whole s' = base_whole s" if "n < 2 ^ 63" "is_read base_methods n s = Some (r, s')" for r s'
  proof (cases s)
    case (MemIn m)
    with that(2) obtain m' where "is_read MemoryInputStream_methods n m = Some (r, m')" "s' = MemIn m'"
      by (auto simp: base_methods_def lift_in_eq)
    with inv that(1) mem_in.read_whole [of m n r m'] MemIn show ?thesis by simp
  next
    case (FileIn f)
    with that(2) obtain f' where "is_read FileStream_methods n f = Some (r, f')" "s' = FileIn f'"
      by (auto simp: base_methods_def lift_in_eq)
    with inv that(1) file_in.read_whole [of f n r f'] FileIn show ?thesis by simp
  qed
  show "\<exists>k s'. is_skip base_methods n s = Some (Inr k, s') \<and> base_rest s' = drop n (base_rest s)
      \<and> base_whole s' = base_whole s \<and> base_inv s'" if "n < 2 ^ 63"
  proof (cases s)
    case (MemIn m)
    with inv that mem_in.skip_law [of m n] show ?thesis by (auto simp: base_methods_def lift_in_def)
  next
    case (FileIn f)
    with inv that file_in.skip_law [of f n] show ?thesis by (auto simp: base_methods_def lift_in_def)
  qed
  show "is_size base_methods s = Some (Inr (int (length (base_whole s))), s)"
    using inv mem_in.size_law file_in.size_law by (cases s) (auto simp: base_methods_def lift_in_def)
qed

section \<open>TempFileStream\<close>

record TempFileStream =
  mMemStream :: "MemoryOutputStream option"
  mFileStream :: "FileStream option"
  mTmpFile :: string
  tmp_disk :: filesys

definition TEMP_BUFFER_SIZE :: nat where
  "TEMP_BUFFER_SIZE = 4 * 1024 * 1024"

definition TempFileStream_new :: "filesys \<Rightarrow> TempFileStream" where
  "TempFileStream_new fs =
     \<lparr>mMemStream = Some (MemoryOutputStream_new TEMP_BUFFER_SIZE), mFileStream = None,
      mTmpFile = [], tmp_disk = fs\<rparr>"

text \<open>The move to the temporary file.\<close>

definition TempFileStream_spill :: "MemoryOutputStream \<Rightarrow> (TempFileStream, unit) io" where
  "TempFileStream_spill m = (\<lambda>t.
     let t1 = t\<lparr>mTmpFile := fs_unique (tmp_disk t)\<rparr> in
     (case FileStream_new (mTmpFile t1) FileMode_Write (tmp_disk t1) of
        (Inl e, fs) \<Rightarrow> Some (Inl e, t1\<lparr>tmp_disk := fs\<rparr>)
      | (Inr f, fs) \<Rightarrow>
          (case FileStream_write (mData m) f of
             None \<Rightarrow> None
           | Some (Inl e, f') \<Rightarrow> Some (Inl e, t1\<lparr>mFileStream := Some f', tmp_disk := fs\<rparr>)
           | Some (Inr _, f') \<Rightarrow>
               Some (Inr (), t1\<lparr>mFileStream := Some f', tmp_disk := fs, mMemStream := None\<rparr>))))"

definition TempFileStream_write :: "bytes \<Rightarrow> (TempFileStream, unit) io" where
  "TempFileStream_write bs =
     seq_io
       (\<lambda>t. case mMemStream t of
              None \<Rightarrow> Some (Inr (), t)
            | Some m \<Rightarrow>
                if MemoryOutputStream_size m + length bs > TEMP_BUFFER_SIZE then TempFileStream_spill m t
                else zoom_io (\<lambda>_. m) (\<lambda>m'. mMemStream_update (\<lambda>_. Some m')) (MemoryOutputStream_write bs) t)
       (\<lambda>t. case mFileStream t of
              Some f \<Rightarrow> zoom_io (\<lambda>_. f) (\<lambda>f'. mFileStream_update (\<lambda>_. Some f')) (FileStream_write bs) t
            | None \<Rightarrow> if mMemStream t = None then Some (Inl FileIOException, t) else Some (Inr (), t))"

definition TempFileStream_methods :: "TempFileStream outstream" where
  "TempFileStream_methods = OutputStream TempFileStream_write"

definition TempFileStream_inputStream :: "(TempFileStream, base_in option) io" where
  "TempFileStream_inputStream = (\<lambda>t.
     case mMemStream t of
       Some m \<Rightarrow> Some (Inr (Some (MemIn (MemoryInputStream_new (mData m)))), t)
     | None \<Rightarrow>
         (case mFileStream t of
            None \<Rightarrow> Some (Inr None, t)
          | Some f \<Rightarrow>
              (case FileStream_close (f, tmp_disk t) of
                 None \<Rightarrow> None
               | Some (Inl e, (f', fs)) \<Rightarrow> Some (Inl e, t\<lparr>mFileStream := Some f', tmp_disk := fs\<rparr>)
               | Some (Inr _, (f', fs)) \<Rightarrow>
                   (case FileStream_new (mTmpFile t) FileMode_Read fs of (r, fs') \<Rightarrow>
                      Some (map_sum id (\<lambda>g. Some (FileIn g)) r,
                            t\<lparr>mFileStream := Some f', tmp_disk := fs'\<rparr>)))))"

text \<open>The destructor overwrites the temporary file with random bytes, 4096 at a time, and removes it.
  \<open>rng\<close> is the stream of bytes \<^verbatim>\<open>arc4random_buf\<close> delivers.\<close>

type_synonym rng = "nat \<Rightarrow> byte"

definition arc4random_buf :: "nat \<Rightarrow> rng \<Rightarrow> bytes \<times> rng" where
  "arc4random_buf n r = (map r [0..<n], \<lambda>i. r (i + n))"

lemma arc4random_buf_length [simp]: "length (fst (arc4random_buf n r)) = n"
  by (simp add: arc4random_buf_def)

function shred_loop :: "int \<Rightarrow> cfile \<Rightarrow> rng \<Rightarrow> cfile \<times> rng" where
  "shred_loop len f r =
     (if 0 < len then
        (case arc4random_buf 4096 r of (buf, r') \<Rightarrow>
           shred_loop (len - 4096) (snd (fwrite (take (if 4096 < len then 4096 else nat len) buf) f)) r')
      else (f, r))"
  by pat_completeness auto
termination by (relation "measure (\<lambda>(len, f, r). nat len)") auto

declare shred_loop.simps [simp del]

definition TempFileStream_destroy :: "TempFileStream \<Rightarrow> rng \<Rightarrow> (exn + unit) \<times> filesys \<times> rng" where
  "TempFileStream_destroy t r =
     (case mFileStream t of
        None \<Rightarrow> (Inr (), tmp_disk t, r)
      | Some f0 \<Rightarrow>
          let fs = (case mFp f0 of None \<Rightarrow> tmp_disk t | Some f \<Rightarrow> fclose (mPath f0) f (tmp_disk t)) in
          (case fs_node fs (mTmpFile t) of
             Some (RegNode d) \<Rightarrow>
               (case fopen (mTmpFile t) FileMode_ReadWrite fs of
                  None \<Rightarrow> (Inr (), fs_remove (mTmpFile t) fs, r)
                | Some (f, fs') \<Rightarrow>
                    (case shred_loop (int (length d)) f r of (f', r') \<Rightarrow>
                       (Inr (), fs_remove (mTmpFile t) (fclose (mTmpFile t) f' fs'), r')))
           | _ \<Rightarrow> (Inl FilesystemError, fs, r)))"

section \<open>The contract\<close>

definition limit_ok :: "nat option \<Rightarrow> nat \<Rightarrow> bool" where
  "limit_ok l n \<longleftrightarrow> (case l of None \<Rightarrow> True | Some k \<Rightarrow> n \<le> k)"

definition tmp_written :: "TempFileStream \<Rightarrow> bytes" where
  "tmp_written t = (case mMemStream t of Some m \<Rightarrow> mData m
     | None \<Rightarrow> (case mFileStream t of None \<Rightarrow> [] | Some f \<Rightarrow> file_whole f))"

text \<open>The disk lets the temporary file be created and read back.\<close>

definition disk_ok :: "filesys \<Rightarrow> bool" where
  "disk_ok fs \<longleftrightarrow> fs_can_create fs (fs_unique fs) \<and> map_of (fs_bad fs) (fs_unique fs) = None"

definition tmp_in_memory :: "TempFileStream \<Rightarrow> bool" where
  "tmp_in_memory t \<longleftrightarrow> (\<exists>m. mMemStream t = Some m \<and> mCapacity m = TEMP_BUFFER_SIZE
     \<and> length (mData m) \<le> TEMP_BUFFER_SIZE \<and> mFileStream t = None)"

definition tmp_on_disk :: "TempFileStream \<Rightarrow> bool" where
  "tmp_on_disk t \<longleftrightarrow> mMemStream t = None \<and> (\<exists>f c. mFileStream t = Some f \<and> mFp f = Some c
     \<and> mPath f = mTmpFile t \<and> cf_mode c = FileMode_Write \<and> cf_pos c = length (cf_data c)
     \<and> cf_limit c = fs_limit (tmp_disk t) \<and> map_of (fs_bad (tmp_disk t)) (mTmpFile t) = None)"

definition tmp_room :: "TempFileStream \<Rightarrow> nat \<Rightarrow> bool" where
  "tmp_room t n \<longleftrightarrow>
     (let total = length (tmp_written t) + n in
      tmp_in_memory t \<and> (total \<le> TEMP_BUFFER_SIZE \<or> disk_ok (tmp_disk t) \<and> limit_ok (fs_limit (tmp_disk t)) total)
      \<or> tmp_on_disk t \<and> limit_ok (fs_limit (tmp_disk t)) total)"

lemma limit_ok_mono: "limit_ok l n \<Longrightarrow> m \<le> n \<Longrightarrow> limit_ok l m"
  by (auto simp: limit_ok_def split: option.splits)

lemma fwrite_append:
  assumes "cf_mode f = FileMode_Write" and "cf_pos f = length (cf_data f)"
    and "limit_ok (cf_limit f) (length (cf_data f) + length bs)"
  shows "\<exists>f'. fwrite bs f = (length bs, f') \<and> cf_data f' = cf_data f @ bs \<and> cf_pos f' = length (cf_data f')
     \<and> cf_mode f' = FileMode_Write \<and> cf_limit f' = cf_limit f \<and> cf_bad f' = cf_bad f"
  using assms by (auto simp: fwrite_def limit_ok_def min_def Let_def split: option.splits)

lemma FileStream_write_append:
  assumes "tmp_on_disk t" and "mFileStream t = Some f"
    and "limit_ok (fs_limit (tmp_disk t)) (length (tmp_written t) + length bs)"
  shows "\<exists>f'. FileStream_write bs f = Some (Inr (), f') \<and> tmp_on_disk (t\<lparr>mFileStream := Some f'\<rparr>)
     \<and> tmp_written (t\<lparr>mFileStream := Some f'\<rparr>) = tmp_written t @ bs"
proof -
  obtain c where c: "mFp f = Some c" "cf_mode c = FileMode_Write" "cf_pos c = length (cf_data c)"
    "cf_limit c = fs_limit (tmp_disk t)" "mMemStream t = None" "mPath f = mTmpFile t"
    using assms(1,2) by (auto simp: tmp_on_disk_def)
  then have "tmp_written t = cf_data c" using assms(2) by (simp add: tmp_written_def file_whole_def)
  with fwrite_append [of c bs] c assms show ?thesis
    by (auto simp: FileStream_write_def tmp_on_disk_def tmp_written_def file_whole_def)
qed

lemma TempFileStream_spill_ok:
  assumes "tmp_in_memory t" and "mMemStream t = Some m" and "disk_ok (tmp_disk t)"
    and "limit_ok (fs_limit (tmp_disk t)) (length (tmp_written t))"
  shows "\<exists>t'. TempFileStream_spill m t = Some (Inr (), t') \<and> tmp_on_disk t' \<and> tmp_written t' = tmp_written t
     \<and> fs_limit (tmp_disk t') = fs_limit (tmp_disk t)"
proof -
  define p where "p = fs_unique (tmp_disk t)"
  define c where "c = \<lparr>cf_data = [], cf_pos = 0, cf_mode = FileMode_Write, cf_error = False,
     cf_bad = map_of (fs_bad (tmp_disk t)) p, cf_limit = fs_limit (tmp_disk t)\<rparr>"
  have new: "FileStream_new p FileMode_Write (tmp_disk t) =
      (Inr \<lparr>mFp = Some c, mPath = p\<rparr>, fs_write p [] (tmp_disk t))"
    using assms(3) by (simp add: FileStream_new_def FileStream_open_def FileStream_close_def
        FileStream_new0_def fopen_def disk_ok_def c_def p_def)
  have w: "tmp_written t = mData m" using assms(2) by (simp add: tmp_written_def)
  obtain c' where c': "fwrite (mData m) c = (length (mData m), c')" "cf_data c' = mData m"
    "cf_pos c' = length (cf_data c')" "cf_mode c' = FileMode_Write" "cf_limit c' = fs_limit (tmp_disk t)"
    using fwrite_append [of c "mData m"] assms(4) w by (auto simp: c_def)
  have "TempFileStream_spill m t = Some (Inr (), t\<lparr>mTmpFile := p,
      mFileStream := Some \<lparr>mFp = Some c', mPath = p\<rparr>, tmp_disk := fs_write p [] (tmp_disk t), mMemStream := None\<rparr>)"
    by (simp add: TempFileStream_spill_def p_def [symmetric] new FileStream_write_def c')
  then show ?thesis
    using c' assms(3) w by (simp add: tmp_on_disk_def tmp_written_def file_whole_def disk_ok_def p_def)
qed

lemma tmp_write_memory:
  assumes "tmp_in_memory t" and "length (tmp_written t) + length bs \<le> TEMP_BUFFER_SIZE"
  shows "\<exists>t'. TempFileStream_write bs t = Some (Inr (), t') \<and> tmp_written t' = tmp_written t @ bs
     \<and> tmp_in_memory t' \<and> tmp_disk t' = tmp_disk t"
proof -
  obtain m where m: "mMemStream t = Some m" "mCapacity m = TEMP_BUFFER_SIZE" "mFileStream t = None"
    using assms(1) by (auto simp: tmp_in_memory_def)
  with assms(2) have "MemoryOutputStream_write bs m = Some (Inr (), m\<lparr>mData := mData m @ bs\<rparr>)"
    by (simp add: MemoryOutputStream_write_def tmp_written_def)
  with m assms(2) show ?thesis
    by (auto simp: TempFileStream_write_def MemoryOutputStream_size_def tmp_written_def tmp_in_memory_def zoom_io_def)
qed

lemma tmp_write_disk:
  assumes "tmp_on_disk t" and "limit_ok (fs_limit (tmp_disk t)) (length (tmp_written t) + length bs)"
  shows "\<exists>t'. TempFileStream_write bs t = Some (Inr (), t') \<and> tmp_written t' = tmp_written t @ bs
     \<and> tmp_on_disk t' \<and> tmp_disk t' = tmp_disk t"
proof -
  obtain f where f: "mMemStream t = None" "mFileStream t = Some f" using assms(1) by (auto simp: tmp_on_disk_def)
  from FileStream_write_append [OF assms(1) f(2) assms(2)] f show ?thesis
    by (auto simp: TempFileStream_write_def)
qed

lemma tmp_write_spill:
  assumes "tmp_in_memory t" and "length (tmp_written t) + length bs > TEMP_BUFFER_SIZE"
    and "disk_ok (tmp_disk t)" and "limit_ok (fs_limit (tmp_disk t)) (length (tmp_written t) + length bs)"
  shows "\<exists>t'. TempFileStream_write bs t = Some (Inr (), t') \<and> tmp_written t' = tmp_written t @ bs
     \<and> tmp_on_disk t' \<and> fs_limit (tmp_disk t') = fs_limit (tmp_disk t)"
proof -
  obtain m where m: "mMemStream t = Some m" using assms(1) by (auto simp: tmp_in_memory_def)
  have "limit_ok (fs_limit (tmp_disk t)) (length (tmp_written t))"
    using assms(4) by (rule limit_ok_mono) simp
  then obtain t1 where t1: "TempFileStream_spill m t = Some (Inr (), t1)" "tmp_on_disk t1"
    "tmp_written t1 = tmp_written t" "fs_limit (tmp_disk t1) = fs_limit (tmp_disk t)"
    using TempFileStream_spill_ok [OF assms(1) m assms(3)] by blast
  have "limit_ok (fs_limit (tmp_disk t1)) (length (tmp_written t1) + length bs)"
    using assms(4) t1 by simp
  then obtain t2 where t2: "TempFileStream_write bs t1 = Some (Inr (), t2)" "tmp_written t2 = tmp_written t1 @ bs"
    "tmp_on_disk t2" "tmp_disk t2 = tmp_disk t1" using tmp_write_disk [OF t1(2)] by blast
  have "mMemStream t1 = None" using t1(2) by (simp add: tmp_on_disk_def)
  with t1 t2 m assms(2) have "TempFileStream_write bs t = Some (Inr (), t2)"
    by (simp add: TempFileStream_write_def MemoryOutputStream_size_def tmp_written_def)
  with t1 t2 show ?thesis by simp
qed

interpretation tmp_out: output_stream TempFileStream_write tmp_written tmp_room
proof unfold_locales
  fix t and bs :: bytes
  assume room: "tmp_room t (length bs)"
  consider "tmp_in_memory t" "length (tmp_written t) + length bs \<le> TEMP_BUFFER_SIZE"
    | "tmp_in_memory t" "length (tmp_written t) + length bs > TEMP_BUFFER_SIZE" "disk_ok (tmp_disk t)"
      "limit_ok (fs_limit (tmp_disk t)) (length (tmp_written t) + length bs)"
    | "tmp_on_disk t" "limit_ok (fs_limit (tmp_disk t)) (length (tmp_written t) + length bs)"
    using room unfolding tmp_room_def Let_def by (meson not_le)
  then show "\<exists>t'. TempFileStream_write bs t = Some (Inr (), t') \<and> tmp_written t' = tmp_written t @ bs
      \<and> (\<forall>k. tmp_room t (length bs + k) \<longrightarrow> tmp_room t' k)"
  proof cases
    case 1
    from tmp_write_memory [OF 1] 1 show ?thesis
      by (auto simp: tmp_room_def Let_def add.assoc tmp_in_memory_def tmp_on_disk_def)
  next
    case 2
    from tmp_write_spill [OF 2] 2 show ?thesis
      by (auto simp: tmp_room_def Let_def add.assoc tmp_in_memory_def tmp_on_disk_def)
  next
    case 3
    from tmp_write_disk [OF 3] 3 show ?thesis
      by (auto simp: tmp_room_def Let_def add.assoc tmp_in_memory_def tmp_on_disk_def)
  qed
next
  fix t n m
  assume "tmp_room t n" and "m \<le> (n :: nat)"
  then show "tmp_room t m"
    using limit_ok_mono [of "fs_limit (tmp_disk t)" "length (tmp_written t) + n" "length (tmp_written t) + m"]
    by (auto simp: tmp_room_def Let_def)
qed

lemma tmp_room_new: "n \<le> TEMP_BUFFER_SIZE \<or> disk_ok fs \<and> limit_ok (fs_limit fs) n \<Longrightarrow> tmp_room (TempFileStream_new fs) n"
  by (auto simp: tmp_room_def TempFileStream_new_def MemoryOutputStream_new_def tmp_in_memory_def tmp_written_def)

lemma tmp_written_new [simp]: "tmp_written (TempFileStream_new fs) = []"
  by (simp add: TempFileStream_new_def tmp_written_def MemoryOutputStream_new_def)

lemma inputStream_ok:
  assumes "tmp_room t n"
  shows "\<exists>s t'. TempFileStream_inputStream t = Some (Inr (Some s), t') \<and> base_inv s
     \<and> base_rest s = tmp_written t \<and> base_whole s = tmp_written t"
proof (cases "tmp_in_memory t")
  case True
  then show ?thesis by (auto simp: tmp_in_memory_def TempFileStream_inputStream_def tmp_written_def)
next
  case False
  then have "tmp_on_disk t" using assms by (simp add: tmp_room_def Let_def)
  then show ?thesis
    by (auto simp: tmp_on_disk_def TempFileStream_inputStream_def tmp_written_def FileStream_close_def fclose_def
        FileStream_new_def FileStream_open_def FileStream_new0_def fopen_def file_whole_def file_rest_def file_inv_def)
qed

end
