(* ===== verification/Crypto_Streams.thy ===== *)
theory Crypto_Streams
  imports Temp_Streams Environment
begin

text \<open>
  \<^verbatim>\<open>EncryptedOutputStream\<close> and \<^verbatim>\<open>DecryptedInputStream\<close>: the initialisation vector in front, then the
  AES-256-CBC ciphertext. The cipher calls are those of the environment \<open>E\<close>; \<^verbatim>\<open>EVP_CIPHER_CTX_new\<close>
  is taken not to run out of memory.
\<close>

section \<open>EncryptedOutputStream\<close>

record ('e, 'o) EncryptedOutputStream =
  eo_ctx :: 'e
  eo_stream :: 'o

text \<open>The constructor works on the stream below and the random generator and yields the cipher context.
  AES-256 takes the first 32 bytes of the key.\<close>

definition EncryptedOutputStream_new ::
    "('e, 'd, 'h, 'm, 'l, 'z) env \<Rightarrow> 'o outstream \<Rightarrow> bytes \<Rightarrow> ('o \<times> rng, 'e) io" where
  "EncryptedOutputStream_new E W key = (\<lambda>(t, r).
     case arc4random_buf EVP_MAX_IV_LENGTH r of (iv, r') \<Rightarrow>
       (case EVP_EncryptInit_ex E (take 32 key) iv of
          None \<Rightarrow> Some (Inl EncryptionFailedException, (t, r'))
        | Some c \<Rightarrow>
            (case os_write W iv t of
               None \<Rightarrow> None
             | Some (x, t') \<Rightarrow> Some (map_sum id (\<lambda>_. c) x, (t', r')))))"

definition enc_block ::
    "('e, 'd, 'h, 'm, 'l, 'z) env \<Rightarrow> 'o outstream \<Rightarrow> bytes \<Rightarrow> (('e, 'o) EncryptedOutputStream, unit) io" where
  "enc_block E W buf = (\<lambda>s.
     case EVP_EncryptUpdate E (eo_ctx s) buf of
       None \<Rightarrow> Some (Inl EncryptionFailedException, s)
     | Some (out, c) \<Rightarrow>
         zoom_io eo_stream (\<lambda>t. eo_stream_update (\<lambda>_. t)) (os_write W out) (s\<lparr>eo_ctx := c\<rparr>))"

text \<open>The loop hands the data to the cipher in buffers of 4096 bytes.\<close>

definition EncryptedOutputStream_write ::
    "('e, 'd, 'h, 'm, 'l, 'z) env \<Rightarrow> 'o outstream \<Rightarrow> bytes \<Rightarrow> (('e, 'o) EncryptedOutputStream, unit) io" where
  "EncryptedOutputStream_write E W bs = feed (enc_block E W) (chunks 4096 bs)"

definition EncryptedOutputStream_flush ::
    "'o outstream \<Rightarrow> (('e, 'o) EncryptedOutputStream, unit) io" where
  "EncryptedOutputStream_flush W = zoom_io eo_stream (\<lambda>t. eo_stream_update (\<lambda>_. t)) (os_flush W)"

definition EncryptedOutputStream_close ::
    "('e, 'd, 'h, 'm, 'l, 'z) env \<Rightarrow> 'o outstream \<Rightarrow> (('e, 'o) EncryptedOutputStream, unit) io" where
  "EncryptedOutputStream_close E W = (\<lambda>s.
     case EVP_EncryptFinal_ex E (eo_ctx s) of
       None \<Rightarrow> Some (Inl EncryptionFailedException, s)
     | Some (pad, c) \<Rightarrow>
         zoom_io eo_stream (\<lambda>t. eo_stream_update (\<lambda>_. t)) (seq_io (os_write W pad) (os_flush W)) (s\<lparr>eo_ctx := c\<rparr>))"

definition EncryptedOutputStream_methods ::
    "('e, 'd, 'h, 'm, 'l, 'z) env \<Rightarrow> 'o outstream \<Rightarrow> ('e, 'o) EncryptedOutputStream outstream" where
  "EncryptedOutputStream_methods E W =
     \<lparr>os_write = EncryptedOutputStream_write E W, os_flush = EncryptedOutputStream_flush W,
      os_close = EncryptedOutputStream_close E W\<rparr>"

lemma enc_updates_append:
  "enc_updates E c (xs @ ys) =
     Option.bind (enc_updates E c xs) (\<lambda>(o1, c1). map_option (\<lambda>(o2, c2). (o1 @ o2, c2)) (enc_updates E c1 ys))"
proof (induction xs arbitrary: c)
  case Nil
  then show ?case by (cases "enc_updates E c ys") auto
next
  case (Cons x xs)
  show ?case
  proof (cases "EVP_EncryptUpdate E c x")
    case (Some oc)
    then show ?thesis
      by (cases oc; cases "enc_updates E (snd oc) xs")
         (auto simp: Cons option.map_comp comp_def split_def)
  qed simp
qed

text \<open>Over a stream below that has room, the writes put out what the cipher emits.\<close>

locale encrypted_output = output_stream "os_write W" written room
  for W :: "'o outstream" and written room +
  fixes E :: "('e, 'd, 'h, 'm, 'l, 'z) env"
begin

lemma feed_enc_block_ok:
  "enc_updates E (eo_ctx s) xs = Some (out, c) \<Longrightarrow> room (eo_stream s) (length out + k) \<Longrightarrow>
   \<exists>s'. feed (enc_block E W) xs s = Some (Inr (), s') \<and> eo_ctx s' = c
      \<and> written (eo_stream s') = written (eo_stream s) @ out \<and> room (eo_stream s') k"
proof (induction xs arbitrary: s out)
  case (Cons x xs)
  from Cons.prems(1) obtain o1 c1 o2 where upd: "EVP_EncryptUpdate E (eo_ctx s) x = Some (o1, c1)"
    "enc_updates E c1 xs = Some (o2, c)" "out = o1 @ o2"
    by (auto split: option.splits)
  have "room (eo_stream s) (length o1)" using Cons.prems(2) upd(3) by (auto intro: room_mono)
  then obtain t1 where t1: "os_write W o1 (eo_stream s) = Some (Inr (), t1)"
    "written t1 = written (eo_stream s) @ o1" "\<And>j. room (eo_stream s) (length o1 + j) \<Longrightarrow> room t1 j"
    using write_ok by blast
  have "room t1 (length o2 + k)" using Cons.prems(2) upd(3) by (intro t1(3)) (simp add: add.assoc)
  then obtain s' where "feed (enc_block E W) xs \<lparr>eo_ctx = c1, eo_stream = t1\<rparr> = Some (Inr (), s')"
    "eo_ctx s' = c" "written (eo_stream s') = written t1 @ o2" "room (eo_stream s') k"
    using Cons.IH [of "\<lparr>eo_ctx = c1, eo_stream = t1\<rparr>" o2] upd(2) by auto
  moreover have "enc_block E W x s = Some (Inr (), \<lparr>eo_ctx = c1, eo_stream = t1\<rparr>)"
    using upd(1) t1(1) by (simp add: enc_block_def)
  ultimately show ?case using t1(2) upd(3) by simp
qed simp

lemma feed_enc_write_ok:
  "enc_updates E (eo_ctx s) (concat (map (chunks 4096) xs)) = Some (out, c) \<Longrightarrow>
   room (eo_stream s) (length out + k) \<Longrightarrow>
   \<exists>s'. feed (EncryptedOutputStream_write E W) xs s = Some (Inr (), s') \<and> eo_ctx s' = c
      \<and> written (eo_stream s') = written (eo_stream s) @ out \<and> room (eo_stream s') k"
proof (induction xs arbitrary: s out)
  case (Cons x xs)
  from Cons.prems(1) obtain o1 c1 o2 where upd: "enc_updates E (eo_ctx s) (chunks 4096 x) = Some (o1, c1)"
    "enc_updates E c1 (concat (map (chunks 4096) xs)) = Some (o2, c)" "out = o1 @ o2"
    by (auto simp: enc_updates_append bind_eq_Some_conv)
  obtain s1 where s1: "feed (enc_block E W) (chunks 4096 x) s = Some (Inr (), s1)" "eo_ctx s1 = c1"
    "written (eo_stream s1) = written (eo_stream s) @ o1" "room (eo_stream s1) (length o2 + k)"
    using feed_enc_block_ok [OF upd(1), of "length o2 + k"] Cons.prems(2) upd(3) by (auto simp: add.assoc)
  from Cons.IH [of s1 o2] upd(2) s1(2,4) obtain s' where
    "feed (EncryptedOutputStream_write E W) xs s1 = Some (Inr (), s')"
    "eo_ctx s' = c" "written (eo_stream s') = written (eo_stream s1) @ o2" "room (eo_stream s') k" by auto
  moreover have "EncryptedOutputStream_write E W x s = Some (Inr (), s1)"
    using s1(1) by (simp add: EncryptedOutputStream_write_def)
  ultimately show ?case using s1(3) upd(3) by simp
qed simp

lemma enc_close_ok:
  assumes "EVP_EncryptFinal_ex E (eo_ctx s) = Some (pad, c)" and "room (eo_stream s) (length pad + k)"
    and "os_flush W = OutputStream_flush"
  shows "\<exists>s'. EncryptedOutputStream_close E W s = Some (Inr (), s')
      \<and> written (eo_stream s') = written (eo_stream s) @ pad \<and> room (eo_stream s') k"
proof -
  have "room (eo_stream s) (length pad)" using assms(2) by (rule room_mono) simp
  then obtain t1 where "os_write W pad (eo_stream s) = Some (Inr (), t1)"
    "written t1 = written (eo_stream s) @ pad" "\<And>j. room (eo_stream s) (length pad + j) \<Longrightarrow> room t1 j"
    using write_ok by blast
  with assms show ?thesis
    by (simp add: EncryptedOutputStream_close_def OutputStream_flush_def)
qed

lemma enc_new_ok:
  assumes "EVP_EncryptInit_ex E (take 32 key) (fst (arc4random_buf 16 r)) = Some c" and "room t (16 + k)"
  shows "\<exists>t'. EncryptedOutputStream_new E W key (t, r) = Some (Inr c, (t', snd (arc4random_buf 16 r)))
      \<and> written t' = written t @ fst (arc4random_buf 16 r) \<and> room t' k"
proof -
  have "room t (length (fst (arc4random_buf 16 r)))" using assms(2) by (auto intro: room_mono)
  then obtain t1 where "os_write W (fst (arc4random_buf 16 r)) t = Some (Inr (), t1)"
    "written t1 = written t @ fst (arc4random_buf 16 r)"
    "\<And>j. room t (length (fst (arc4random_buf 16 r)) + j) \<Longrightarrow> room t1 j"
    using write_ok by blast
  with assms show ?thesis
    by (simp add: EncryptedOutputStream_new_def EVP_MAX_IV_LENGTH_def split_def)
qed

end

section \<open>DecryptedInputStream\<close>

text \<open>\<open>di_buffer\<close> holds the \<^verbatim>\<open>mBytesInBuffer\<close> bytes at \<^verbatim>\<open>mBufferPtr\<close>.\<close>

record ('d, 's) DecryptedInputStream =
  di_ctx :: 'd
  di_stream :: 's
  di_buffer :: bytes
  di_done :: bool

definition DecryptedInputStream_new ::
    "('e, 'd, 'h, 'm, 'l, 'z) env \<Rightarrow> (nat \<Rightarrow> ('s, bytes) io) \<Rightarrow> bytes \<Rightarrow> ('s, 'd) io" where
  "DecryptedInputStream_new E rd key =
     bind_io (rd EVP_MAX_IV_LENGTH) (\<lambda>iv.
       if length iv \<noteq> EVP_MAX_IV_LENGTH then throw_io EncryptionFailedException
       else lift_option EncryptionFailedException (EVP_DecryptInit_ex E (take 32 key) iv))"

partial_function (option) DecryptedInputStream_read_loop ::
    "('e, 'd, 'h, 'm, 'l, 'z) env \<Rightarrow> (nat \<Rightarrow> ('s, bytes) io) \<Rightarrow> nat \<Rightarrow> bytes \<Rightarrow>
     (('d, 's) DecryptedInputStream, bytes) io" where
  "DecryptedInputStream_read_loop E rd sz acc s =
     (if length (di_buffer s) < sz then
        let sz' = sz - length (di_buffer s);
            acc' = acc @ di_buffer s;
            s0 = s\<lparr>di_buffer := []\<rparr> in
        (case rd 4096 (di_stream s0) of
           None \<Rightarrow> None
         | Some (Inl e, t) \<Rightarrow> Some (Inl e, s0\<lparr>di_stream := t\<rparr>)
         | Some (Inr buf, t) \<Rightarrow>
             let s1 = s0\<lparr>di_stream := t\<rparr> in
             if length buf = 0 then
               if \<not> di_done s1 then
                 (case EVP_DecryptFinal_ex E (di_ctx s1) of
                    None \<Rightarrow> Some (Inl EncryptionFailedException, s1)
                  | Some (out, c) \<Rightarrow>
                      DecryptedInputStream_read_loop E rd sz' acc' (s1\<lparr>di_ctx := c, di_buffer := out, di_done := True\<rparr>))
               else Some (Inr acc', s1)
             else
               (case EVP_DecryptUpdate E (di_ctx s1) buf of
                  None \<Rightarrow> Some (Inl EncryptionFailedException, s1)
                | Some (out, c) \<Rightarrow>
                    DecryptedInputStream_read_loop E rd sz' acc' (s1\<lparr>di_ctx := c, di_buffer := out\<rparr>)))
      else Some (Inr (acc @ take sz (di_buffer s)), s\<lparr>di_buffer := drop sz (di_buffer s)\<rparr>))"

definition DecryptedInputStream_read ::
    "('e, 'd, 'h, 'm, 'l, 'z) env \<Rightarrow> (nat \<Rightarrow> ('s, bytes) io) \<Rightarrow> nat \<Rightarrow> (('d, 's) DecryptedInputStream, bytes) io" where
  "DecryptedInputStream_read E rd sz = DecryptedInputStream_read_loop E rd sz []"

text \<open>What the decryption of the given pieces still delivers.\<close>

definition dec_run :: "('e, 'd, 'h, 'm, 'l, 'z) env \<Rightarrow> 'd \<Rightarrow> bytes list \<Rightarrow> bytes option" where
  "dec_run E c xs = (case dec_updates E c xs of None \<Rightarrow> None
     | Some (out, c') \<Rightarrow> map_option (\<lambda>(fin, _). out @ fin) (EVP_DecryptFinal_ex E c'))"

definition dec_rest ::
    "('e, 'd, 'h, 'm, 'l, 'z) env \<Rightarrow> ('s \<Rightarrow> bytes) \<Rightarrow> ('d, 's) DecryptedInputStream \<Rightarrow> bytes" where
  "dec_rest E rest s = di_buffer s @
     (if di_done s then [] else the (dec_run E (di_ctx s) (chunks 4096 (rest (di_stream s)))))"

definition dec_inv ::
    "('e, 'd, 'h, 'm, 'l, 'z) env \<Rightarrow> ('s \<Rightarrow> bytes) \<Rightarrow> ('s \<Rightarrow> bool) \<Rightarrow> ('d, 's) DecryptedInputStream \<Rightarrow> bool" where
  "dec_inv E rest ok s \<longleftrightarrow> ok (di_stream s) \<and>
     (if di_done s then rest (di_stream s) = []
      else dec_run E (di_ctx s) (chunks 4096 (rest (di_stream s))) \<noteq> None)"

lemma dec_run_Nil: "dec_run E c [] = map_option fst (EVP_DecryptFinal_ex E c)"
  by (auto simp: dec_run_def split_def comp_def option.map_comp intro!: option.map_cong)

lemma dec_run_Cons:
  "dec_run E c (x # xs) = Option.bind (EVP_DecryptUpdate E c x) (\<lambda>(out, c'). map_option ((@) out) (dec_run E c' xs))"
  by (auto simp: dec_run_def option.map_comp comp_def split_def split: option.splits)

locale decrypted_input = input_stream read rest inv
  for read :: "nat \<Rightarrow> ('s, bytes) io" and rest inv +
  fixes E :: "('e, 'd, 'h, 'm, 'l, 'z) env"
begin

lemma dec_read_loop_ok:
  "dec_inv E rest inv s \<Longrightarrow>
   \<exists>s'. DecryptedInputStream_read_loop E read sz acc s = Some (Inr (acc @ take sz (dec_rest E rest s)), s')
      \<and> dec_rest E rest s' = drop sz (dec_rest E rest s) \<and> dec_inv E rest inv s'"
proof (induction "2 * length (rest (di_stream s)) + (if di_done s then 0 else 1)" arbitrary: sz acc s rule: less_induct)
  case less
  note loop = DecryptedInputStream_read_loop.simps [of E read sz acc s]
  show ?case
  proof (cases "length (di_buffer s) < sz")
    case False
    with less.prems show ?thesis by (simp add: loop dec_rest_def dec_inv_def)
  next
    case True
    have inv: "inv (di_stream s)" using less.prems by (simp add: dec_inv_def)
    obtain t where t: "read 4096 (di_stream s) = Some (Inr (take 4096 (rest (di_stream s))), t)"
      "rest t = drop 4096 (rest (di_stream s))" "inv t" using read_ok [OF inv, of 4096] by auto
    define s1 where "s1 = s\<lparr>di_buffer := [], di_stream := t\<rparr>"
    consider "rest (di_stream s) = []" "di_done s" | "rest (di_stream s) = []" "\<not> di_done s"
      | "rest (di_stream s) \<noteq> []" by blast
    then show ?thesis
    proof cases
      case 1
      with True t show ?thesis by (simp add: loop Let_def dec_rest_def dec_inv_def)
    next
      case 2
      then obtain fin c where fin: "EVP_DecryptFinal_ex E (di_ctx s) = Some (fin, c)"
        using less.prems by (auto simp: dec_inv_def dec_run_Nil)
      define s2 where "s2 = s1\<lparr>di_ctx := c, di_buffer := fin, di_done := True\<rparr>"
      have "DecryptedInputStream_read_loop E read sz acc s =
          DecryptedInputStream_read_loop E read (sz - length (di_buffer s)) (acc @ di_buffer s) s2"
        using True t 2 fin by (simp add: loop Let_def s2_def s1_def)
      moreover have "dec_inv E rest inv s2" "dec_rest E rest s = di_buffer s @ fin" "dec_rest E rest s2 = fin"
        using t 2 fin by (simp_all add: dec_inv_def dec_rest_def s2_def s1_def dec_run_Nil)
      moreover have "2 * length (rest (di_stream s2)) + (if di_done s2 then 0 else 1)
          < 2 * length (rest (di_stream s)) + (if di_done s then 0 else 1)"
        using 2 t by (simp add: s2_def s1_def)
      ultimately show ?thesis
        using less.hyps [of s2 "sz - length (di_buffer s)" "acc @ di_buffer s"] True by simp
    next
      case 3
      then have nd: "\<not> di_done s" and ch: "chunks 4096 (rest (di_stream s)) = take 4096 (rest (di_stream s)) # chunks 4096 (rest t)"
        using less.prems by (auto simp: dec_inv_def chunks_step t(2) split: if_splits)
      then obtain out c p where out: "EVP_DecryptUpdate E (di_ctx s) (take 4096 (rest (di_stream s))) = Some (out, c)"
        "dec_run E c (chunks 4096 (rest t)) = Some p"
        using less.prems by (auto simp: dec_inv_def dec_run_Cons bind_eq_Some_conv split: if_splits)
      define s2 where "s2 = s1\<lparr>di_ctx := c, di_buffer := out\<rparr>"
      have "DecryptedInputStream_read_loop E read sz acc s =
          DecryptedInputStream_read_loop E read (sz - length (di_buffer s)) (acc @ di_buffer s) s2"
        using True t 3 out by (simp add: loop Let_def s2_def s1_def)
      moreover have "dec_inv E rest inv s2" "dec_rest E rest s = di_buffer s @ out @ p" "dec_rest E rest s2 = out @ p"
        using t out nd ch by (simp_all add: dec_inv_def dec_rest_def s2_def s1_def dec_run_Cons)
      moreover have "2 * length (rest (di_stream s2)) + (if di_done s2 then 0 else 1)
          < 2 * length (rest (di_stream s)) + (if di_done s then 0 else 1)"
        using 3 nd t by (auto simp: s2_def s1_def)
      ultimately show ?thesis
        using less.hyps [of s2 "sz - length (di_buffer s)" "acc @ di_buffer s"] True by simp
    qed
  qed
qed

lemma dec_read_ok:
  "dec_inv E rest inv s \<Longrightarrow>
   \<exists>s'. DecryptedInputStream_read E read n s = Some (Inr (take n (dec_rest E rest s)), s')
      \<and> dec_rest E rest s' = drop n (dec_rest E rest s) \<and> dec_inv E rest inv s'"
  using dec_read_loop_ok [of s n "[]"] by (simp add: DecryptedInputStream_read_def)

text \<open>Opening the stream on an initialisation vector and a ciphertext that decrypts to \<open>x\<close>.\<close>

lemma dec_new_ok:
  assumes "inv s" and "rest s = iv @ ct" and "length iv = 16"
    and "evp_decrypt E (take 32 key) iv (chunks 4096 ct) = Some x"
  shows "\<exists>c s'. DecryptedInputStream_new E read key s = Some (Inr c, s')
     \<and> dec_inv E rest inv \<lparr>di_ctx = c, di_stream = s', di_buffer = [], di_done = False\<rparr>
     \<and> dec_rest E rest \<lparr>di_ctx = c, di_stream = s', di_buffer = [], di_done = False\<rparr> = x"
proof -
  obtain s' where s': "read 16 s = Some (Inr iv, s')" "rest s' = ct" "inv s'"
    using read_ok [OF assms(1), of 16] assms(2,3) by auto
  obtain c where c: "EVP_DecryptInit_ex E (take 32 key) iv = Some c" "dec_run E c (chunks 4096 ct) = Some x"
    using assms(4) by (auto simp: evp_decrypt_def dec_run_def split: option.splits)
  show ?thesis
    using s' c assms(3) by (auto simp: DecryptedInputStream_new_def EVP_MAX_IV_LENGTH_def dec_inv_def dec_rest_def)
qed

lemma dec_new_short:
  assumes "inv s" and "length (rest s) < 16"
  shows "\<exists>s'. DecryptedInputStream_new E read key s = Some (Inl EncryptionFailedException, s')"
  using read_ok [OF assms(1), of 16] assms(2)
  by (auto simp: DecryptedInputStream_new_def EVP_MAX_IV_LENGTH_def)

end

sublocale decrypted_input \<subseteq> decrypted: input_stream "DecryptedInputStream_read E read"
    "dec_rest E rest" "dec_inv E rest inv"
  by unfold_locales (rule dec_read_ok)

end
