(* ===== verification/Lzma_Streams.thy ===== *)
theory Lzma_Streams
  imports Crypto_Streams
begin

text \<open>
  \<^verbatim>\<open>LZMAUtils::compress\<close> with the callback objects it hands to the LZMA2 encoder, and
  \<^verbatim>\<open>LZMAInputStream\<close>. The encoder of the environment calls back for input and output; an exception
  a callback throws passes through it.
\<close>

section \<open>Compression\<close>

definition LzmaOutputStream_write :: "(bytes \<Rightarrow> ('o, unit) io) \<Rightarrow> bytes \<Rightarrow> ('o, nat) io" where
  "LzmaOutputStream_write wr buf = seq_io (wr buf) (return_io (length buf))"

text \<open>The callback stores the number of bytes read and always returns \<^verbatim>\<open>SZ_OK\<close>.\<close>

definition LzmaInputStream_read :: "(nat \<Rightarrow> ('s, bytes) io) \<Rightarrow> nat \<Rightarrow> ('s, bytes) io" where
  "LzmaInputStream_read rd n = rd n"

partial_function (option) Lzma2Enc_Encode ::
    "('e, 'd, 'h, 'm, 'l, 'z) env \<Rightarrow> (bytes \<Rightarrow> ('o, nat) io) \<Rightarrow> (nat \<Rightarrow> ('s, bytes) io) \<Rightarrow> 'l \<Rightarrow> ('s \<times> 'o, bool) io" where
  "Lzma2Enc_Encode E wr rd l st =
     (case Lzma2Enc_Step E l of
        LzmaDone ok \<Rightarrow> Some (Inr ok, st)
      | LzmaRead n k \<Rightarrow>
          (case rd n (fst st) of
             None \<Rightarrow> None
           | Some (Inl e, s') \<Rightarrow> Some (Inl e, (s', snd st))
           | Some (Inr bs, s') \<Rightarrow> Lzma2Enc_Encode E wr rd (k bs) (s', snd st))
      | LzmaWrite w l' \<Rightarrow>
          (case wr w (snd st) of
             None \<Rightarrow> None
           | Some (Inl e, t') \<Rightarrow> Some (Inl e, (fst st, t'))
           | Some (Inr _, t') \<Rightarrow> Lzma2Enc_Encode E wr rd l' (fst st, t')))"

definition compress ::
    "('e, 'd, 'h, 'm, 'l, 'z) env \<Rightarrow> (nat \<Rightarrow> ('s, bytes) io) \<Rightarrow> (bytes \<Rightarrow> ('o, unit) io) \<Rightarrow> ('s \<times> 'o, unit) io" where
  "compress E rd wr =
     bind_io (lift_option LZMAException (Lzma2Enc_Create E)) (\<lambda>(prop, l).
       seq_io (zoom_io snd (\<lambda>t (s, _). (s, t)) (wr [prop]))
         (bind_io (Lzma2Enc_Encode E (LzmaOutputStream_write wr) (LzmaInputStream_read rd) l)
            (\<lambda>ok. guard_io ok LZMAException)))"

context input_stream
begin

lemma Lzma2Enc_Encode_ok:
  "lzma_encodes E l x zs \<Longrightarrow> inv s \<Longrightarrow> rest s = x \<Longrightarrow> feed wr zs t = Some (Inr (), t') \<Longrightarrow>
   \<exists>s'. Lzma2Enc_Encode E (LzmaOutputStream_write wr) (LzmaInputStream_read read) l (s, t) = Some (Inr True, (s', t'))
      \<and> inv s'"
proof (induction arbitrary: s t rule: lzma_encodes.induct)
  case (encodes_done l x)
  then show ?case by (simp add: Lzma2Enc_Encode.simps [of _ _ _ l])
next
  case (encodes_read l n k x zs)
  obtain s1 where s1: "read n s = Some (Inr (take n (rest s)), s1)" "rest s1 = drop n (rest s)" "inv s1"
    using read_ok [OF encodes_read.prems(1) encodes_read.hyps(2)] by blast
  with encodes_read.IH [of s1 t] encodes_read.prems encodes_read.hyps(1) show ?case
    by (simp add: Lzma2Enc_Encode.simps [of _ _ _ l] LzmaInputStream_read_def)
next
  case (encodes_write l w l' x zs)
  then obtain t1 where "wr w t = Some (Inr (), t1)" "feed wr zs t1 = Some (Inr (), t')"
    by (auto simp: bind_io_eq_Inr)
  with encodes_write.IH [of s t1] encodes_write.prems encodes_write.hyps(1) show ?case
    by (simp add: Lzma2Enc_Encode.simps [of _ _ _ l] LzmaOutputStream_write_def)
qed

lemma compress_ok:
  assumes "Lzma2Enc_Create E = Some (prop, l)" and "lzma_encodes E l (rest s) zs" and "inv s"
    and "feed wr ([prop] # zs) t = Some (Inr (), t')"
  shows "\<exists>s'. compress E read wr (s, t) = Some (Inr (), (s', t')) \<and> inv s'"
proof -
  obtain t1 where t1: "wr [prop] t = Some (Inr (), t1)" "feed wr zs t1 = Some (Inr (), t')"
    using assms(4) by (auto simp: bind_io_eq_Inr)
  from Lzma2Enc_Encode_ok [OF assms(2,3) refl t1(2)] obtain s' where
    "Lzma2Enc_Encode E (LzmaOutputStream_write wr) (LzmaInputStream_read read) l (s, t1) = Some (Inr True, (s', t'))"
    "inv s'" by blast
  with assms(1) t1(1) show ?thesis by (simp add: compress_def)
qed

end

section \<open>LZMAInputStream\<close>

text \<open>\<open>li_buffer\<close> holds the \<^verbatim>\<open>mBytesInBuffer\<close> bytes at \<^verbatim>\<open>mBufferPtr\<close>.\<close>

record ('z, 's) LZMAInputStream =
  li_dec :: 'z
  li_stream :: 's
  li_buffer :: bytes

definition INPUT_BUFFER_SIZE :: nat where
  "INPUT_BUFFER_SIZE = 16384"

definition LZMAInputStream_new ::
    "('e, 'd, 'h, 'm, 'l, 'z) env \<Rightarrow> (nat \<Rightarrow> ('s, bytes) io) \<Rightarrow> ('s, 'z) io" where
  "LZMAInputStream_new E rd =
     bind_io (rd 1) (\<lambda>prop.
       if length prop \<noteq> 1 then throw_io LZMAException
       else lift_option LZMAException (Lzma2Dec_Allocate E (hd prop)))"

partial_function (option) LZMAInputStream_read_loop ::
    "('e, 'd, 'h, 'm, 'l, 'z) env \<Rightarrow> (nat \<Rightarrow> ('s, bytes) io) \<Rightarrow> nat \<Rightarrow> bytes \<Rightarrow> (('z, 's) LZMAInputStream, bytes) io" where
  "LZMAInputStream_read_loop E rd sz acc s =
     (if length acc < sz then
        (case (if li_buffer s = [] then rd INPUT_BUFFER_SIZE (li_stream s) else Some (Inr (li_buffer s), li_stream s)) of
           None \<Rightarrow> None
         | Some (Inl e, t) \<Rightarrow> Some (Inl e, s\<lparr>li_stream := t\<rparr>)
         | Some (Inr buf, t) \<Rightarrow>
             let s1 = s\<lparr>li_stream := t, li_buffer := buf\<rparr> in
             if buf = [] then Some (Inr acc, s1)
             else
               (case Lzma2Dec_DecodeToBuf E (li_dec s1) (sz - length acc) buf of
                  None \<Rightarrow> Some (Inl LZMAException, s1)
                | Some (z, out, used, status) \<Rightarrow>
                    let s2 = s1\<lparr>li_dec := z, li_buffer := drop used buf\<rparr> in
                    if lzma_finished status then Some (Inr (acc @ out), s2)
                    else LZMAInputStream_read_loop E rd sz (acc @ out) s2))
      else Some (Inr acc, s))"

definition LZMAInputStream_read ::
    "('e, 'd, 'h, 'm, 'l, 'z) env \<Rightarrow> (nat \<Rightarrow> ('s, bytes) io) \<Rightarrow> nat \<Rightarrow> (('z, 's) LZMAInputStream, bytes) io" where
  "LZMAInputStream_read E rd sz = LZMAInputStream_read_loop E rd sz []"

text \<open>The compressed bytes still to be decoded, and what they decode to.\<close>

definition lzma_input :: "('s \<Rightarrow> bytes) \<Rightarrow> ('z, 's) LZMAInputStream \<Rightarrow> bytes" where
  "lzma_input rest s = li_buffer s @ rest (li_stream s)"

definition lzma_rest :: "('z \<Rightarrow> bytes \<Rightarrow> bytes option) \<Rightarrow> ('s \<Rightarrow> bytes) \<Rightarrow> ('z, 's) LZMAInputStream \<Rightarrow> bytes" where
  "lzma_rest D rest s = (if lzma_input rest s = [] then [] else the (D (li_dec s) (lzma_input rest s)))"

definition lzma_inv ::
    "('z \<Rightarrow> bytes \<Rightarrow> bytes option) \<Rightarrow> ('s \<Rightarrow> bytes) \<Rightarrow> ('s \<Rightarrow> bool) \<Rightarrow> ('z, 's) LZMAInputStream \<Rightarrow> bool" where
  "lzma_inv D rest ok s \<longleftrightarrow> ok (li_stream s) \<and>
     (lzma_input rest s = [] \<or> D (li_dec s) (lzma_input rest s) \<noteq> None)"

context input_stream
begin

text \<open>Filling the buffer keeps the input.\<close>

lemma lzma_fill:
  assumes "inv (li_stream s)"
  obtains buf t where
    "(if li_buffer s = [] then read INPUT_BUFFER_SIZE (li_stream s) else Some (Inr (li_buffer s), li_stream s)) =
       Some (Inr buf, t)"
    "buf @ rest t = lzma_input rest s" "inv t" "buf = [] \<longleftrightarrow> lzma_input rest s = []"
proof (cases "li_buffer s = []")
  case True
  obtain t where "read INPUT_BUFFER_SIZE (li_stream s) = Some (Inr (take INPUT_BUFFER_SIZE (rest (li_stream s))), t)"
    "rest t = drop INPUT_BUFFER_SIZE (rest (li_stream s))" "inv t"
    using read_ok [OF assms, of INPUT_BUFFER_SIZE] by (auto simp: INPUT_BUFFER_SIZE_def)
  with True show thesis
    by (intro that [of "take INPUT_BUFFER_SIZE (rest (li_stream s))" t])
       (auto simp: lzma_input_def INPUT_BUFFER_SIZE_def)
next
  case False
  with assms show thesis by (intro that [of "li_buffer s" "li_stream s"]) (auto simp: lzma_input_def)
qed

lemma lzma_read_loop_ok:
  assumes D: "lzma_decodes E D"
  shows "lzma_inv D rest inv s \<Longrightarrow> length acc \<le> sz \<Longrightarrow>
   \<exists>s'. LZMAInputStream_read_loop E read sz acc s =
          Some (Inr (acc @ take (sz - length acc) (lzma_rest D rest s)), s')
      \<and> lzma_rest D rest s' = drop (sz - length acc) (lzma_rest D rest s) \<and> lzma_inv D rest inv s'"
proof (induction "length (lzma_input rest s) + (sz - length acc)" arbitrary: acc s rule: less_induct)
  case less
  note loop = LZMAInputStream_read_loop.simps [of E read sz acc s]
  have "inv (li_stream s)" using less.prems by (simp add: lzma_inv_def)
  then obtain buf t where fill:
    "(if li_buffer s = [] then read INPUT_BUFFER_SIZE (li_stream s) else Some (Inr (li_buffer s), li_stream s)) =
       Some (Inr buf, t)"
    "buf @ rest t = lzma_input rest s" "inv t" "buf = [] \<longleftrightarrow> lzma_input rest s = []"
    by (rule lzma_fill)
  consider "sz = length acc" | "length acc < sz" "buf = []" | "length acc < sz" "buf \<noteq> []"
    using less.prems(2) by linarith
  then show ?case
  proof cases
    case 1
    then have "LZMAInputStream_read_loop E read sz acc s = Some (Inr acc, s)" by (subst loop) simp
    with 1 less.prems show ?thesis by simp
  next
    case 2
    with fill have "lzma_input rest s = []" "rest t = []" by auto
    with 2 fill show ?thesis
      by (simp add: loop Let_def) (simp add: lzma_rest_def lzma_inv_def lzma_input_def)
  next
    case 3
    define n where "n = sz - length acc"
    have n: "0 < n" using 3 by (simp add: n_def)
    obtain x where x: "D (li_dec s) (buf @ rest t) = Some x" "lzma_rest D rest s = x"
      using less.prems(1) fill(2,4) 3 by (auto simp: lzma_inv_def lzma_rest_def)
    obtain z out used st where dec: "Lzma2Dec_DecodeToBuf E (li_dec s) n buf = Some (z, out, used, st)"
      "length out \<le> n" "used \<le> length buf"
      "lzma_finished st \<longrightarrow> out = x \<and> used = length (buf @ rest t)"
      "\<not> lzma_finished st \<longrightarrow> x = out @ drop (length out) x \<and> D z (drop used (buf @ rest t)) = Some (drop (length out) x)
         \<and> (0 < used \<or> out \<noteq> []) \<and> used < length (buf @ rest t)"
      by (rule lzma_decodesE [OF D x(1) 3(2) n])
    define s2 where "s2 = s\<lparr>li_stream := t, li_dec := z, li_buffer := drop used buf\<rparr>"
    have in2: "lzma_input rest s2 = drop used (buf @ rest t)"
      using dec(3) by (simp add: s2_def lzma_input_def)
    show ?thesis
    proof (cases "lzma_finished st")
      case True
      then have "out = x" "lzma_input rest s2 = []" using dec(4) in2 by auto
      moreover have "LZMAInputStream_read_loop E read sz acc s = Some (Inr (acc @ out), s2)"
        using 3 fill(1) dec(1) True by (simp add: loop Let_def n_def s2_def)
      ultimately show ?thesis
        using x(2) dec(2) fill(3) by (simp add: n_def lzma_rest_def lzma_inv_def) (simp add: s2_def)
    next
      case False
      note fin = dec(5) [rule_format, OF False]
      have ne: "lzma_input rest s2 \<noteq> []" using fin in2 by auto
      have "LZMAInputStream_read_loop E read sz acc s = LZMAInputStream_read_loop E read sz (acc @ out) s2"
        using 3 fill(1) dec(1) False by (simp add: loop Let_def n_def s2_def)
      moreover have "lzma_inv D rest inv s2" "lzma_rest D rest s2 = drop (length out) x"
      proof -
        have "li_dec s2 = z" "li_stream s2 = t" by (simp_all add: s2_def)
        then show "lzma_inv D rest inv s2" "lzma_rest D rest s2 = drop (length out) x"
          using fin ne fill(3) unfolding lzma_inv_def lzma_rest_def by (simp_all only: in2) simp_all
      qed
      moreover have "length (lzma_input rest s2) + (sz - length (acc @ out))
          < length (lzma_input rest s) + (sz - length acc)"
      proof -
        have "length (lzma_input rest s2) + used = length (lzma_input rest s)"
          using fin dec(3) by (auto simp: in2 simp flip: fill(2))
        moreover have "sz - length (acc @ out) + length out = sz - length acc"
          using dec(2) 3(1) by (simp add: n_def)
        moreover have "0 < used + length out" using fin by auto
        ultimately show ?thesis by linarith
      qed
      moreover have "length (acc @ out) \<le> sz" using dec(2) 3(1) by (simp add: n_def)
      moreover have "take n x = out @ take (n - length out) (drop (length out) x)"
      proof -
        have "take n x = take n (out @ drop (length out) x)" using fin by simp
        then show ?thesis using dec(2) by simp
      qed
      moreover have "drop n x = drop (n - length out) (drop (length out) x)" using dec(2) by simp
      ultimately show ?thesis
        using less.hyps [of s2 "acc @ out"] x(2) by (simp add: n_def)
    qed
  qed
qed

lemma lzma_input_stream:
  "lzma_decodes E D \<Longrightarrow> input_stream (LZMAInputStream_read E read) (lzma_rest D rest) (lzma_inv D rest inv)"
proof unfold_locales
  fix s n
  assume "lzma_decodes E D" and "lzma_inv D rest inv s"
  then show "\<exists>s'. LZMAInputStream_read E read n s = Some (Inr (take n (lzma_rest D rest s)), s')
      \<and> lzma_rest D rest s' = drop n (lzma_rest D rest s) \<and> lzma_inv D rest inv s'"
    using lzma_read_loop_ok [of E D s "[]" n] by (simp add: LZMAInputStream_read_def)
qed

lemma lzma_new_ok:
  assumes "inv s" and "rest s = prop # i" and "Lzma2Dec_Allocate E prop = Some z" and "i \<noteq> []" and "D z i = Some x"
  shows "\<exists>s'. LZMAInputStream_new E read s = Some (Inr z, s')
     \<and> lzma_inv D rest inv \<lparr>li_dec = z, li_stream = s', li_buffer = []\<rparr>
     \<and> lzma_rest D rest \<lparr>li_dec = z, li_stream = s', li_buffer = []\<rparr> = x"
proof -
  obtain s' where "read 1 s = Some (Inr [prop], s')" "rest s' = i" "inv s'"
    using read_ok [OF assms(1), of 1] assms(2) by auto
  with assms show ?thesis by (simp add: LZMAInputStream_new_def lzma_inv_def lzma_rest_def lzma_input_def)
qed

end

end
