(* ===== verification/Stream_Utils.thy ===== *)
theory Stream_Utils
  imports Lzma_Streams
begin

text \<open>
  \<^verbatim>\<open>StreamUtils::compressEncryptHMAC\<close> and \<^verbatim>\<open>decompressDecryptHMAC\<close>: the form in which every block,
  pack member and snapshot is stored, an HMAC tag of 32 bytes, the initialisation vector and the
  ciphertext of the (compressed) data.
\<close>

section \<open>Operations\<close>

text \<open>A value of the enumeration cast from a byte that names neither member is \<open>InvalidCompression\<close>.\<close>

datatype CompressionType = NoCompression | LZMA2 | InvalidCompression byte

definition compression_of_byte :: "byte \<Rightarrow> CompressionType" where
  "compression_of_byte b = (if b = 0 then NoCompression else if b = 1 then LZMA2 else InvalidCompression b)"

fun byte_of_compression :: "CompressionType \<Rightarrow> byte" where
  "byte_of_compression NoCompression = 0"
| "byte_of_compression LZMA2 = 1"
| "byte_of_compression (InvalidCompression b) = b"

text \<open>\<^verbatim>\<open>EncryptedHMACStream\<close> reads the tag and then the encrypted stream; its methods are those of the
  \<^verbatim>\<open>MultiInputStream\<close> inside it.\<close>

type_synonym enc_in = "base_in MultiInputStream"

definition EncryptedHMACStream_new :: "bytes \<Rightarrow> base_in \<Rightarrow> enc_in" where
  "EncryptedHMACStream_new hmac encStream = MultiInputStream_new [MemIn (MemoryInputStream_new hmac), encStream]"

definition EncryptedHMACStream_methods :: "enc_in instream" where
  "EncryptedHMACStream_methods = MultiInputStream_methods base_methods"

text \<open>The HMAC of what a stream has left, read 8192 bytes at a time.\<close>

definition hmac_body :: "('e, 'd, 'h, 'm, 'l, 'z) env \<Rightarrow> bytes \<Rightarrow> ('h, unit) io" where
  "hmac_body E buf = (\<lambda>h. case HMAC_Update E h buf of
       None \<Rightarrow> Some (Inl EncryptionFailedException, h)
     | Some h' \<Rightarrow> Some (Inr (), h'))"

definition hmac_stream ::
    "('e, 'd, 'h, 'm, 'l, 'z) env \<Rightarrow> bytes \<Rightarrow> (nat \<Rightarrow> ('s, bytes) io) \<Rightarrow> ('s, bytes) io" where
  "hmac_stream E macKey rd = (\<lambda>s.
     case HMAC_Init E (take SHA256_DIGEST_LENGTH macKey) of
       None \<Rightarrow> Some (Inl EncryptionFailedException, s)
     | Some h \<Rightarrow>
         (case read_each rd 8192 (hmac_body E) (s, h) of
            None \<Rightarrow> None
          | Some (Inl e, (s', _)) \<Rightarrow> Some (Inl e, s')
          | Some (Inr _, (s', h')) \<Rightarrow> lift_option EncryptionFailedException (HMAC_Final E h') s'))"

definition compress_into ::
    "('e, 'd, 'h, 'm, 'l, 'z) env \<Rightarrow> CompressionType \<Rightarrow> (nat \<Rightarrow> ('s, bytes) io) \<Rightarrow> (bytes \<Rightarrow> ('o, unit) io) \<Rightarrow>
     ('s \<times> 'o, unit) io" where
  "compress_into E ct rd wr =
     (case ct of
        NoCompression \<Rightarrow> copyTo rd wr
      | LZMA2 \<Rightarrow> compress E rd wr
      | InvalidCompression _ \<Rightarrow> throw_io InvalidArgumentException)"

text \<open>The second half: the tag over the encrypted stream, which is then rewound and put behind the tag.\<close>

definition tag_stream :: "('e, 'd, 'h, 'm, 'l, 'z) env \<Rightarrow> bytes \<Rightarrow> (TempFileStream, enc_in) io" where
  "tag_stream E macKey =
     bind_io TempFileStream_inputStream (\<lambda>st. case st of
         None \<Rightarrow> throw_io UndefinedBehaviour
       | Some b \<Rightarrow> (\<lambda>t.
           map_option (\<lambda>(x, _). (x, t))
             (bind_io (hmac_stream E macKey (is_read base_methods)) (\<lambda>hmac.
                seq_io (is_rewind base_methods) (gets_io (EncryptedHMACStream_new hmac))) b)))"

definition compressEncryptHMAC ::
    "('e, 'd, 'h, 'm, 'l, 'z) env \<Rightarrow> filesys \<Rightarrow> CompressionType \<Rightarrow> bytes \<Rightarrow> bytes \<Rightarrow> (nat \<Rightarrow> ('s, bytes) io) \<Rightarrow>
     ('s \<times> rng, enc_in) io" where
  "compressEncryptHMAC E fs ct encKey macKey rd = (\<lambda>(s, r).
     case EncryptedOutputStream_new E TempFileStream_methods encKey (TempFileStream_new fs, r) of
       None \<Rightarrow> None
     | Some (Inl e, (t, r')) \<Rightarrow> Some (Inl e, (s, r'))
     | Some (Inr c, (t, r')) \<Rightarrow>
         (case seq_io (compress_into E ct rd (EncryptedOutputStream_write E TempFileStream_methods))
                 (zoom_io snd (\<lambda>enc (s, _). (s, enc)) (EncryptedOutputStream_close E TempFileStream_methods))
                 (s, \<lparr>eo_ctx = c, eo_stream = t\<rparr>) of
            None \<Rightarrow> None
          | Some (Inl e, (s', _)) \<Rightarrow> Some (Inl e, (s', r'))
          | Some (Inr _, (s', enc)) \<Rightarrow>
              map_option (\<lambda>(x, _). (x, (s', r'))) (tag_stream E macKey (eo_stream enc))))"

text \<open>The decoding half of \<^verbatim>\<open>decompressDecryptHMAC\<close>.\<close>

definition decrypt_copy ::
    "('e, 'd, 'h, 'm, 'l, 'z) env \<Rightarrow> bytes \<Rightarrow> (nat \<Rightarrow> ('s, bytes) io) \<Rightarrow> (bytes \<Rightarrow> ('o, unit) io) \<Rightarrow> ('s \<times> 'o, unit) io" where
  "decrypt_copy E encKey rd wr = (\<lambda>(s, t).
     case DecryptedInputStream_new E rd encKey s of
       None \<Rightarrow> None
     | Some (Inl e, s') \<Rightarrow> Some (Inl e, (s', t))
     | Some (Inr c, s') \<Rightarrow>
         map_option (\<lambda>(x, (d, t')). (x, (di_stream d, t')))
           (copyTo (DecryptedInputStream_read E rd) wr
              (\<lparr>di_ctx = c, di_stream = s', di_buffer = [], di_done = False\<rparr>, t)))"

definition decrypt_decompress_copy ::
    "('e, 'd, 'h, 'm, 'l, 'z) env \<Rightarrow> bytes \<Rightarrow> (nat \<Rightarrow> ('s, bytes) io) \<Rightarrow> (bytes \<Rightarrow> ('o, unit) io) \<Rightarrow> ('s \<times> 'o, unit) io" where
  "decrypt_decompress_copy E encKey rd wr = (\<lambda>(s, t).
     case DecryptedInputStream_new E rd encKey s of
       None \<Rightarrow> None
     | Some (Inl e, s') \<Rightarrow> Some (Inl e, (s', t))
     | Some (Inr c, s') \<Rightarrow>
         (case LZMAInputStream_new E (DecryptedInputStream_read E rd)
                 \<lparr>di_ctx = c, di_stream = s', di_buffer = [], di_done = False\<rparr> of
            None \<Rightarrow> None
          | Some (Inl e, d) \<Rightarrow> Some (Inl e, (di_stream d, t))
          | Some (Inr z, d) \<Rightarrow>
              map_option (\<lambda>(x, (lz, t')). (x, (di_stream (li_stream lz), t')))
                (copyTo (LZMAInputStream_read E (DecryptedInputStream_read E rd)) wr
                   (\<lparr>li_dec = z, li_stream = d, li_buffer = []\<rparr>, t))))"

definition on_input :: "('s, 'a) io \<Rightarrow> ('s \<times> 'o, 'a) io" where
  "on_input m = zoom_io fst (\<lambda>s (_, t). (s, t)) m"

definition decompressDecryptHMAC ::
    "('e, 'd, 'h, 'm, 'l, 'z) env \<Rightarrow> CompressionType \<Rightarrow> bytes \<Rightarrow> bytes \<Rightarrow> 's instream \<Rightarrow> (bytes \<Rightarrow> ('o, unit) io) \<Rightarrow>
     ('s \<times> 'o, unit) io" where
  "decompressDecryptHMAC E ct encKey macKey V wr = (\<lambda>(s, t).
     if \<not> is_canRewind V s then Some (Inl InvalidArgumentException, (s, t))
     else
       bind_io (on_input (readExpected (is_read V) SHA256_DIGEST_LENGTH)) (\<lambda>hmac1.
       bind_io (on_input (hmac_stream E macKey (is_read V))) (\<lambda>hmac2.
       if hmac1 \<noteq> hmac2 then throw_io VerificationFailedException
       else
         seq_io (on_input (is_rewind V))
         (seq_io (on_input (readExpected (is_read V) SHA256_DIGEST_LENGTH))
           (case ct of
              NoCompression \<Rightarrow> decrypt_copy E encKey (is_read V) wr
            | LZMA2 \<Rightarrow> decrypt_decompress_copy E encKey (is_read V) wr
            | InvalidCompression _ \<Rightarrow> throw_io InvalidArgumentException)))) (s, t))"

section \<open>The sealed form\<close>

text \<open>\<open>payload_ok E ct p x\<close>: the bytes \<open>p\<close> under the encryption stand for the data \<open>x\<close>; \<open>sealed\<close>: the stored
  bytes \<open>y\<close> stand for \<open>x\<close>.\<close>

definition payload_ok :: "('e, 'd, 'h, 'm, 'l, 'z) env \<Rightarrow> CompressionType \<Rightarrow> bytes \<Rightarrow> bytes \<Rightarrow> bool" where
  "payload_ok E ct p x \<longleftrightarrow>
     (case ct of
        NoCompression \<Rightarrow> p = x
      | LZMA2 \<Rightarrow> (\<exists>prop i z D. p = prop # i \<and> i \<noteq> [] \<and> Lzma2Dec_Allocate E prop = Some z \<and>
                   lzma_decodes E D \<and> D z i = Some x)
      | InvalidCompression _ \<Rightarrow> False)"

definition sealed ::
    "('e, 'd, 'h, 'm, 'l, 'z) env \<Rightarrow> (bytes \<Rightarrow> bytes \<Rightarrow> bytes) \<Rightarrow> CompressionType \<Rightarrow> bytes \<Rightarrow> bytes \<Rightarrow> bytes \<Rightarrow> bytes \<Rightarrow> bool" where
  "sealed E H ct encKey macKey x y \<longleftrightarrow>
     (\<exists>iv ps c. length iv = 16 \<and> evp_encrypt E (take 32 encKey) iv ps = Some c \<and>
        payload_ok E ct (concat ps) x \<and> y = H (take 32 macKey) (iv @ c) @ iv @ c)"

interpretation enc_in: multi_input base_methods base_rest base_inv base_whole ..

lemma enc_methods [simp]: "MultiInputStream_methods base_methods = EncryptedHMACStream_methods"
  by (simp add: EncryptedHMACStream_methods_def)

abbreviation enc_rest :: "enc_in \<Rightarrow> bytes" where "enc_rest \<equiv> multi_rest base_rest"
abbreviation enc_inv :: "enc_in \<Rightarrow> bool" where "enc_inv \<equiv> multi_inv base_inv"
abbreviation enc_whole :: "enc_in \<Rightarrow> bytes" where "enc_whole \<equiv> multi_whole base_whole"

section \<open>The tag\<close>

lemma feed_hmac: "feed (hmac_body E) xs h = Some (Inr (), h') \<longleftrightarrow> hmac_updates E h xs = Some h'"
  by (induction xs arbitrary: h) (auto simp: bind_io_def hmac_body_def split: option.splits)

context input_stream
begin

lemma hmac_stream_ok:
  assumes "hmac_ok E H" and "inv s"
  shows "\<exists>s'. hmac_stream E key read s = Some (Inr (H (take 32 key) (rest s)), s') \<and> rest s' = [] \<and> inv s'"
proof -
  obtain h h' where h: "HMAC_Init E (take 32 key) = Some h" "hmac_updates E h (chunks 8192 (rest s)) = Some h'"
    "HMAC_Final E h' = Some (H (take 32 key) (concat (chunks 8192 (rest s))))"
    by (rule hmac_of_Some [OF assms(1)])
  obtain s' where "read_each read 8192 (hmac_body E) (s, h) = Some (Inr (), (s', h'))" "rest s' = []" "inv s'"
    using read_each_ok [OF assms(2), of 8192 "hmac_body E" h h'] h(2) by (auto simp: feed_hmac)
  with h show ?thesis by (simp add: hmac_stream_def SHA256_DIGEST_LENGTH_def concat_chunks)
qed

end

context rewindable_stream
begin

lemma hmac_stream_frame:
  assumes "hmac_ok E H" and "inv s"
  shows "\<exists>s'. hmac_stream E key (is_read V) s = Some (Inr (H (take 32 key) (rest s)), s')
     \<and> rest s' = [] \<and> whole s' = whole s \<and> inv s'"
  using input_stream.hmac_stream_ok [OF read_frame assms(1), of s "whole s"] assms(2) by auto

lemma readExpected_frame:
  assumes "inv s" and "n \<le> length (rest s)" and "n < 2 ^ 63"
  shows "\<exists>s'. readExpected (is_read V) n s = Some (Inr (take n (rest s)), s')
     \<and> rest s' = drop n (rest s) \<and> whole s' = whole s \<and> inv s'"
  using input_stream.readExpected_ok [OF read_frame, of s "whole s" n] assms by auto

end

section \<open>Sealing\<close>

lemma tag_stream_ok:
  assumes "hmac_ok E H" and "tmp_room t n"
  shows "\<exists>m t'. tag_stream E key t = Some (Inr m, t') \<and> enc_inv m
     \<and> enc_rest m = H (take 32 key) (tmp_written t) @ tmp_written t \<and> enc_whole m = enc_rest m"
proof -
  obtain b t' where b: "TempFileStream_inputStream t = Some (Inr (Some b), t')" "base_inv b"
    "base_rest b = tmp_written t" "base_whole b = tmp_written t" using inputStream_ok [OF assms(2)] by blast
  obtain b1 where b1: "hmac_stream E key (is_read base_methods) b = Some (Inr (H (take 32 key) (tmp_written t)), b1)"
    "base_whole b1 = tmp_written t" "base_inv b1"
    using base.hmac_stream_frame [OF assms(1) b(2), of key] b(3,4) by auto
  obtain b2 where "is_rewind base_methods b1 = Some (Inr (), b2)" "base_rest b2 = tmp_written t"
    "base_whole b2 = tmp_written t" "base_inv b2" using base.rewind_ok [OF b1(3)] b1(2) by auto
  with b b1 show ?thesis by (simp add: tag_stream_def EncryptedHMACStream_new_def)
qed

interpretation tmp_enc: encrypted_output TempFileStream_methods tmp_written tmp_room E for E
  by unfold_locales (use tmp_out.write_ok tmp_out.room_mono in \<open>auto simp: TempFileStream_methods_def OutputStream_def\<close>)

text \<open>The disk is large enough for any temporary file.\<close>

definition disk_free :: "filesys \<Rightarrow> bool" where
  "disk_free fs \<longleftrightarrow> disk_ok fs \<and> fs_limit fs = None"

lemma tmp_room_free: "disk_free fs \<Longrightarrow> tmp_room (TempFileStream_new fs) n"
  by (simp add: tmp_room_new disk_free_def limit_ok_def)

lemma concat_concat_chunks: "0 < n \<Longrightarrow> concat (concat (map (chunks n) xs)) = concat xs"
  by (induction xs) (simp_all add: concat_chunks)

context input_stream
begin

text \<open>What the compressor writes is accepted piece by piece, provided a writer accepts it.\<close>

lemma compress_into_ok:
  assumes "inv s" and "lzma_ok E" and "\<And>b. ct \<noteq> InvalidCompression b"
  obtains ps where "payload_ok E ct (concat ps) (rest s)"
    "\<And>(wr :: bytes \<Rightarrow> ('o, unit) io) t t'. feed wr ps t = Some (Inr (), t') \<Longrightarrow>
       \<exists>s'. compress_into E ct read wr (s, t) = Some (Inr (), (s', t')) \<and> inv s'"
proof (cases ct)
  case NoCompression
  show thesis
  proof (rule that [of "chunks 16384 (rest s)"])
    show "payload_ok E ct (concat (chunks 16384 (rest s))) (rest s)"
      by (simp add: payload_ok_def NoCompression concat_chunks)
    show "\<exists>s'. compress_into E ct read wr (s, t) = Some (Inr (), (s', t')) \<and> inv s'"
      if "feed wr (chunks 16384 (rest s)) t = Some (Inr (), t')" for wr :: "bytes \<Rightarrow> ('o, unit) io" and t t'
      using read_each_ok [OF assms(1), of 16384 wr t t'] that
      by (auto simp: compress_into_def NoCompression copyTo_def)
  qed
next
  case LZMA2
  obtain pr l z D zs where lz: "Lzma2Enc_Create E = Some (pr, l)" "Lzma2Dec_Allocate E pr = Some z"
    "lzma_decodes E D" "lzma_encodes E l (rest s) zs" "concat zs \<noteq> []" "D z (concat zs) = Some (rest s)"
    using assms(2) unfolding lzma_ok_def by blast
  show thesis
  proof (rule that [of "[pr] # zs"])
    show "payload_ok E ct (concat ([pr] # zs)) (rest s)"
      using lz(2,3,5,6) by (auto simp: payload_ok_def LZMA2)
    show "\<exists>s'. compress_into E ct read wr (s, t) = Some (Inr (), (s', t')) \<and> inv s'"
      if "feed wr ([pr] # zs) t = Some (Inr (), t')" for wr :: "bytes \<Rightarrow> ('o, unit) io" and t t'
      using compress_ok [OF lz(1,4) assms(1) that] by (simp add: compress_into_def LZMA2)
  qed
qed (use assms(3) in blast)

lemma compressEncryptHMAC_ok:
  fixes E :: "('e, 'd, 'h, 'm, 'l, 'z) env"
  assumes "inv s" and "hmac_ok E H" and "cipher_ok E (take 32 encKey)" and "lzma_ok E"
    and "\<And>b. ct \<noteq> InvalidCompression b" and "disk_free fs"
  shows "\<exists>m s' r'. compressEncryptHMAC E fs ct encKey macKey read (s, r) = Some (Inr m, (s', r')) \<and> inv s'
     \<and> enc_inv m \<and> enc_whole m = enc_rest m \<and> sealed E H ct encKey macKey (rest s) (enc_rest m)"
proof -
  define iv where "iv = fst (arc4random_buf 16 r)"
  obtain ps where ps: "payload_ok E ct (concat ps) (rest s)"
    "\<And>(wr :: bytes \<Rightarrow> (('e, TempFileStream) EncryptedOutputStream, unit) io) t t'. feed wr ps t = Some (Inr (), t') \<Longrightarrow>
       \<exists>s'. compress_into E ct read wr (s, t) = Some (Inr (), (s', t')) \<and> inv s'"
    using compress_into_ok [OF assms(1,4,5)] by blast
  let ?ps = "concat (map (chunks 4096) ps)"
  have iv16: "length iv = 16" by (simp add: iv_def)
  obtain c where c: "evp_encrypt E (take 32 encKey) iv ?ps = Some c" by (rule cipher_okE [OF assms(3) iv16])
  then obtain ctx out ctx' fin ctx'' where e: "EVP_EncryptInit_ex E (take 32 encKey) iv = Some ctx"
    "enc_updates E ctx ?ps = Some (out, ctx')" "EVP_EncryptFinal_ex E ctx' = Some (fin, ctx'')" "c = out @ fin"
    by (rule evp_encrypt_SomeE)
  obtain t1 where t1: "EncryptedOutputStream_new E TempFileStream_methods encKey (TempFileStream_new fs, r) =
      Some (Inr ctx, (t1, snd (arc4random_buf 16 r)))" "tmp_written t1 = iv" "tmp_room t1 (length out + length fin)"
    using tmp_enc.enc_new_ok [of E encKey r ctx "TempFileStream_new fs" "length out + length fin"] e(1)
      tmp_room_free [OF assms(6)] by (auto simp: iv_def)
  obtain s2 where s2: "feed (EncryptedOutputStream_write E TempFileStream_methods) ps \<lparr>eo_ctx = ctx, eo_stream = t1\<rparr> =
      Some (Inr (), s2)" "eo_ctx s2 = ctx'" "tmp_written (eo_stream s2) = iv @ out" "tmp_room (eo_stream s2) (length fin)"
    using tmp_enc.feed_enc_write_ok [of E "\<lparr>eo_ctx = ctx, eo_stream = t1\<rparr>" ps out ctx' "length fin"] e(2) t1(2,3)
    by auto
  obtain s1 where s1: "compress_into E ct read (EncryptedOutputStream_write E TempFileStream_methods)
      (s, \<lparr>eo_ctx = ctx, eo_stream = t1\<rparr>) = Some (Inr (), (s1, s2))" "inv s1" using ps(2) [OF s2(1)] by blast
  obtain s3 where s3: "EncryptedOutputStream_close E TempFileStream_methods s2 = Some (Inr (), s3)"
    "tmp_written (eo_stream s3) = iv @ c" "tmp_room (eo_stream s3) 0"
    using tmp_enc.enc_close_ok [of E s2 fin ctx'' 0] e(3,4) s2(2,3,4)
    by (auto simp: TempFileStream_methods_def OutputStream_def)
  obtain m t' where m: "tag_stream E macKey (eo_stream s3) = Some (Inr m, t')" "enc_inv m"
    "enc_rest m = H (take 32 macKey) (iv @ c) @ iv @ c" "enc_whole m = enc_rest m"
    using tag_stream_ok [OF assms(2) s3(3), of macKey] s3(2) by auto
  have "compressEncryptHMAC E fs ct encKey macKey read (s, r) = Some (Inr m, (s1, snd (arc4random_buf 16 r)))"
    by (simp add: compressEncryptHMAC_def t1(1) s1(1) s3(1) m(1))
  moreover have "sealed E H ct encKey macKey (rest s) (enc_rest m)"
    unfolding sealed_def using iv16 c ps(1) m(3) concat_concat_chunks [of 4096 ps] by force
  ultimately show ?thesis using m(2,4) s1(2) by blast
qed

end

section \<open>Opening\<close>

lemma cipher_chunks:
  assumes "cipher_ok E key" and "length iv = 16" and "evp_encrypt E key iv ps = Some c"
  shows "evp_decrypt E key iv (chunks 4096 c) = Some (concat ps)"
proof -
  obtain c' where "evp_encrypt E key iv ps = Some c'"
    "\<And>ys. concat ys = c' \<Longrightarrow> evp_decrypt E key iv ys = Some (concat ps)"
    using cipher_okE [OF assms(1,2), of ps] by blast
  with assms(3) show ?thesis by (simp add: concat_chunks)
qed

locale unsealing = rewindable_stream V rest inv whole + output_stream emit written room
  for V :: "'s instream" and rest inv whole
    and emit :: "bytes \<Rightarrow> ('o, unit) io" and written room
begin

lemma decrypted_stream:
  "input_stream (DecryptedInputStream_read E (is_read V)) (dec_rest E rest) (dec_inv E rest inv)"
  by unfold_locales (rule decrypted_input.dec_read_ok [OF decrypted_input.intro [OF input_stream_axioms]])

lemmas copy_out = stream_copy.copyTo_ok [OF stream_copy.intro, OF _ output_stream_axioms]

lemma decrypt_copy_ok:
  assumes "inv s" and "rest s = iv @ c" and "length iv = 16" and "cipher_ok E (take 32 encKey)"
    and "evp_encrypt E (take 32 encKey) iv ps = Some c" and "room t (length (concat ps) + k)"
  shows "\<exists>s' t'. decrypt_copy E encKey (is_read V) emit (s, t) = Some (Inr (), (s', t'))
     \<and> written t' = written t @ concat ps \<and> room t' k"
proof -
  have dec: "evp_decrypt E (take 32 encKey) iv (chunks 4096 c) = Some (concat ps)"
    by (rule cipher_chunks [OF assms(4,3,5)])
  obtain ctx s1 where s1: "DecryptedInputStream_new E (is_read V) encKey s = Some (Inr ctx, s1)"
    "dec_inv E rest inv \<lparr>di_ctx = ctx, di_stream = s1, di_buffer = [], di_done = False\<rparr>"
    "dec_rest E rest \<lparr>di_ctx = ctx, di_stream = s1, di_buffer = [], di_done = False\<rparr> = concat ps"
    using decrypted_input.dec_new_ok [OF decrypted_input.intro [OF input_stream_axioms] assms(1-3) dec] by blast
  from copy_out [OF decrypted_stream s1(2), of t k] s1(3) assms(6) show ?thesis
    by (auto simp: decrypt_copy_def s1(1))
qed

lemma decrypt_decompress_copy_ok:
  assumes "inv s" and "rest s = iv @ c" and "length iv = 16" and "cipher_ok E (take 32 encKey)"
    and "evp_encrypt E (take 32 encKey) iv ps = Some c" and "concat ps = pr # i" and "i \<noteq> []"
    and "Lzma2Dec_Allocate E pr = Some z" and "lzma_decodes E D" and "D z i = Some x" and "room t (length x + k)"
  shows "\<exists>s' t'. decrypt_decompress_copy E encKey (is_read V) emit (s, t) = Some (Inr (), (s', t'))
     \<and> written t' = written t @ x \<and> room t' k"
proof -
  have dec: "evp_decrypt E (take 32 encKey) iv (chunks 4096 c) = Some (concat ps)"
    by (rule cipher_chunks [OF assms(4,3,5)])
  obtain ctx s1 where s1: "DecryptedInputStream_new E (is_read V) encKey s = Some (Inr ctx, s1)"
    "dec_inv E rest inv \<lparr>di_ctx = ctx, di_stream = s1, di_buffer = [], di_done = False\<rparr>"
    "dec_rest E rest \<lparr>di_ctx = ctx, di_stream = s1, di_buffer = [], di_done = False\<rparr> = pr # i"
    using decrypted_input.dec_new_ok [OF decrypted_input.intro [OF input_stream_axioms] assms(1-3) dec] assms(6)
    by auto
  obtain d where d: "LZMAInputStream_new E (DecryptedInputStream_read E (is_read V))
      \<lparr>di_ctx = ctx, di_stream = s1, di_buffer = [], di_done = False\<rparr> = Some (Inr z, d)"
    "lzma_inv D (dec_rest E rest) (dec_inv E rest inv) \<lparr>li_dec = z, li_stream = d, li_buffer = []\<rparr>"
    "lzma_rest D (dec_rest E rest) \<lparr>li_dec = z, li_stream = d, li_buffer = []\<rparr> = x"
    using input_stream.lzma_new_ok [OF decrypted_stream s1(2,3) assms(8,7), of D] assms(10) by blast
  from copy_out [OF input_stream.lzma_input_stream [OF decrypted_stream assms(9)] d(2), of t k] d(3) assms(11)
  show ?thesis by (auto simp: decrypt_decompress_copy_def s1(1) d(1))
qed

text \<open>Up to the comparison of the tags, nothing is written.\<close>

lemma verify_step:
  assumes "inv s" and "hmac_ok E H" and "32 \<le> length (rest s)"
  shows "\<exists>s1 s2. readExpected (is_read V) 32 s = Some (Inr (take 32 (rest s)), s1)
     \<and> hmac_stream E macKey (is_read V) s1 = Some (Inr (H (take 32 macKey) (drop 32 (rest s))), s2)
     \<and> whole s2 = whole s \<and> inv s2"
proof -
  obtain s1 where s1: "readExpected (is_read V) 32 s = Some (Inr (take 32 (rest s)), s1)"
    "rest s1 = drop 32 (rest s)" "whole s1 = whole s" "inv s1"
    using readExpected_frame [OF assms(1,3)] by auto
  with hmac_stream_frame [OF assms(2) s1(4), of macKey] show ?thesis by auto
qed

lemma decompress_ok:
  assumes "inv s" and "rest s = whole s" and "hmac_ok E H" and "cipher_ok E (take 32 encKey)"
    and "sealed E H ct encKey macKey x (whole s)" and "room t (length x + k)"
  shows "\<exists>s' t'. decompressDecryptHMAC E ct encKey macKey V emit (s, t) = Some (Inr (), (s', t'))
     \<and> written t' = written t @ x \<and> room t' k"
proof -
  obtain iv ps c where y: "length iv = 16" "evp_encrypt E (take 32 encKey) iv ps = Some c"
    "payload_ok E ct (concat ps) x" "whole s = H (take 32 macKey) (iv @ c) @ iv @ c"
    using assms(5) by (auto simp: sealed_def)
  have tag: "length (H (take 32 macKey) (iv @ c)) = 32" by (rule hmac_ok_length [OF assms(3)])
  obtain s1 s2 where s2: "readExpected (is_read V) 32 s = Some (Inr (H (take 32 macKey) (iv @ c)), s1)"
    "hmac_stream E macKey (is_read V) s1 = Some (Inr (H (take 32 macKey) (iv @ c)), s2)"
    "whole s2 = whole s" "inv s2"
    using verify_step [OF assms(1,3), of macKey] tag by (auto simp: assms(2) y(4))
  obtain s3 where s3: "is_rewind V s2 = Some (Inr (), s3)" "rest s3 = whole s" "inv s3"
    using rewind_ok [OF s2(4)] s2(3) by auto
  have "32 \<le> length (rest s3)" using s3(2) y(4) tag by simp
  then obtain s4 where s4: "readExpected (is_read V) 32 s3 = Some (Inr (take 32 (whole s)), s4)"
    "rest s4 = iv @ c" "inv s4"
    using readExpected_ok [OF s3(3), of 32] s3(2) y(4) tag by auto
  have run: "decompressDecryptHMAC E ct encKey macKey V emit (s, t) =
      (case ct of NoCompression \<Rightarrow> decrypt_copy E encKey (is_read V) emit
        | LZMA2 \<Rightarrow> decrypt_decompress_copy E encKey (is_read V) emit
        | InvalidCompression _ \<Rightarrow> throw_io InvalidArgumentException) (s4, t)"
    using canRewind_ok [OF assms(1)] s2 s3(1) s4(1)
    by (simp add: decompressDecryptHMAC_def on_input_def SHA256_DIGEST_LENGTH_def)
  show ?thesis
  proof (cases ct)
    case NoCompression
    with y(3) have "concat ps = x" by (simp add: payload_ok_def)
    with decrypt_copy_ok [OF s4(3,2) y(1) assms(4) y(2), of t k] assms(6) show ?thesis
      using run by (simp add: NoCompression)
  next
    case LZMA2
    with y(3) obtain pr i z D where "concat ps = pr # i" "i \<noteq> []" "Lzma2Dec_Allocate E pr = Some z"
      "lzma_decodes E D" "D z i = Some x" by (auto simp: payload_ok_def)
    from decrypt_decompress_copy_ok [OF s4(3,2) y(1) assms(4) y(2) this assms(6)] show ?thesis
      using run by (simp add: LZMA2)
  next
    case (InvalidCompression b)
    with y(3) show ?thesis by (simp add: payload_ok_def)
  qed
qed

lemma decompress_tampered:
  assumes "inv s" and "hmac_ok E H" and "32 \<le> length (rest s)"
    and "take 32 (rest s) \<noteq> H (take 32 macKey) (drop 32 (rest s))"
  shows "\<exists>s'. decompressDecryptHMAC E ct encKey macKey V emit (s, t) = Some (Inl VerificationFailedException, (s', t))"
  using verify_step [OF assms(1-3), of macKey] canRewind_ok [OF assms(1)] assms(4)
  by (auto simp: decompressDecryptHMAC_def on_input_def SHA256_DIGEST_LENGTH_def)

lemma decompress_short:
  assumes "inv s" and "length (rest s) < 32"
  shows "\<exists>s'. decompressDecryptHMAC E ct encKey macKey V emit (s, t) = Some (Inl ShortReadException, (s', t))"
proof -
  obtain s1 where "readExpected (is_read V) 32 s = Some (Inl ShortReadException, s1)"
    using readExpected_short [OF assms(1), of 32] assms(2) by auto
  then show ?thesis using canRewind_ok [OF assms(1)]
    by (auto simp: decompressDecryptHMAC_def on_input_def SHA256_DIGEST_LENGTH_def bind_io_def zoom_io_def)
qed

end

text \<open>The instances the repository uses: a downloaded object, and a member of a downloaded pack.\<close>

interpretation base_range: range_input base_methods base_rest base_inv base_whole ..

interpretation base_tmp: unsealing base_methods base_rest base_inv base_whole TempFileStream_write tmp_written tmp_room ..

interpretation range_tmp: unsealing "InputRangeStream_methods base_methods" "range_rest base_rest"
    "range_inv base_rest base_inv base_whole" "range_whole base_whole" TempFileStream_write tmp_written tmp_room ..

section \<open>Properties\<close>

lemma mem_input: "input_stream MemoryInputStream_read mem_rest mem_inv"
  by unfold_locales (use mem_in.read_ok in simp)

text \<open>A disk without files, for the evaluations below.\<close>

definition empty_disk :: filesys where
  "empty_disk = \<lparr>fs_nodes = [], fs_bad = [], fs_limit = None, fs_unique = ''tmp''\<rparr>"

lemma empty_disk_free: "disk_free empty_disk"
  by (simp add: empty_disk_def disk_free_def disk_ok_def fs_can_create_def fs_node_def parent_path_name plain_name_def)

text \<open>C16. Sealing and opening are inverse: \<^verbatim>\<open>compressEncryptHMAC\<close> returns a stream for every block, and
  \<^verbatim>\<open>decompressDecryptHMAC\<close>, given a rewindable stream (in memory or in a file) of the bytes that stream
  delivers, terminates normally and writes exactly the block, for both compression types. It rests on
  the documented behaviour of the cipher, of HMAC and of the LZMA2 coder.\<close>

theorem seal_open_roundtrip:
  assumes "hmac_ok E H" and "cipher_ok E (take 32 encKey)" and "lzma_ok E"
    and "ct = NoCompression \<or> ct = LZMA2" and "disk_free fs"
  shows "\<exists>m s' r'. compressEncryptHMAC E fs ct encKey macKey MemoryInputStream_read (MemoryInputStream_new x, r)
            = Some (Inr m, (s', r'))
     \<and> (\<forall>b t. base_inv b \<and> base_rest b = enc_rest m \<and> base_whole b = enc_rest m \<and> tmp_room t (length x) \<longrightarrow>
          (\<exists>b' t'. decompressDecryptHMAC E ct encKey macKey base_methods TempFileStream_write (b, t)
             = Some (Inr (), (b', t')) \<and> tmp_written t' = tmp_written t @ x))"
proof -
  have ct: "\<And>b. ct \<noteq> InvalidCompression b" using assms(4) by auto
  obtain m s' r' where m: "compressEncryptHMAC E fs ct encKey macKey MemoryInputStream_read (MemoryInputStream_new x, r)
      = Some (Inr m, (s', r'))" "sealed E H ct encKey macKey x (enc_rest m)"
    using input_stream.compressEncryptHMAC_ok [OF mem_input mem_new(1) assms(1-3) ct assms(5), of macKey x r]
    by (auto simp: mem_new)
  have "\<exists>b' t'. decompressDecryptHMAC E ct encKey macKey base_methods TempFileStream_write (b, t)
       = Some (Inr (), (b', t')) \<and> tmp_written t' = tmp_written t @ x"
    if "base_inv b" "base_rest b = enc_rest m" "base_whole b = enc_rest m" "tmp_room t (length x)" for b t
    using base_tmp.decompress_ok [OF that(1) _ assms(1,2), of ct macKey x t 0] m(2) that by auto
  with m(1) show ?thesis by blast
qed

theorem seal_open_roundtrip_witness:
  "\<exists>m s' r' b' t'. compressEncryptHMAC plain_env empty_disk LZMA2 [1, 2] [3] MemoryInputStream_read
       (MemoryInputStream_new [7, 8, 9], \<lambda>i. 5) = Some (Inr m, (s', r'))
     \<and> decompressDecryptHMAC plain_env LZMA2 [1, 2] [3] base_methods TempFileStream_write
         (MemIn (MemoryInputStream_new (enc_rest m)), TempFileStream_new empty_disk) = Some (Inr (), (b', t'))
     \<and> tmp_written t' = [7, 8, 9]"
proof -
  obtain m s' r' where m: "compressEncryptHMAC plain_env empty_disk LZMA2 [1, 2] [3] MemoryInputStream_read
       (MemoryInputStream_new [7, 8, 9], \<lambda>i. 5) = Some (Inr m, (s', r'))"
    "\<And>b t. base_inv b \<and> base_rest b = enc_rest m \<and> base_whole b = enc_rest m \<and> tmp_room t (length [7, 8, 9 :: byte]) \<Longrightarrow>
       \<exists>b' t'. decompressDecryptHMAC plain_env LZMA2 [1, 2] [3] base_methods TempFileStream_write (b, t)
         = Some (Inr (), (b', t')) \<and> tmp_written t' = tmp_written t @ [7, 8, 9]"
    using seal_open_roundtrip [OF plain_hmac_ok plain_cipher_ok plain_lzma_ok _ empty_disk_free,
        of LZMA2 "[1, 2]" "[3]" "[7, 8, 9]" "\<lambda>i. 5"] by auto
  from m(2) [of "MemIn (MemoryInputStream_new (enc_rest m))" "TempFileStream_new empty_disk"] tmp_room_free [OF empty_disk_free]
  obtain b' t' where "decompressDecryptHMAC plain_env LZMA2 [1, 2] [3] base_methods TempFileStream_write
      (MemIn (MemoryInputStream_new (enc_rest m)), TempFileStream_new empty_disk) = Some (Inr (), (b', t'))"
    "tmp_written t' = [7, 8, 9]" by auto
  with m(1) show ?thesis by blast
qed

text \<open>C17. Nothing is released from a stream whose tag does not verify: when the first 32 bytes are not
  the HMAC of the rest, \<^verbatim>\<open>decompressDecryptHMAC\<close> throws \<^verbatim>\<open>VerificationFailedException\<close>, and on a stream of
  fewer than 32 bytes \<^verbatim>\<open>ShortReadException\<close>; in both cases the output stream is left as it was.\<close>

theorem tampered_rejected:
  assumes "hmac_ok E H" and "base_inv b"
    and "length (base_rest b) < 32 \<or> take 32 (base_rest b) \<noteq> H (take 32 macKey) (drop 32 (base_rest b))"
  shows "\<exists>e b'. decompressDecryptHMAC E ct encKey macKey base_methods TempFileStream_write (b, t) = Some (Inl e, (b', t))
     \<and> e = (if length (base_rest b) < 32 then ShortReadException else VerificationFailedException)"
proof (cases "length (base_rest b) < 32")
  case True
  then show ?thesis using base_tmp.decompress_short [OF assms(2) True] by fastforce
next
  case False
  then show ?thesis using base_tmp.decompress_tampered [OF assms(2,1), of macKey] assms(3) by fastforce
qed

theorem tampered_rejected_witness:
  "\<exists>e b'. decompressDecryptHMAC plain_env NoCompression [1] [2] base_methods TempFileStream_write
       (MemIn (MemoryInputStream_new (replicate 40 0)), TempFileStream_new empty_disk)
       = Some (Inl e, (b', TempFileStream_new empty_disk))
     \<and> e = (if length (base_rest (MemIn (MemoryInputStream_new (replicate 40 0)))) < 32 then ShortReadException
           else VerificationFailedException)"
  by (rule tampered_rejected [OF plain_hmac_ok]) (simp_all add: plain_hmac_def numeral_eq_Suc)

end
