(* ===== verification/Std_Map.thy ===== *)
theory Std_Map
  imports Nebula_Prelude "HOL-Library.Char_ord" "HOL-Library.List_Lexorder"
begin

text \<open>
  \<^verbatim>\<open>std::map\<close> as a list of pairs with strictly increasing keys, which is the order iteration visits
  them in. Strings are ordered as \<^verbatim>\<open>std::string\<close> orders them, lexicographically by unsigned
  characters.
\<close>

type_synonym ('k, 'v) smap = "('k \<times> 'v) list"

definition smap_ok :: "('k::linorder, 'v) smap \<Rightarrow> bool" where
  "smap_ok m \<longleftrightarrow> sorted_wrt (<) (map fst m)"

definition smap_find :: "'k \<Rightarrow> ('k::linorder, 'v) smap \<Rightarrow> 'v option" where
  "smap_find k m = map_of m k"

text \<open>\<^verbatim>\<open>insert\<close> leaves an entry with the same key alone, \<^verbatim>\<open>operator[]\<close> replaces its value.\<close>

fun smap_insert :: "'k \<Rightarrow> 'v \<Rightarrow> ('k::linorder, 'v) smap \<Rightarrow> ('k, 'v) smap" where
  "smap_insert k v [] = [(k, v)]"
| "smap_insert k v ((k', v') # m) =
     (if k < k' then (k, v) # (k', v') # m
      else if k = k' then (k', v') # m
      else (k', v') # smap_insert k v m)"

fun smap_assign :: "'k \<Rightarrow> 'v \<Rightarrow> ('k::linorder, 'v) smap \<Rightarrow> ('k, 'v) smap" where
  "smap_assign k v [] = [(k, v)]"
| "smap_assign k v ((k', v') # m) =
     (if k < k' then (k, v) # (k', v') # m
      else if k = k' then (k', v) # m
      else (k', v') # smap_assign k v m)"

definition smap_erase :: "'k \<Rightarrow> ('k::linorder, 'v) smap \<Rightarrow> ('k, 'v) smap" where
  "smap_erase k m = filter (\<lambda>(k', v). k' \<noteq> k) m"

definition smap_lower_bound :: "'k \<Rightarrow> ('k::linorder, 'v) smap \<Rightarrow> ('k, 'v) smap" where
  "smap_lower_bound k m = dropWhile (\<lambda>(k', v). k' < k) m"

lemma smap_ok_Nil [simp]: "smap_ok []"
  by (simp add: smap_ok_def)

lemma smap_ok_Cons [simp]: "smap_ok ((k, v) # m) \<longleftrightarrow> (\<forall>k' \<in> fst ` set m. k < k') \<and> smap_ok m"
  by (simp add: smap_ok_def)

lemma smap_ok_distinct: "smap_ok m \<Longrightarrow> distinct (map fst m)"
  by (simp add: smap_ok_def strict_sorted_iff)

lemma keys_smap_insert: "fst ` set (smap_insert k v m) = insert k (fst ` set m)"
  by (induction k v m rule: smap_insert.induct) auto

lemma keys_smap_assign: "fst ` set (smap_assign k v m) = insert k (fst ` set m)"
  by (induction k v m rule: smap_assign.induct) auto

lemma smap_ok_insert [simp]: "smap_ok m \<Longrightarrow> smap_ok (smap_insert k v m)"
  by (induction k v m rule: smap_insert.induct) (auto simp: keys_smap_insert)

lemma smap_ok_assign [simp]: "smap_ok m \<Longrightarrow> smap_ok (smap_assign k v m)"
  by (induction k v m rule: smap_assign.induct) (auto simp: keys_smap_assign)

lemma smap_ok_erase [simp]: "smap_ok m \<Longrightarrow> smap_ok (smap_erase k m)"
  by (induction m) (auto simp: smap_erase_def)

lemma smap_find_less: "smap_ok m \<Longrightarrow> (\<forall>k' \<in> fst ` set m. k < k') \<Longrightarrow> map_of m k = None"
  by (force simp: map_of_eq_None_iff)

lemma smap_find_insert:
  "smap_ok m \<Longrightarrow> smap_find k' (smap_insert k v m) =
     (if k' = k \<and> smap_find k m = None then Some v else smap_find k' m)"
proof (induction k v m rule: smap_insert.induct)
  case (2 k v k1 v1 m)
  have "smap_find k ((k1, v1) # m) = None" if "k < k1"
    using that 2(2) smap_find_less [of m k] by (force simp: smap_find_def)
  with 2 show ?case by (auto simp: smap_find_def)
qed (simp add: smap_find_def)

lemma smap_find_assign: "smap_ok m \<Longrightarrow> smap_find k' (smap_assign k v m) = (if k' = k then Some v else smap_find k' m)"
  by (induction k v m rule: smap_assign.induct) (auto simp: smap_find_def)

lemma smap_find_erase: "smap_find k' (smap_erase k m) = (if k' = k then None else smap_find k' m)"
  by (induction m) (auto simp: smap_find_def smap_erase_def)

lemma set_smap_insert: "smap_ok m \<Longrightarrow> smap_find k m = None \<Longrightarrow> set (smap_insert k v m) = insert (k, v) (set m)"
  by (induction k v m rule: smap_insert.induct) (auto simp: smap_find_def split: if_splits)

lemma set_smap_insert_subset: "set (smap_insert k v m) \<subseteq> insert (k, v) (set m)"
  by (induction k v m rule: smap_insert.induct) auto

lemma set_smap_assign_subset: "set (smap_assign k v m) \<subseteq> insert (k, v) (set m)"
  by (induction k v m rule: smap_assign.induct) auto

lemma length_smap_insert: "length (smap_insert k v m) \<le> Suc (length m)"
  by (induction k v m rule: smap_insert.induct) auto

text \<open>Assigning the entries of an ordered list one after the other, from an empty map, gives the list back.\<close>

lemma smap_assign_last: "(\<forall>k' \<in> fst ` set m. k' < k) \<Longrightarrow> smap_assign k v m = m @ [(k, v)]"
  by (induction k v m rule: smap_assign.induct) auto

lemma foldl_smap_assign:
  "smap_ok (m0 @ m) \<Longrightarrow> foldl (\<lambda>m (k, v). smap_assign k v m) m0 m = m0 @ m"
proof (induction m arbitrary: m0)
  case (Cons kv m)
  obtain k v where kv: "kv = (k, v)" by force
  have "\<forall>k' \<in> fst ` set m0. k' < k"
    using Cons.prems by (auto simp: kv smap_ok_def sorted_wrt_append)
  then have "smap_assign k v m0 = m0 @ [(k, v)]" by (rule smap_assign_last)
  moreover have "smap_ok ((m0 @ [(k, v)]) @ m)" using Cons.prems by (simp add: kv)
  ultimately show ?case using Cons.IH by (simp add: kv)
qed simp

text \<open>The lookup interface of the map, which its clients rely on.\<close>

locale ordered_map =
  fixes find :: "'k \<Rightarrow> 'm \<Rightarrow> 'v option"
    and ins :: "'k \<Rightarrow> 'v \<Rightarrow> 'm \<Rightarrow> 'm"
    and del :: "'k \<Rightarrow> 'm \<Rightarrow> 'm"
    and ok :: "'m \<Rightarrow> bool"
  assumes find_ins: "ok m \<Longrightarrow> find k' (ins k v m) = (if k' = k \<and> find k m = None then Some v else find k' m)"
    and find_del: "ok m \<Longrightarrow> find k' (del k m) = (if k' = k then None else find k' m)"
    and ok_ins: "ok m \<Longrightarrow> ok (ins k v m)"
    and ok_del: "ok m \<Longrightarrow> ok (del k m)"
begin

lemma find_del_ins: "ok m \<Longrightarrow> find k (ins k v (del k m)) = Some v"
  by (simp add: find_ins find_del ok_del)

lemma find_ins_twice: "ok m \<Longrightarrow> find k m = None \<Longrightarrow> find k (ins k w (ins k v m)) = Some v"
  by (simp add: find_ins ok_ins)

end

interpretation smap: ordered_map smap_find smap_insert smap_erase smap_ok
  by unfold_locales (simp_all add: smap_find_insert smap_find_erase)

end
