(* ===== verification/File_Info.thy ===== *)
theory File_Info
  imports Boost_Path
begin

text \<open>
  \<^verbatim>\<open>FileInfo\<close>, the POSIX branch: what \<^verbatim>\<open>stat\<close> and the user and group data bases say of a path. These
  calls are arguments. Members the constructor leaves unset keep the values of \<open>junk\<close>.
\<close>

datatype FileType = FileNotFound | RegularFile | Directory | CharacterDevice | BlockDevice | Fifo
  | SymbolicLink | Socket

fun byte_of_filetype :: "FileType \<Rightarrow> byte" where
  "byte_of_filetype FileNotFound = 0"
| "byte_of_filetype RegularFile = 1"
| "byte_of_filetype Directory = 2"
| "byte_of_filetype CharacterDevice = 3"
| "byte_of_filetype BlockDevice = 4"
| "byte_of_filetype Fifo = 5"
| "byte_of_filetype SymbolicLink = 6"
| "byte_of_filetype Socket = 7"

record stat =
  st_mode :: u32
  st_uid :: u32
  st_gid :: u32
  st_size :: u64
  st_mtime :: u64

record FileInfo =
  mType :: FileType
  mMode :: u32
  mUid :: u32
  mGid :: u32
  mExtension :: string
  mUserName :: string
  mGroupName :: string
  mLength :: u64
  mLastModifyTime :: u64

text \<open>The switch on \<^verbatim>\<open>st_mode & S_IFMT\<close>; a type it does not list leaves \<^verbatim>\<open>mType\<close> at \<^verbatim>\<open>FileNotFound\<close>.\<close>

definition type_of_mode :: "u32 \<Rightarrow> FileType" where
  "type_of_mode md =
     (let f = md AND 0xF000 in
      if f = 0x8000 then RegularFile
      else if f = 0x4000 then Directory
      else if f = 0xA000 then SymbolicLink
      else if f = 0x6000 then BlockDevice
      else if f = 0x2000 then CharacterDevice
      else if f = 0x1000 then Fifo
      else if f = 0xC000 then Socket
      else FileNotFound)"

definition FileInfo_new ::
    "(string \<Rightarrow> stat option) \<Rightarrow> (u32 \<Rightarrow> string option) \<Rightarrow> (u32 \<Rightarrow> string option) \<Rightarrow> FileInfo \<Rightarrow> string \<Rightarrow> FileInfo" where
  "FileInfo_new stat_of getpwuid getgrgid junk path =
     (let fi = junk\<lparr>mType := FileNotFound, mExtension := extension path, mUserName := [], mGroupName := []\<rparr> in
      (case stat_of path of
         None \<Rightarrow> fi
       | Some st \<Rightarrow>
           fi\<lparr>mUid := st_uid st,
              mUserName := (case getpwuid (st_uid st) of None \<Rightarrow> [] | Some n \<Rightarrow> n),
              mGid := st_gid st,
              mGroupName := (case getgrgid (st_gid st) of None \<Rightarrow> [] | Some n \<Rightarrow> n),
              mLength := st_size st,
              mLastModifyTime := st_mtime st,
              mMode := st_mode st AND 0xFFF,
              mType := type_of_mode (st_mode st)\<rparr>))"

definition FileInfo_exists :: "FileInfo \<Rightarrow> bool" where
  "FileInfo_exists fi \<longleftrightarrow> mType fi \<noteq> FileNotFound"

lemma FileInfo_new_missing: "stat_of p = None \<Longrightarrow> \<not> FileInfo_exists (FileInfo_new stat_of pw gr junk p)"
  by (simp add: FileInfo_new_def FileInfo_exists_def)

lemma FileInfo_new_mode: "stat_of p = Some st \<Longrightarrow> unat (mMode (FileInfo_new stat_of pw gr junk p)) < 4096"
proof -
  assume "stat_of p = Some st"
  moreover have "unat (st_mode st AND 0xFFF) < 4096"
    using word_and_le1 [of "st_mode st" "0xFFF"] by (simp add: word_le_nat_alt and.commute)
  ultimately show ?thesis by (simp add: FileInfo_new_def)
qed

end
