(* ===== verification/Snapshots.thy ===== *)
theory Snapshots
  imports Stream_Utils Std_Map File_Info
begin

text \<open>
  \<^verbatim>\<open>Snapshot\<close>: the file entries of a backup, with the strings and the object ids they refer to by
  index, and the format they are stored in. The mutex, which every public method holds throughout,
  makes the methods atomic; it is not modelled further.
\<close>

section \<open>State\<close>

record FileEntry =
  nameIndex :: u32
  pathIndex :: u32
  userIndex :: u32
  groupIndex :: u32
  fe_mode :: u16
  fe_compression :: byte
  fe_size :: u64
  fe_mtime :: u64
  fe_type :: byte
  fe_rollingHashBits :: byte
  fe_objectCount :: u16
  fe_md5 :: bytes
  fe_offset :: u32
  fe_packLength :: u32
  fe_objectIdIndex :: u32

record Snapshot =
  mStringTable :: "(string, int) smap"
  mStringBuffer :: string
  mObjectIDs :: "bytes list"
  mFiles :: "(string, FileEntry) smap"

definition Snapshot_new :: Snapshot where
  "Snapshot_new = \<lparr>mStringTable = [], mStringBuffer = [], mObjectIDs = [], mFiles = []\<rparr>"

section \<open>Strings and object ids\<close>

definition NUL :: char where "NUL = CHR 0x00"

text \<open>The C string a character pointer denotes, a conversion of \<^verbatim>\<open>size_t\<close> to \<^verbatim>\<open>int\<close> and rounding up to a
  multiple of four.\<close>

definition cstr :: "string \<Rightarrow> string" where
  "cstr p = takeWhile (\<lambda>c. c \<noteq> NUL) p"

definition to_int :: "nat \<Rightarrow> int" where
  "to_int n = sint (of_nat n :: u32)"

definition align4 :: "nat \<Rightarrow> nat" where
  "align4 n = (n + 3) div 4 * 4"

definition insertStringTable :: "string \<Rightarrow> Snapshot \<Rightarrow> int \<times> Snapshot" where
  "insertStringTable str0 s =
     (let str = cstr str0 in
      case smap_find str (mStringTable s) of
        Some i \<Rightarrow> (i, s)
      | None \<Rightarrow>
          let n = length str + 1;
              idx = length (mStringBuffer s);
              sz = align4 (idx + n) in
          (to_int idx,
           s\<lparr>mStringBuffer := mStringBuffer s @ str @ replicate (sz - idx - length str) NUL,
             mStringTable := smap_assign str (to_int idx) (mStringTable s)\<rparr>))"

definition addObjectIds :: "bytes list \<Rightarrow> int \<Rightarrow> Snapshot \<Rightarrow> int \<times> Snapshot" where
  "addObjectIds ids count s =
     (to_int (length (mObjectIDs s)), s\<lparr>mObjectIDs := mObjectIDs s @ take (nat count) ids\<rparr>)"

text \<open>\<^verbatim>\<open>indexToString\<close> returns a pointer into the buffer; reading a string that is not terminated inside the
  buffer is undefined behaviour. \<^verbatim>\<open>indexToObjectID\<close> gives the ids from the index on.\<close>

definition indexToString :: "Snapshot \<Rightarrow> int \<Rightarrow> exn + string" where
  "indexToString s n =
     (if n < 0 \<or> int (length (mStringBuffer s)) \<le> n then Inl IndexOutOfBoundException
      else if NUL \<notin> set (drop (nat n) (mStringBuffer s)) then Inl UndefinedBehaviour
      else Inr (cstr (drop (nat n) (mStringBuffer s))))"

definition indexToObjectID :: "Snapshot \<Rightarrow> int \<Rightarrow> exn + bytes list" where
  "indexToObjectID s n =
     (if n < 0 \<or> int (length (mObjectIDs s)) \<le> n then Inl IndexOutOfBoundException
      else Inr (drop (nat n) (mObjectIDs s)))"

section \<open>Entries\<close>

text \<open>\<open>insertStringTable\<close> four times, then the object ids.\<close>

definition addFileEntry ::
    "string \<Rightarrow> string \<Rightarrow> string \<Rightarrow> FileType \<Rightarrow> u16 \<Rightarrow> CompressionType \<Rightarrow> u64 \<Rightarrow> u64 \<Rightarrow> byte \<Rightarrow> bytes \<Rightarrow> u32 \<Rightarrow> u32 \<Rightarrow>
     int \<Rightarrow> bytes list \<Rightarrow> (Snapshot, unit) io" where
  "addFileEntry path user grp ftype md compr sz mtim bits md5 off plen objectCount objectIds = (\<lambda>s0.
     if objectCount > 65535 then Some (Inl InvalidArgumentException, s0)
     else
       let pathname = cstr path;
           (ni, s1) = insertStringTable (filename pathname) s0;
           (pi, s2) = insertStringTable (parent_path pathname) s1;
           (ui, s3) = insertStringTable user s2;
           (gi, s4) = insertStringTable grp s3;
           (oi, s5) = addObjectIds objectIds objectCount s4;
           fe = \<lparr>nameIndex = word_of_int ni, pathIndex = word_of_int pi, userIndex = word_of_int ui,
                 groupIndex = word_of_int gi, fe_mode = md, fe_compression = byte_of_compression compr,
                 fe_size = sz, fe_mtime = mtim, fe_type = byte_of_filetype ftype,
                 fe_rollingHashBits = bits, fe_objectCount = word_of_int objectCount,
                 fe_md5 = take MD5_DIGEST_LENGTH md5, fe_offset = off, fe_packLength = plen,
                 fe_objectIdIndex = word_of_int oi\<rparr> in
       Some (Inr (), s5\<lparr>mFiles := smap_insert (cstr path) fe (mFiles s5)\<rparr>))"

definition getFileEntry :: "string \<Rightarrow> Snapshot \<Rightarrow> FileEntry option" where
  "getFileEntry path s = smap_find (cstr path) (mFiles s)"

definition deleteFileEntry :: "string \<Rightarrow> Snapshot \<Rightarrow> Snapshot" where
  "deleteFileEntry path s = s\<lparr>mFiles := smap_erase (cstr path) (mFiles s)\<rparr>"

definition forEachFileEntry :: "Snapshot \<Rightarrow> (FileEntry \<Rightarrow> ('c, unit) io) \<Rightarrow> ('c, unit) io" where
  "forEachFileEntry s callback = feed (\<lambda>(k, fe). callback fe) (mFiles s)"

definition entry_path :: "Snapshot \<Rightarrow> FileEntry \<Rightarrow> exn + string" where
  "entry_path s fe =
     (case indexToString s (sint (pathIndex fe)) of
        Inl e \<Rightarrow> Inl e
      | Inr p \<Rightarrow> (case indexToString s (sint (nameIndex fe)) of Inl e \<Rightarrow> Inl e | Inr n \<Rightarrow> Inr (p @ ''/'' @ n)))"

definition strip_slashes :: "string \<Rightarrow> string" where
  "strip_slashes p = rev (dropWhile (\<lambda>c. c = CHR ''/'') (rev p))"

text \<open>The tests that end the iteration over a subtree: the path does not start with the search path, or
  continues it with something other than a separator.\<close>

definition in_subtree :: "string \<Rightarrow> string \<Rightarrow> bool" where
  "in_subtree searchPath filePath \<longleftrightarrow>
     take (length searchPath) filePath = searchPath \<and>
     (searchPath = [] \<or> length filePath = length searchPath \<or> filePath ! length searchPath = CHR ''/'')"

fun subtree_loop ::
    "Snapshot \<Rightarrow> string \<Rightarrow> (FileEntry \<Rightarrow> ('c, unit) io) \<Rightarrow> (string, FileEntry) smap \<Rightarrow> ('c, unit) io" where
  "subtree_loop s searchPath callback [] = return_io ()"
| "subtree_loop s searchPath callback ((k, fe) # m) =
     (case entry_path s fe of
        Inl e \<Rightarrow> throw_io e
      | Inr filePath \<Rightarrow>
          if \<not> in_subtree searchPath filePath then return_io ()
          else seq_io (callback fe) (subtree_loop s searchPath callback m))"

definition forEachFileEntry_subpath :: "Snapshot \<Rightarrow> string \<Rightarrow> (FileEntry \<Rightarrow> ('c, unit) io) \<Rightarrow> ('c, unit) io" where
  "forEachFileEntry_subpath s subpath callback =
     (let searchPath = strip_slashes (cstr subpath) in
      subtree_loop s searchPath callback (smap_lower_bound searchPath (mFiles s)))"

section \<open>Saving\<close>

definition byte_of_char :: "char \<Rightarrow> byte" where
  "byte_of_char c = of_nat (of_char c)"

definition char_of_byte :: "byte \<Rightarrow> char" where
  "char_of_byte b = char_of (unat b)"

definition save_entry :: "FileEntry \<Rightarrow> bytes list" where
  "save_entry fe =
     [word_to_le 4 (nameIndex fe), word_to_le 4 (pathIndex fe), word_to_le 4 (userIndex fe),
      word_to_le 4 (groupIndex fe), word_to_le 2 (fe_mode fe), word_to_le 1 (fe_compression fe),
      word_to_le 1 (0 :: byte), word_to_le 1 (fe_type fe), word_to_le 1 (fe_rollingHashBits fe),
      word_to_le 2 (fe_objectCount fe), word_to_le 8 (fe_size fe), word_to_le 8 (fe_mtime fe),
      fe_md5 fe, word_to_le 4 (fe_offset fe), word_to_le 4 (fe_packLength fe),
      word_to_le 4 (fe_objectIdIndex fe)]"

definition save_header :: "Snapshot \<Rightarrow> bytes list" where
  "save_header s =
     [word_to_le 4 (of_nat (length (mFiles s)) :: u32),
      word_to_le 4 (of_nat ((length (mStringBuffer s) + 3) div 4) :: u32),
      word_to_le 4 (of_nat (length (mObjectIDs s)) :: u32)]"

text \<open>The writes of \<^verbatim>\<open>save\<close>, in order. Writing the string buffer rounded up to a multiple of four would
  read behind its end were its size not such a multiple.\<close>

definition Snapshot_save :: "(bytes \<Rightarrow> ('o, unit) io) \<Rightarrow> Snapshot \<Rightarrow> ('o, unit) io" where
  "Snapshot_save wr s =
     seq_io (feed wr (save_header s))
    (seq_io (if align4 (length (mStringBuffer s)) = length (mStringBuffer s)
             then wr (map byte_of_char (mStringBuffer s)) else throw_io UndefinedBehaviour)
    (seq_io (feed wr (mObjectIDs s))
            (feed (\<lambda>(k, fe). feed wr (save_entry fe)) (mFiles s))))"

section \<open>Loading\<close>

definition load_entry :: "(nat \<Rightarrow> ('s, bytes) io) \<Rightarrow> ('s, FileEntry) io" where
  "load_entry rd =
     bind_io (readType rd 4) (\<lambda>ni. bind_io (readType rd 4) (\<lambda>pi.
     bind_io (readType rd 4) (\<lambda>ui. bind_io (readType rd 4) (\<lambda>gi.
     bind_io (readType rd 2) (\<lambda>md. bind_io (readType rd 1) (\<lambda>compr.
     bind_io (readType rd 1) (\<lambda>pad :: byte. bind_io (readType rd 1) (\<lambda>ty.
     bind_io (readType rd 1) (\<lambda>bits. bind_io (readType rd 2) (\<lambda>cnt.
     bind_io (readType rd 8) (\<lambda>sz. bind_io (readType rd 8) (\<lambda>mtim.
     bind_io (readExpected rd MD5_DIGEST_LENGTH) (\<lambda>md5. bind_io (readType rd 4) (\<lambda>off.
     bind_io (readType rd 4) (\<lambda>plen. bind_io (readType rd 4) (\<lambda>oi.
       return_io \<lparr>nameIndex = ni, pathIndex = pi, userIndex = ui, groupIndex = gi, fe_mode = md,
         fe_compression = compr, fe_size = sz, fe_mtime = mtim, fe_type = ty, fe_rollingHashBits = bits,
         fe_objectCount = cnt, fe_md5 = md5, fe_offset = off, fe_packLength = plen,
         fe_objectIdIndex = oi\<rparr>))))))))))))))))"

text \<open>The loop that enters the strings of the buffer into the table: at \<open>p\<close> a string, behind it its NUL and
  the padding.\<close>

fun skip_nuls :: "string \<Rightarrow> nat \<Rightarrow> nat" where
  "skip_nuls [] p = p"
| "skip_nuls (c # cs) p = (if c = NUL then skip_nuls cs (p + 1) else p)"

lemma skip_nuls_ge: "p \<le> skip_nuls cs p"
  by (induction cs p rule: skip_nuls.induct) auto

function index_strings :: "string \<Rightarrow> nat \<Rightarrow> (string, int) smap \<Rightarrow> exn + (string, int) smap" where
  "index_strings buf p tbl =
     (if p < length buf then
        if NUL \<notin> set (drop p buf) then Inl UndefinedBehaviour
        else
          let str = cstr (drop p buf);
              p' = p + length str + 1 in
          index_strings buf (skip_nuls (drop p' buf) p') (smap_assign str (to_int p) tbl)
      else Inr tbl)"
  by pat_completeness auto
termination
  by (relation "measure (\<lambda>(buf, p, tbl). length buf - p)")
     (auto intro!: diff_less_mono2 intro: less_le_trans [OF _ skip_nuls_ge])

declare index_strings.simps [simp del]

text \<open>\<^verbatim>\<open>resize\<close> drops or zero-fills; a short read throws, and what it leaves in the buffer is not modelled.\<close>

definition resize :: "nat \<Rightarrow> 'a \<Rightarrow> 'a list \<Rightarrow> 'a list" where
  "resize n z xs = take n xs @ replicate (n - length xs) z"

definition on_snapshot :: "(Snapshot \<Rightarrow> exn + Snapshot) \<Rightarrow> ('s \<times> Snapshot, unit) io" where
  "on_snapshot f = (\<lambda>(t, s). case f s of Inl e \<Rightarrow> Some (Inl e, (t, s)) | Inr s' \<Rightarrow> Some (Inr (), (t, s')))"

fun load_ids :: "(nat \<Rightarrow> ('s, bytes) io) \<Rightarrow> nat \<Rightarrow> nat \<Rightarrow> ('s \<times> Snapshot, unit) io" where
  "load_ids rd i 0 = return_io ()"
| "load_ids rd i (Suc n) =
     bind_io (on_input (readExpected rd SHA256_DIGEST_LENGTH)) (\<lambda>oid.
       seq_io (on_snapshot (\<lambda>s. Inr (s\<lparr>mObjectIDs := (mObjectIDs s)[i := oid]\<rparr>))) (load_ids rd (i + 1) n))"

fun load_entries :: "(nat \<Rightarrow> ('s, bytes) io) \<Rightarrow> nat \<Rightarrow> ('s \<times> Snapshot, unit) io" where
  "load_entries rd 0 = return_io ()"
| "load_entries rd (Suc n) =
     bind_io (on_input (load_entry rd)) (\<lambda>fe.
       seq_io (on_snapshot (\<lambda>s. case entry_path s fe of
                 Inl e \<Rightarrow> Inl e
               | Inr p \<Rightarrow> Inr (s\<lparr>mFiles := smap_assign p fe (mFiles s)\<rparr>)))
         (load_entries rd n))"

definition load_body :: "(nat \<Rightarrow> ('s, bytes) io) \<Rightarrow> nat \<Rightarrow> nat \<Rightarrow> nat \<Rightarrow> ('s \<times> Snapshot, unit) io" where
  "load_body rd numFiles stringTableSize numObjects =
     seq_io (on_snapshot (\<lambda>s. Inr (s\<lparr>mStringBuffer := resize stringTableSize NUL (mStringBuffer s)\<rparr>)))
    (bind_io (on_input (readExpected rd stringTableSize)) (\<lambda>buf.
     seq_io (on_snapshot (\<lambda>s. Inr (s\<lparr>mStringBuffer := map char_of_byte buf\<rparr>)))
    (seq_io (on_snapshot (\<lambda>s. map_sum id (\<lambda>tbl. s\<lparr>mStringTable := tbl\<rparr>)
               (index_strings (mStringBuffer s) 0 (mStringTable s))))
    (seq_io (on_snapshot (\<lambda>s. Inr (s\<lparr>mObjectIDs :=
               resize numObjects (replicate SHA256_DIGEST_LENGTH 0) (mObjectIDs s)\<rparr>)))
    (seq_io (load_ids rd 0 numObjects)
            (load_entries rd numFiles))))))"

definition Snapshot_load :: "(nat \<Rightarrow> ('s, bytes) io) \<Rightarrow> ('s \<times> Snapshot, unit) io" where
  "Snapshot_load rd =
     bind_io (on_input (readType rd 4)) (\<lambda>numFiles :: u32.
     bind_io (on_input (readType rd 4)) (\<lambda>words :: u32.
     bind_io (on_input (readType rd 4)) (\<lambda>numObjects :: u32.
       load_body rd (unat numFiles) (unat (words * 4)) (unat numObjects))))"

section \<open>The string buffer\<close>

lemma char_of_byte_of_char [simp]: "char_of_byte (byte_of_char c) = c"
proof -
  have "unat (of_nat (of_char c) :: byte) = of_char c"
    by (simp add: unsigned_of_nat take_bit_nat_eq_self_iff of_char_def nat_of_char_less_256 split: char.split)
  then show ?thesis by (simp add: char_of_byte_def byte_of_char_def)
qed

lemma map_char_of_byte [simp]: "map (char_of_byte \<circ> byte_of_char) cs = cs"
  by (induction cs) simp_all

lemma NUL_cstr [simp]: "NUL \<notin> set (cstr p)"
  by (auto simp: cstr_def dest: set_takeWhileD)

lemma cstr_id [simp]: "NUL \<notin> set p \<Longrightarrow> cstr p = p"
  by (simp add: cstr_def takeWhile_eq_all_conv) metis

lemma cstr_append_NUL: "NUL \<notin> set p \<Longrightarrow> cstr (p @ NUL # q) = p"
  by (simp add: cstr_def takeWhile_append2 takeWhile_tail) (metis (mono_tags, lifting) takeWhile_eq_all_conv)

lemma length_cstr: "length (cstr p) \<le> length p"
  by (simp add: cstr_def length_takeWhile_le)

text \<open>At \<open>i\<close> the buffer holds the string \<open>str\<close> and its NUL.\<close>

definition str_at :: "string \<Rightarrow> nat \<Rightarrow> string \<Rightarrow> bool" where
  "str_at buf i str \<longleftrightarrow> NUL \<notin> set str \<and> (\<exists>q. drop i buf = str @ NUL # q)"

lemma str_at_append: "str_at buf i str \<Longrightarrow> str_at (buf @ x) i str"
proof -
  assume *: "str_at buf i str"
  then have "i < length buf" unfolding str_at_def
    by (metis append_is_Nil_conv drop_eq_Nil linorder_not_le list.distinct(1))
  with * show ?thesis by (auto simp: str_at_def)
qed

lemma str_at_less: "str_at buf i str \<Longrightarrow> i < length buf"
  unfolding str_at_def by (metis append_is_Nil_conv drop_eq_Nil linorder_not_le list.distinct(1))

lemma str_at_unique: "str_at buf i x \<Longrightarrow> str_at buf i y \<Longrightarrow> x = y"
  unfolding str_at_def by (metis cstr_append_NUL)

lemma str_at_end: "NUL \<notin> set str \<Longrightarrow> 0 < n \<Longrightarrow> str_at (buf @ str @ replicate n NUL) (length buf) str"
  by (cases n) (auto simp: str_at_def)

lemma str_at_cstr: "i < length buf \<Longrightarrow> NUL \<in> set (drop i buf) \<Longrightarrow> str_at buf i (cstr (drop i buf))"
proof -
  assume "NUL \<in> set (drop i buf)"
  then obtain xs ys where "drop i buf = xs @ NUL # ys" "NUL \<notin> set xs" by (meson split_list_first)
  then show ?thesis by (auto simp: str_at_def cstr_append_NUL)
qed

lemma indexToString_str_at:
  assumes "str_at (mStringBuffer s) i str"
  shows "indexToString s (int i) = Inr str"
  using assms str_at_less [OF assms] by (auto simp: indexToString_def str_at_def cstr_append_NUL)

lemma to_int_small: "n < 2 ^ 31 \<Longrightarrow> to_int n = int n"
proof -
  assume n: "n < 2 ^ 31"
  then show ?thesis by (simp add: to_int_def signed_of_nat signed_take_bit_int_eq_self)
qed

lemma sint_word_small: "n < 2 ^ 31 \<Longrightarrow> sint (word_of_int (int n) :: u32) = int n"
  using to_int_small [of n] by (simp add: to_int_def)

lemma align4_dvd [simp]: "align4 (align4 n) = align4 n"
  by (simp add: align4_def)

lemma align4_bounds: "n \<le> align4 n" "align4 n \<le> n + 3"
  by (simp_all add: align4_def)

section \<open>The invariant\<close>

definition strings_inv :: "Snapshot \<Rightarrow> bool" where
  "strings_inv s \<longleftrightarrow>
     align4 (length (mStringBuffer s)) = length (mStringBuffer s) \<and> length (mStringBuffer s) < 2 ^ 31 \<and>
     (mStringBuffer s = [] \<or> last (mStringBuffer s) = NUL) \<and> smap_ok (mStringTable s) \<and>
     (\<forall>(str, i) \<in> set (mStringTable s). 0 \<le> i \<and> str_at (mStringBuffer s) (nat i) str)"

text \<open>What an entry refers to exists.\<close>

definition entry_inv :: "Snapshot \<Rightarrow> FileEntry \<Rightarrow> bool" where
  "entry_inv s fe \<longleftrightarrow>
     (\<forall>i \<in> {nameIndex fe, pathIndex fe, userIndex fe, groupIndex fe}.
        unat i < 2 ^ 31 \<and> (\<exists>str. str_at (mStringBuffer s) (unat i) str)) \<and>
     length (fe_md5 fe) = 16 \<and> unat (fe_objectIdIndex fe) + unat (fe_objectCount fe) \<le> length (mObjectIDs s)"

definition snap_inv :: "Snapshot \<Rightarrow> bool" where
  "snap_inv s \<longleftrightarrow> strings_inv s \<and> smap_ok (mFiles s) \<and> length (mFiles s) < 2 ^ 32 \<and>
     length (mObjectIDs s) < 2 ^ 31 \<and> (\<forall>oid \<in> set (mObjectIDs s). length oid = 32) \<and>
     (\<forall>(k, fe) \<in> set (mFiles s). entry_inv s fe)"

lemma snap_inv_new [simp]: "snap_inv Snapshot_new"
  by (simp add: snap_inv_def strings_inv_def Snapshot_new_def align4_def)

text \<open>Nothing but the string table and the string buffer changes, and the buffer only grows.\<close>

definition extends :: "Snapshot \<Rightarrow> Snapshot \<Rightarrow> bool" where
  "extends s s' \<longleftrightarrow> mFiles s' = mFiles s \<and> mObjectIDs s' = mObjectIDs s \<and>
     (\<exists>x. mStringBuffer s' = mStringBuffer s @ x)"

lemma extends_refl [simp]: "extends s s"
  by (simp add: extends_def)

lemma extends_trans: "extends s t \<Longrightarrow> extends t u \<Longrightarrow> extends s u"
  by (auto simp: extends_def)

lemma extends_str_at: "extends s s' \<Longrightarrow> str_at (mStringBuffer s) i str \<Longrightarrow> str_at (mStringBuffer s') i str"
  by (auto simp: extends_def intro: str_at_append)

lemma entry_inv_extends: "extends s s' \<Longrightarrow> entry_inv s fe \<Longrightarrow> entry_inv s' fe"
  unfolding entry_inv_def using extends_str_at [of s s'] by (auto simp: extends_def)

lemma insertStringTable_ok:
  assumes "strings_inv s" and "length (mStringBuffer s) + length str + 4 < 2 ^ 31"
  shows "\<exists>i s'. insertStringTable str s = (int i, s') \<and> i < 2 ^ 31 \<and> str_at (mStringBuffer s') i (cstr str)
     \<and> strings_inv s' \<and> extends s s' \<and> length (mStringBuffer s') \<le> length (mStringBuffer s) + length str + 4"
proof (cases "smap_find (cstr str) (mStringTable s)")
  case (Some i)
  then have "(cstr str, i) \<in> set (mStringTable s)" by (simp add: smap_find_def map_of_SomeD)
  with assms(1) have i: "0 \<le> i" "str_at (mStringBuffer s) (nat i) (cstr str)" by (auto simp: strings_inv_def)
  with str_at_less [OF i(2)] assms(1) have "nat i < 2 ^ 31" by (simp add: strings_inv_def)
  with i Some assms(1) show ?thesis
    by (intro exI [of _ "nat i"] exI [of _ s]) (simp add: insertStringTable_def)
next
  case None
  define idx where "idx = length (mStringBuffer s)"
  define sz where "sz = align4 (idx + (length (cstr str) + 1))"
  define pad where "pad = sz - idx - length (cstr str)"
  define s' where "s' = s\<lparr>mStringBuffer := mStringBuffer s @ cstr str @ replicate pad NUL,
      mStringTable := smap_assign (cstr str) (to_int idx) (mStringTable s)\<rparr>"
  have sz: "idx + length (cstr str) + 1 \<le> sz" "sz \<le> idx + length (cstr str) + 4"
    using align4_bounds [of "idx + (length (cstr str) + 1)"] by (simp_all add: sz_def)
  have small: "idx < 2 ^ 31" "sz < 2 ^ 31"
    using assms sz length_cstr [of str] by (auto simp: idx_def)
  have len: "length (mStringBuffer s') = sz" using sz by (simp add: s'_def pad_def idx_def)
  have ext: "extends s s'" by (auto simp: extends_def s'_def)
  have at: "str_at (mStringBuffer s') idx (cstr str)"
    using str_at_end [of "cstr str" pad "mStringBuffer s"] sz by (simp add: s'_def idx_def pad_def)
  have "\<forall>(x, i) \<in> set (mStringTable s'). 0 \<le> i \<and> str_at (mStringBuffer s') (nat i) x"
  proof -
    have "set (mStringTable s') \<subseteq> insert (cstr str, int idx) (set (mStringTable s))"
      using set_smap_assign_subset [of "cstr str" "int idx" "mStringTable s"]
      by (simp add: s'_def to_int_small [OF small(1)])
    then show ?thesis using at assms(1) extends_str_at [OF ext] by (fastforce simp: strings_inv_def)
  qed
  moreover have "last (mStringBuffer s') = NUL"
    using sz by (cases pad) (auto simp: s'_def pad_def last_append)
  moreover have "align4 (length (mStringBuffer s')) = length (mStringBuffer s')"
    unfolding len by (simp add: sz_def)
  moreover have "smap_ok (mStringTable s')" using assms(1) by (simp add: s'_def strings_inv_def)
  ultimately have "strings_inv s'" using len small(2) by (simp add: strings_inv_def)
  moreover have "insertStringTable str s = (int idx, s')"
    using None by (simp add: insertStringTable_def Let_def s'_def pad_def sz_def idx_def
        to_int_small [OF small(1), unfolded idx_def])
  ultimately show ?thesis using at ext len sz small length_cstr [of str]
    by (intro exI [of _ idx] exI [of _ s']) (auto simp: idx_def)
qed

lemma set_filename: "set (filename p) \<subseteq> insert CHR ''.'' (set p)"
  by (auto simp: filename_def Let_def dest: in_set_dropD)

lemma set_parent_path: "set (parent_path p) \<subseteq> set p"
  by (auto simp: parent_path_def split: option.splits dest: in_set_takeD)

lemma cstr_filename [simp]: "NUL \<notin> set p \<Longrightarrow> cstr (filename p) = filename p"
  using set_filename [of p] by (intro cstr_id) (auto simp: NUL_def)

lemma cstr_parent_path [simp]: "NUL \<notin> set p \<Longrightarrow> cstr (parent_path p) = parent_path p"
  using set_parent_path [of p] by (intro cstr_id) auto

lemma length_filename: "length (filename p) \<le> Suc (length p)"
  by (simp add: filename_def Let_def le_SucI)

lemma length_parent_path: "length (parent_path p) \<le> length p"
  by (auto simp: parent_path_def split: option.splits)

section \<open>Adding entries\<close>

text \<open>The strings, the ids and the numbers of an entry, resolved in its snapshot.\<close>

definition entry_strings :: "Snapshot \<Rightarrow> FileEntry \<Rightarrow> string \<Rightarrow> string \<Rightarrow> string \<Rightarrow> string \<Rightarrow> bool" where
  "entry_strings s fe name dir user grp \<longleftrightarrow>
     indexToString s (sint (nameIndex fe)) = Inr name \<and> indexToString s (sint (pathIndex fe)) = Inr dir \<and>
     indexToString s (sint (userIndex fe)) = Inr user \<and> indexToString s (sint (groupIndex fe)) = Inr grp"

definition entry_ids :: "Snapshot \<Rightarrow> FileEntry \<Rightarrow> bytes list" where
  "entry_ids s fe = take (unat (fe_objectCount fe)) (drop (unat (fe_objectIdIndex fe)) (mObjectIDs s))"

lemma unat_word_of_int: "n < 2 ^ 31 \<Longrightarrow> unat (word_of_int (int n) :: u32) = n"
  by (simp add: unat_of_nat)

lemma indexToString_u32:
  "n < 2 ^ 31 \<Longrightarrow> str_at (mStringBuffer s) n str \<Longrightarrow> indexToString s (sint (word_of_int (int n) :: u32)) = Inr str"
  by (simp only: sint_word_small indexToString_str_at)

lemma addObjectIds_ok:
  assumes "length (mObjectIDs s) < 2 ^ 31" and "count = int (length ids)"
  shows "addObjectIds ids count s = (int (length (mObjectIDs s)), s\<lparr>mObjectIDs := mObjectIDs s @ ids\<rparr>)"
  using assms by (simp add: addObjectIds_def to_int_small)

lemma addFileEntry_ok:
  assumes inv: "snap_inv s" and path: "NUL \<notin> set path" and ids: "length ids \<le> 65535" "\<forall>oid \<in> set ids. length oid = 32"
    and buf: "length (mStringBuffer s) + 2 * length path + length user + length grp + 20 < 2 ^ 31"
    and room: "length (mObjectIDs s) + length ids < 2 ^ 31" "length (mFiles s) < 2 ^ 32 - 1" and md5: "length md5 = 16"
  shows "\<exists>s' fe. addFileEntry path user grp ftype md compr sz mtim bits md5 off plen (int (length ids)) ids s = Some (Inr (), s')
     \<and> snap_inv s' \<and> mFiles s' = smap_insert path fe (mFiles s)
     \<and> entry_strings s' fe (filename path) (parent_path path) (cstr user) (cstr grp) \<and> entry_ids s' fe = ids
     \<and> (fe_mode fe, fe_compression fe, fe_size fe, fe_mtime fe, fe_type fe, fe_rollingHashBits fe, fe_md5 fe, fe_offset fe, fe_packLength fe)
        = (md, byte_of_compression compr, sz, mtim, byte_of_filetype ftype, bits, md5, off, plen)
     \<and> (\<exists>x. mStringBuffer s' = mStringBuffer s @ x) \<and> mObjectIDs s' = mObjectIDs s @ ids
     \<and> length (mStringBuffer s') \<le> length (mStringBuffer s) + 2 * length path + length user + length grp + 20"
proof -
  have lf: "length (filename path) \<le> Suc (length path)" "length (parent_path path) \<le> length path"
    by (rule length_filename, rule length_parent_path)
  have str: "strings_inv s" using inv by (simp add: snap_inv_def)
  obtain n s1 where s1: "insertStringTable (filename path) s = (int n, s1)" "n < 2 ^ 31"
    "str_at (mStringBuffer s1) n (filename path)" "strings_inv s1" "extends s s1"
    "length (mStringBuffer s1) \<le> length (mStringBuffer s) + length (filename path) + 4"
    using insertStringTable_ok [OF str, of "filename path"] buf lf path by auto
  obtain p s2 where s2: "insertStringTable (parent_path path) s1 = (int p, s2)" "p < 2 ^ 31"
    "str_at (mStringBuffer s2) p (parent_path path)" "strings_inv s2" "extends s1 s2"
    "length (mStringBuffer s2) \<le> length (mStringBuffer s1) + length (parent_path path) + 4"
    using insertStringTable_ok [OF s1(4), of "parent_path path"] buf lf path s1(6) by auto
  obtain u s3 where s3: "insertStringTable user s2 = (int u, s3)" "u < 2 ^ 31"
    "str_at (mStringBuffer s3) u (cstr user)" "strings_inv s3" "extends s2 s3"
    "length (mStringBuffer s3) \<le> length (mStringBuffer s2) + length user + 4"
    using insertStringTable_ok [OF s2(4), of user] buf lf s1(6) s2(6) by auto
  obtain g s4 where s4: "insertStringTable grp s3 = (int g, s4)" "g < 2 ^ 31"
    "str_at (mStringBuffer s4) g (cstr grp)" "strings_inv s4" "extends s3 s4"
    "length (mStringBuffer s4) \<le> length (mStringBuffer s3) + length grp + 4"
    using insertStringTable_ok [OF s3(4), of grp] buf lf s1(6) s2(6) s3(6) by auto
  have ext: "extends s s4" "extends s1 s4" "extends s2 s4"
    using s1(5) s2(5) s3(5) s4(5) extends_trans by blast+
  have at: "str_at (mStringBuffer s4) n (filename path)" "str_at (mStringBuffer s4) p (parent_path path)"
    "str_at (mStringBuffer s4) u (cstr user)" "str_at (mStringBuffer s4) g (cstr grp)"
    using s1(3) s2(3) s3(3) s4(3,5) ext extends_str_at by blast+
  define oi where "oi = length (mObjectIDs s)"
  have oi: "oi < 2 ^ 31" "mObjectIDs s4 = mObjectIDs s" "mFiles s4 = mFiles s"
    using room(1) ext(1) by (auto simp: oi_def extends_def)
  define fe where "fe = \<lparr>nameIndex = word_of_int (int n), pathIndex = word_of_int (int p), userIndex = word_of_int (int u),
     groupIndex = word_of_int (int g), fe_mode = md, fe_compression = byte_of_compression compr,
     fe_size = sz, fe_mtime = mtim, fe_type = byte_of_filetype ftype, fe_rollingHashBits = bits,
     fe_objectCount = word_of_int (int (length ids)), fe_md5 = md5, fe_offset = off, fe_packLength = plen,
     fe_objectIdIndex = word_of_int (int oi)\<rparr>"
  define s5 where "s5 = s4\<lparr>mObjectIDs := mObjectIDs s @ ids\<rparr>"
  define s' where "s' = s5\<lparr>mFiles := smap_insert path fe (mFiles s)\<rparr>"
  have add: "addObjectIds ids (int (length ids)) s4 = (int oi, s5)"
    using addObjectIds_ok [of s4 "int (length ids)" ids] oi by (simp add: s5_def oi_def)
  have run: "addFileEntry path user grp ftype md compr sz mtim bits md5 off plen (int (length ids)) ids s = Some (Inr (), s')"
    using ids(1) path md5 oi(3)
    by (simp add: addFileEntry_def s1(1) s2(1) s3(1) s4(1) add Let_def s'_def fe_def s5_def MD5_DIGEST_LENGTH_def)
  have cnt: "unat (word_of_int (int (length ids)) :: u16) = length ids" using ids(1) by (simp add: unat_of_nat)
  have buf': "mStringBuffer s' = mStringBuffer s4" "mObjectIDs s' = mObjectIDs s @ ids" by (simp_all add: s'_def s5_def)
  have fe_inv: "entry_inv s' fe"
    using at s1(2) s2(2) s3(2) s4(2) md5 cnt oi(1) unfolding entry_inv_def buf'
    by (auto simp: fe_def oi_def unat_of_nat)
  have old: "entry_inv s' f" if "entry_inv s f" for f
    using entry_inv_extends [OF ext(1) that] oi(2) unfolding entry_inv_def buf' by auto
  have "strings_inv s'" using s4(4) by (simp add: strings_inv_def s'_def s5_def)
  moreover have "\<forall>(k, f) \<in> set (mFiles s'). entry_inv s' f"
  proof (clarify)
    fix k f
    assume "(k, f) \<in> set (mFiles s')"
    then have "f = fe \<or> (k, f) \<in> set (mFiles s)"
      using set_smap_insert_subset [of path fe "mFiles s"] by (auto simp: s'_def)
    then show "entry_inv s' f" using inv old fe_inv by (auto simp: snap_inv_def)
  qed
  ultimately have "snap_inv s'"
    using inv ids(2) room length_smap_insert [of path fe "mFiles s"] by (auto simp: snap_inv_def s'_def s5_def)
  moreover have "entry_strings s' fe (filename path) (parent_path path) (cstr user) (cstr grp)"
    unfolding entry_strings_def using at s1(2) s2(2) s3(2) s4(2)
    by (auto simp: fe_def buf' intro!: indexToString_u32 simp del: of_int_of_nat_eq)
  moreover have "entry_ids s' fe = ids"
    using cnt unat_word_of_int [OF oi(1)] by (simp add: entry_ids_def fe_def buf'(2)) (simp add: oi_def)
  moreover have "length (mStringBuffer s') \<le> length (mStringBuffer s) + 2 * length path + length user + length grp + 20"
    using s1(6) s2(6) s3(6) s4(6) lf by (simp add: buf'(1))
  moreover have "\<exists>x. mStringBuffer s' = mStringBuffer s @ x" using ext(1) by (simp add: extends_def buf'(1))
  ultimately show ?thesis using run buf'(2)
    by (intro exI [of _ s'] exI [of _ fe]) (simp add: s'_def fe_def)
qed

section \<open>The stored form\<close>

definition entry_bytes :: "FileEntry \<Rightarrow> bytes" where
  "entry_bytes fe = concat (save_entry fe)"

definition snapshot_bytes :: "Snapshot \<Rightarrow> bytes" where
  "snapshot_bytes s = concat (save_header s) @ map byte_of_char (mStringBuffer s) @ concat (mObjectIDs s)
     @ concat (map (\<lambda>(k, fe). entry_bytes fe) (mFiles s))"

lemma feed_append: "feed f (xs @ ys) = seq_io (feed f xs) (feed f ys)"
  by (induction xs) (simp_all add: seq_io_def bind_io_assoc)

lemma feed_feed: "feed (\<lambda>x. feed f (g x)) xs = feed f (concat (map g xs))"
  by (induction xs) (simp_all add: feed_append seq_io_def)

lemma feed_single: "feed f [x] = f x"
  by (rule ext) (auto simp: bind_io_def split: option.splits sum.splits)

lemma Snapshot_save_feed:
  assumes "strings_inv s"
  shows "Snapshot_save wr s = feed wr (save_header s @ [map byte_of_char (mStringBuffer s)] @ mObjectIDs s
     @ concat (map (\<lambda>(k, fe). save_entry fe) (mFiles s)))"
proof -
  have "feed (\<lambda>(k, fe). feed wr (save_entry fe)) (mFiles s) = feed wr (concat (map (\<lambda>(k, fe). save_entry fe) (mFiles s)))"
    using feed_feed [of wr "\<lambda>(k, fe). save_entry fe" "mFiles s"] by (simp add: split_def)
  moreover have "wr b = feed wr [b]" for b by (simp only: feed_single)
  ultimately show ?thesis
    using assms by (simp only: Snapshot_save_def strings_inv_def feed_append) simp
qed

lemma concat_entry_bytes:
  "concat (concat (map (\<lambda>(k, fe). save_entry fe) m)) = concat (map (\<lambda>(k, fe). entry_bytes fe) m)"
  by (induction m) (auto simp: entry_bytes_def)

context output_stream
begin

lemma Snapshot_save_ok:
  assumes "strings_inv s" and "room t (length (snapshot_bytes s) + k)"
  shows "\<exists>t'. Snapshot_save emit s t = Some (Inr (), t') \<and> written t' = written t @ snapshot_bytes s \<and> room t' k"
  using feed_write_ok [of t "save_header s @ [map byte_of_char (mStringBuffer s)] @ mObjectIDs s
     @ concat (map (\<lambda>(k, fe). save_entry fe) (mFiles s))" k] assms
  by (simp add: Snapshot_save_feed concat_entry_bytes snapshot_bytes_def)

end

section \<open>Reading it back\<close>

lemma on_input_run: "m t = Some (x, t') \<Longrightarrow> on_input m (t, s) = Some (x, (t', s))"
  by (simp add: on_input_def)

lemma on_snapshot_run [simp]: "f s = Inr s' \<Longrightarrow> on_snapshot f (t, s) = Some (Inr (), (t, s'))"
  by (simp add: on_snapshot_def)

context input_stream
begin

lemma parses_load_entry:
  assumes "length (fe_md5 fe) = 16"
  shows "parses rest inv (load_entry read) fe (entry_bytes fe)"
proof -
  have md5: "parses rest inv (readExpected read 16) (fe_md5 fe) (fe_md5 fe)"
    using assms by (simp add: parses_readExpected)
  have "parses rest inv (load_entry read) fe (concat (save_entry fe))"
    unfolding load_entry_def save_entry_def concat.simps MD5_DIGEST_LENGTH_def
    by ((rule parses_bind parses_readType md5 | simp)+, cases fe, simp add: parses_return)
  then show ?thesis by (simp add: entry_bytes_def)
qed

lemma load_ids_ok:
  "inv t \<Longrightarrow> rest t = concat ids @ tail \<Longrightarrow> \<forall>oid \<in> set ids. length oid = 32 \<Longrightarrow>
   mObjectIDs s = front @ zs \<Longrightarrow> length zs = length ids \<Longrightarrow>
   \<exists>t'. load_ids read (length front) (length ids) (t, s) = Some (Inr (), (t', s\<lparr>mObjectIDs := front @ ids\<rparr>))
      \<and> rest t' = tail \<and> inv t'"
proof (induction ids arbitrary: t s front zs)
  case (Cons oid ids)
  obtain z zs' where zs: "zs = z # zs'" using Cons.prems(5) by (cases zs) auto
  obtain t1 where t1: "readExpected read 32 t = Some (Inr oid, t1)" "rest t1 = concat ids @ tail" "inv t1"
    using Cons.prems(1-3) parses_readExpected [of 32 oid] by (auto elim!: parsesE [of _ _ _ _ _ t])
  have "mObjectIDs (s\<lparr>mObjectIDs := (mObjectIDs s)[length front := oid]\<rparr>) = (front @ [oid]) @ zs'"
    using Cons.prems(4) zs by simp
  from Cons.IH [OF t1(3,2) _ this] Cons.prems(3,5) zs obtain t' where
    "load_ids read (length (front @ [oid])) (length ids) (t1, s\<lparr>mObjectIDs := (mObjectIDs s)[length front := oid]\<rparr>)
       = Some (Inr (), (t', s\<lparr>mObjectIDs := (front @ [oid]) @ ids\<rparr>))" "rest t' = tail" "inv t'" by auto
  then show ?case using t1(1) by (simp add: on_input_def SHA256_DIGEST_LENGTH_def)
qed simp

lemma load_entries_ok:
  "inv t \<Longrightarrow> rest t = concat (map entry_bytes fes) @ tail \<Longrightarrow> \<forall>fe \<in> set fes. length (fe_md5 fe) = 16 \<Longrightarrow>
   \<forall>fe \<in> set fes. entry_path s fe = Inr (key fe) \<Longrightarrow>
   \<exists>t'. load_entries read (length fes) (t, s) =
          Some (Inr (), (t', s\<lparr>mFiles := foldl (\<lambda>m fe. smap_assign (key fe) fe m) (mFiles s) fes\<rparr>))
      \<and> rest t' = tail \<and> inv t'"
proof (induction fes arbitrary: t s)
  case (Cons fe fes)
  obtain t1 where t1: "load_entry read t = Some (Inr fe, t1)" "rest t1 = concat (map entry_bytes fes) @ tail" "inv t1"
    using Cons.prems(1-3) parses_load_entry [of fe] by (auto elim!: parsesE [of _ _ _ _ _ t])
  define s1 where "s1 = s\<lparr>mFiles := smap_assign (key fe) fe (mFiles s)\<rparr>"
  have "entry_path s1 f = entry_path s f" for f by (simp add: entry_path_def indexToString_def s1_def)
  with Cons.IH [OF t1(3,2), of s1] Cons.prems(3,4) obtain t' where
    "load_entries read (length fes) (t1, s1) =
       Some (Inr (), (t', s1\<lparr>mFiles := foldl (\<lambda>m fe. smap_assign (key fe) fe m) (mFiles s1) fes\<rparr>))"
    "rest t' = tail" "inv t'" by auto
  then show ?case using t1(1) Cons.prems(4) by (simp add: on_input_def s1_def)
qed simp

end

text \<open>Indexing a buffer that ends with a NUL succeeds, and the table it builds is right.\<close>

lemma index_strings_ok:
  "buf = [] \<or> last buf = NUL \<Longrightarrow> length buf < 2 ^ 31 \<Longrightarrow> smap_ok tbl \<Longrightarrow>
   (\<forall>(str, i) \<in> set tbl. 0 \<le> i \<and> str_at buf (nat i) str) \<Longrightarrow>
   \<exists>tbl'. index_strings buf p tbl = Inr tbl' \<and> smap_ok tbl' \<and> (\<forall>(str, i) \<in> set tbl'. 0 \<le> i \<and> str_at buf (nat i) str)"
proof (induction buf p tbl rule: index_strings.induct)
  case (1 buf p tbl)
  show ?case
  proof (cases "p < length buf")
    case False
    with 1 show ?thesis by (simp add: index_strings.simps)
  next
    case True
    have nul: "NUL \<in> set (drop p buf)"
      using True 1(2) by (metis drop_eq_Nil last_drop last_in_set linorder_not_le list.size(3) not_less_zero)
    define str where "str = cstr (drop p buf)"
    have p: "to_int p = int p" using True 1(3) by (intro to_int_small) simp
    have at: "str_at buf p str" unfolding str_def by (rule str_at_cstr [OF True nul])
    have "\<forall>(x, i) \<in> set (smap_assign str (to_int p) tbl). 0 \<le> i \<and> str_at buf (nat i) x"
      using 1(5) at set_smap_assign_subset [of str "to_int p" tbl] by (fastforce simp: p)
    then have "\<exists>tbl'. index_strings buf (skip_nuls (drop (p + length str + 1) buf) (p + length str + 1))
         (smap_assign str (to_int p) tbl) = Inr tbl' \<and> smap_ok tbl' \<and> (\<forall>(str, i) \<in> set tbl'. 0 \<le> i \<and> str_at buf (nat i) str)"
      using 1(1) [OF True, of str "p + length str + 1"] 1(2,3,4) nul by (simp add: str_def)
    then show ?thesis using True nul by (subst index_strings.simps) (simp add: str_def Let_def)
  qed
qed

lemma sint_u32: "unat (i :: u32) < 2 ^ 31 \<Longrightarrow> sint i = int (unat i)"
  using sint_word_small [of "unat i"] by simp

lemma entry_index_ok:
  assumes "entry_inv s fe"
  obtains n d where "unat (nameIndex fe) < 2 ^ 31" "str_at (mStringBuffer s) (unat (nameIndex fe)) n"
    "unat (pathIndex fe) < 2 ^ 31" "str_at (mStringBuffer s) (unat (pathIndex fe)) d"
  using assms unfolding entry_inv_def by blast

lemma indexToString_sint:
  "unat (i :: u32) < 2 ^ 31 \<Longrightarrow> str_at (mStringBuffer s) (unat i) str \<Longrightarrow> indexToString s (sint i) = Inr str"
  by (simp only: sint_u32 indexToString_str_at)

lemma entry_path_append:
  assumes "entry_inv s fe" and "mStringBuffer s' = mStringBuffer s @ x"
  shows "entry_path s' fe = entry_path s fe"
proof -
  obtain n d where i: "unat (nameIndex fe) < 2 ^ 31" "str_at (mStringBuffer s) (unat (nameIndex fe)) n"
    "unat (pathIndex fe) < 2 ^ 31" "str_at (mStringBuffer s) (unat (pathIndex fe)) d"
    using entry_index_ok [OF assms(1)] by blast
  have i': "str_at (mStringBuffer s') (unat (nameIndex fe)) n" "str_at (mStringBuffer s') (unat (pathIndex fe)) d"
    unfolding assms(2) by (rule str_at_append, rule i)+
  show ?thesis unfolding entry_path_def
    by (simp only: indexToString_sint [OF i(1,2)] indexToString_sint [OF i(3,4)]
        indexToString_sint [OF i(1) i'(1)] indexToString_sint [OF i(3) i'(2)])
qed

text \<open>The path under which \<^verbatim>\<open>load\<close> enters an entry: its directory, a separator and its name.\<close>

definition entry_key :: "Snapshot \<Rightarrow> FileEntry \<Rightarrow> string" where
  "entry_key s fe = (case entry_path s fe of Inl _ \<Rightarrow> [] | Inr p \<Rightarrow> p)"

lemma entry_path_key: "entry_inv s fe \<Longrightarrow> entry_path s fe = Inr (entry_key s fe)"
proof -
  assume "entry_inv s fe"
  then obtain n d where "indexToString s (sint (nameIndex fe)) = Inr n" "indexToString s (sint (pathIndex fe)) = Inr d"
    using entry_index_ok indexToString_sint by metis
  then show ?thesis by (simp add: entry_key_def entry_path_def)
qed

lemma header_words:
  assumes "strings_inv s"
  shows "unat (of_nat ((length (mStringBuffer s) + 3) div 4) * 4 :: u32) = length (mStringBuffer s)"
proof -
  have len: "(length (mStringBuffer s) + 3) div 4 * 4 = length (mStringBuffer s)" "length (mStringBuffer s) < 2 ^ 31"
    using assms by (auto simp: strings_inv_def align4_def)
  have "(of_nat ((length (mStringBuffer s) + 3) div 4) * 4 :: u32) = of_nat ((length (mStringBuffer s) + 3) div 4 * 4)"
    by simp
  also have "unat \<dots> = length (mStringBuffer s)" unfolding len(1) using len(2) by (simp add: unat_of_nat)
  finally show ?thesis .
qed

definition rekeyed :: "Snapshot \<Rightarrow> (string, FileEntry) smap" where
  "rekeyed s = foldl (\<lambda>m fe. smap_assign (entry_key s fe) fe m) [] (map snd (mFiles s))"

context input_stream
begin

lemma Snapshot_load_ok:
  assumes "inv t" and "snap_inv s" and "rest t = snapshot_bytes s @ tail"
  shows "\<exists>t' tbl. Snapshot_load read (t, Snapshot_new) = Some (Inr (), (t',
       \<lparr>mStringTable = tbl, mStringBuffer = mStringBuffer s, mObjectIDs = mObjectIDs s, mFiles = rekeyed s\<rparr>))
     \<and> rest t' = tail \<and> inv t' \<and> smap_ok tbl
     \<and> (\<forall>(str, i) \<in> set tbl. 0 \<le> i \<and> str_at (mStringBuffer s) (nat i) str)"
proof -
  have str: "strings_inv s" using assms(2) by (simp add: snap_inv_def)
  let ?nf = "of_nat (length (mFiles s)) :: u32" and ?nw = "of_nat ((length (mStringBuffer s) + 3) div 4) :: u32"
    and ?no = "of_nat (length (mObjectIDs s)) :: u32"
  let ?strs = "map byte_of_char (mStringBuffer s)" and ?fes = "map snd (mFiles s)"
  have sizes: "unat ?nf = length (mFiles s)" "unat ?no = length (mObjectIDs s)" "unat (?nw * 4) = length (mStringBuffer s)"
    using assms(2) header_words [OF str] by (simp_all add: snap_inv_def unat_of_nat)
  have files: "concat (map (\<lambda>(k, fe). entry_bytes fe) (mFiles s)) = concat (map entry_bytes ?fes)"
    by (simp add: comp_def split_def)
  obtain t1 where t1: "readType read 4 t = Some (Inr ?nf, t1)" "inv t1"
    "rest t1 = word_to_le 4 ?nw @ word_to_le 4 ?no @ ?strs @ concat (mObjectIDs s) @ concat (map entry_bytes ?fes) @ tail"
    using readType_ok [OF assms(1), of 4 ?nf] assms(3) by (auto simp: snapshot_bytes_def save_header_def files)
  obtain t2 where t2: "readType read 4 t1 = Some (Inr ?nw, t2)" "inv t2"
    "rest t2 = word_to_le 4 ?no @ ?strs @ concat (mObjectIDs s) @ concat (map entry_bytes ?fes) @ tail"
    using readType_ok [OF t1(2,3)] by auto
  obtain t3 where t3: "readType read 4 t2 = Some (Inr ?no, t3)" "inv t3"
    "rest t3 = ?strs @ concat (mObjectIDs s) @ concat (map entry_bytes ?fes) @ tail"
    using readType_ok [OF t2(2,3)] by auto
  have "length (mStringBuffer s) < 2 ^ 63" using str by (simp add: strings_inv_def)
  then obtain t4 where t4: "readExpected read (length (mStringBuffer s)) t3 = Some (Inr ?strs, t4)" "inv t4"
    "rest t4 = concat (mObjectIDs s) @ concat (map entry_bytes ?fes) @ tail"
    using readExpected_ok [OF t3(2), of "length (mStringBuffer s)"] t3(3) by auto
  obtain tbl where tbl: "index_strings (mStringBuffer s) 0 [] = Inr tbl" "smap_ok tbl"
    "\<forall>(str, i) \<in> set tbl. 0 \<le> i \<and> str_at (mStringBuffer s) (nat i) str"
    using index_strings_ok [of "mStringBuffer s" "[]" 0] str by (auto simp: strings_inv_def)
  define s1 where "s1 = \<lparr>mStringTable = tbl, mStringBuffer = mStringBuffer s,
    mObjectIDs = replicate (length (mObjectIDs s)) (replicate 32 (0 :: byte)), mFiles = []\<rparr>"
  define s2 where "s2 = s1\<lparr>mObjectIDs := mObjectIDs s\<rparr>"
  obtain t5 where t5: "load_ids read 0 (length (mObjectIDs s)) (t4, s1) = Some (Inr (), (t5, s2))" "inv t5"
    "rest t5 = concat (map entry_bytes ?fes) @ tail"
    using load_ids_ok [OF t4(2,3), of s1 "[]" "mObjectIDs s1"] assms(2) by (auto simp: snap_inv_def s1_def s2_def)
  have same: "entry_path s2 fe = entry_path s fe" for fe
    by (simp add: entry_path_def indexToString_def s2_def s1_def)
  have entries: "\<forall>fe \<in> set ?fes. entry_inv s fe" using assms(2) by (auto simp: snap_inv_def)
  have paths: "\<forall>fe \<in> set ?fes. entry_path s2 fe = Inr (entry_key s fe)"
    using entries unfolding same by (blast intro: entry_path_key)
  have md5: "\<forall>fe \<in> set ?fes. length (fe_md5 fe) = 16" using entries unfolding entry_inv_def by blast
  obtain t6 where t6: "load_entries read (length (mFiles s)) (t5, s2) = Some (Inr (), (t6, s2\<lparr>mFiles := rekeyed s\<rparr>))"
    "rest t6 = tail" "inv t6"
    using load_entries_ok [OF t5(2,3) md5 paths] by (auto simp: rekeyed_def s2_def s1_def)
  have "Snapshot_load read (t, Snapshot_new) =
      load_body read (length (mFiles s)) (length (mStringBuffer s)) (length (mObjectIDs s)) (t3, Snapshot_new)"
  proof -
    have "on_input (readType read 4) (t, Snapshot_new) = Some (Inr ?nf, (t1, Snapshot_new))"
      "on_input (readType read 4) (t1, Snapshot_new) = Some (Inr ?nw, (t2, Snapshot_new))"
      "on_input (readType read 4) (t2, Snapshot_new) = Some (Inr ?no, (t3, Snapshot_new))"
      by (rule on_input_run, rule t1 t2 t3)+
    then show ?thesis by (simp only: Snapshot_load_def bind_io_Inr sizes)
  qed
  also have "\<dots> = Some (Inr (), (t6, s2\<lparr>mFiles := rekeyed s\<rparr>))"
    using t5(1) t6(1) unfolding s1_def
    by (simp add: load_body_def on_input_def t4(1) Snapshot_new_def tbl(1) resize_def SHA256_DIGEST_LENGTH_def)
  finally have "Snapshot_load read (t, Snapshot_new) = Some (Inr (), (t6, s2\<lparr>mFiles := rekeyed s\<rparr>))" .
  then show ?thesis using t6(2,3) tbl(2,3) by (auto simp: s2_def s1_def)
qed

end

section \<open>Properties\<close>

text \<open>Entries whose key is their directory, a separator and their name are entered again under the same key.\<close>

definition canonical :: "Snapshot \<Rightarrow> bool" where
  "canonical s \<longleftrightarrow> (\<forall>(k, fe) \<in> set (mFiles s). entry_path s fe = Inr k)"

lemma rekeyed_canonical:
  assumes "snap_inv s" and "canonical s"
  shows "rekeyed s = mFiles s"
proof -
  have "foldl (\<lambda>m fe. smap_assign (entry_key s fe) fe m) m0 (map snd xs) = foldl (\<lambda>m (k, fe). smap_assign k fe m) m0 xs"
    if "\<forall>(k, fe) \<in> set xs. entry_path s fe = Inr k" for xs m0
    using that by (induction xs arbitrary: m0) (auto simp: entry_key_def)
  with assms(2) have "rekeyed s = foldl (\<lambda>m (k, fe). smap_assign k fe m) [] (mFiles s)"
    unfolding canonical_def rekeyed_def by blast
  with foldl_smap_assign [of "[]" "mFiles s"] assms(1) show ?thesis by (simp add: snap_inv_def)
qed

lemma entry_inv_cong:
  "mStringBuffer s' = mStringBuffer s \<Longrightarrow> mObjectIDs s' = mObjectIDs s \<Longrightarrow> entry_inv s' fe = entry_inv s fe"
  by (simp add: entry_inv_def)

text \<open>Loading the bytes of a snapshot whose keys are canonical.\<close>

lemma Snapshot_load_snapshot:
  assumes "base_inv b" and "base_rest b = snapshot_bytes s @ tail" and "snap_inv s" and "canonical s"
  shows "\<exists>b' s'. Snapshot_load (is_read base_methods) (b, Snapshot_new) = Some (Inr (), (b', s'))
     \<and> snap_inv s' \<and> mFiles s' = mFiles s \<and> mStringBuffer s' = mStringBuffer s \<and> mObjectIDs s' = mObjectIDs s"
proof -
  obtain b' tbl where l: "Snapshot_load (is_read base_methods) (b, Snapshot_new) = Some (Inr (), (b',
       \<lparr>mStringTable = tbl, mStringBuffer = mStringBuffer s, mObjectIDs = mObjectIDs s, mFiles = mFiles s\<rparr>))"
    "smap_ok tbl" "\<forall>(str, i) \<in> set tbl. 0 \<le> i \<and> str_at (mStringBuffer s) (nat i) str"
    using base.Snapshot_load_ok [OF assms(1,3,2)] rekeyed_canonical [OF assms(3,4)] by auto
  have "snap_inv \<lparr>mStringTable = tbl, mStringBuffer = mStringBuffer s, mObjectIDs = mObjectIDs s, mFiles = mFiles s\<rparr>"
    (is "snap_inv ?s'")
  proof -
    have "entry_inv ?s' fe = entry_inv s fe" for fe by (rule entry_inv_cong) simp_all
    then show ?thesis using assms(3) l(2,3) unfolding snap_inv_def strings_inv_def by auto
  qed
  with l(1) show ?thesis
    by (intro exI [of _ b'] exI [of _ "\<lparr>mStringTable = tbl, mStringBuffer = mStringBuffer s, mObjectIDs = mObjectIDs s, mFiles = mFiles s\<rparr>"]) simp
qed


lemma canonical_insert:
  assumes "snap_inv s" and "canonical s" and "mFiles s' = smap_insert path fe (mFiles s)"
    and "entry_strings s' fe name dir user grp" and "\<exists>x. mStringBuffer s' = mStringBuffer s @ x" and "path = dir @ ''/'' @ name"
  shows "canonical s'"
proof -
  have new: "entry_path s' fe = Inr path" using assms(4,6) by (simp add: entry_path_def entry_strings_def)
  have old: "entry_path s' f = Inr k" if "(k, f) \<in> set (mFiles s)" for k f
  proof -
    have "entry_inv s f" "entry_path s f = Inr k" using that assms(1,2) by (auto simp: snap_inv_def canonical_def)
    then show ?thesis using entry_path_append assms(5) by metis
  qed
  show ?thesis
    using old new set_smap_insert_subset [of path fe "mFiles s"] unfolding canonical_def assms(3) by blast
qed

text \<open>C22. Adding an entry under a path of the form \<open>dir/name\<close>: the call succeeds, keeps the invariant and keeps all keys
  canonical; the path is found afterwards, with the strings, the object ids and the numbers given, unless it was
  present before, in which case the old entry stays; every other path is found as before.\<close>

theorem add_entry_lookup:
  assumes "snap_inv s" and "canonical s" and "path = dir @ ''/'' @ name" and "plain_dir dir" and "plain_name name"
    and "NUL \<notin> set path" and "length ids \<le> 65535" and "\<forall>oid \<in> set ids. length oid = 32" and "length md5 = 16"
    and "length (mStringBuffer s) + 2 * length path + length user + length grp + 20 < 2 ^ 31"
    and "length (mObjectIDs s) + length ids < 2 ^ 31" and "length (mFiles s) < 2 ^ 32 - 1"
  shows "\<exists>s' fe. addFileEntry path user grp ftype md compr sz mtim bits md5 off plen (int (length ids)) ids s = Some (Inr (), s')
     \<and> snap_inv s' \<and> canonical s'
     \<and> entry_strings s' fe name dir (cstr user) (cstr grp) \<and> entry_ids s' fe = ids
     \<and> (fe_mode fe, fe_compression fe, fe_size fe, fe_mtime fe, fe_type fe, fe_rollingHashBits fe, fe_md5 fe, fe_offset fe, fe_packLength fe)
        = (md, byte_of_compression compr, sz, mtim, byte_of_filetype ftype, bits, md5, off, plen)
     \<and> (\<forall>p. getFileEntry p s' = (if cstr p = path \<and> getFileEntry path s = None then Some fe else getFileEntry p s))"
proof -
  have fn: "filename path = name" "parent_path path = dir"
    using filename_dir [OF assms(4,5)] parent_path_dir [OF assms(4,5)] assms(3) by simp_all
  obtain s' fe where s': "addFileEntry path user grp ftype md compr sz mtim bits md5 off plen (int (length ids)) ids s = Some (Inr (), s')"
    "snap_inv s'" "mFiles s' = smap_insert path fe (mFiles s)" "entry_strings s' fe name dir (cstr user) (cstr grp)"
    "entry_ids s' fe = ids" "\<exists>x. mStringBuffer s' = mStringBuffer s @ x"
    "(fe_mode fe, fe_compression fe, fe_size fe, fe_mtime fe, fe_type fe, fe_rollingHashBits fe, fe_md5 fe, fe_offset fe, fe_packLength fe)
        = (md, byte_of_compression compr, sz, mtim, byte_of_filetype ftype, bits, md5, off, plen)"
    using addFileEntry_ok [OF assms(1,6,7,8,10,11,12,9)] fn by metis
  have ok: "smap_ok (mFiles s)" using assms(1) by (simp add: snap_inv_def)
  have "canonical s'" by (rule canonical_insert [OF assms(1,2) s'(3,4,6) assms(3)])
  moreover have "getFileEntry p s' = (if cstr p = path \<and> getFileEntry path s = None then Some fe else getFileEntry p s)" for p
    using smap.find_ins [OF ok, of "cstr p" path fe] assms(6) by (simp add: getFileEntry_def s'(3))
  ultimately show ?thesis using s'(1,2,4,5,7) by blast
qed

definition sample_snapshot :: Snapshot where
  "sample_snapshot = (case addFileEntry ''a/b'' ''me'' ''us'' RegularFile 420 LZMA2 3 7 0 (replicate 16 0) 0 0 1 [replicate 32 9] Snapshot_new of
     Some (_, s) \<Rightarrow> s | None \<Rightarrow> Snapshot_new)"

lemma sample_names: "plain_dir ''a''" "plain_name ''b''"
  by (simp_all add: plain_dir_def plain_name_def sep_at_def is_sep_def)

theorem add_entry_lookup_witness:
  "\<exists>s' fe. addFileEntry ''a/b'' ''me'' ''us'' RegularFile 420 LZMA2 3 7 0 (replicate 16 0) 0 0 1 [replicate 32 9] Snapshot_new = Some (Inr (), s')
     \<and> getFileEntry ''a/b'' s' = Some fe \<and> entry_ids s' fe = [replicate 32 9]"
proof -
  have "canonical Snapshot_new" by (simp add: canonical_def Snapshot_new_def)
  from add_entry_lookup [OF snap_inv_new this _ sample_names, of "''a/b''" "[replicate 32 9]" "replicate 16 0" "''me''" "''us''"
      RegularFile 420 LZMA2 3 7 0 0 0]
  obtain s' fe where "addFileEntry ''a/b'' ''me'' ''us'' RegularFile 420 LZMA2 3 7 0 (replicate 16 0) 0 0 1 [replicate 32 9] Snapshot_new
      = Some (Inr (), s')" "entry_ids s' fe = [replicate 32 9]"
    "\<And>p. getFileEntry p s' = (if cstr p = ''a/b'' \<and> getFileEntry ''a/b'' Snapshot_new = None then Some fe else getFileEntry p Snapshot_new)"
    by (auto simp: NUL_def Snapshot_new_def)
  moreover have "cstr ''a/b'' = ''a/b''" "getFileEntry ''a/b'' Snapshot_new = None"
    by (simp_all add: cstr_def NUL_def getFileEntry_def smap_find_def Snapshot_new_def)
  ultimately show ?thesis by auto
qed

lemma sample_snapshot_ok: "\<exists>s' fe. sample_snapshot = s' \<and> snap_inv s' \<and> canonical s' \<and> mFiles s' = [(''a/b'', fe)]"
proof -
  obtain s' fe where s': "addFileEntry ''a/b'' ''me'' ''us'' RegularFile 420 LZMA2 3 7 0 (replicate 16 0) 0 0 1 [replicate 32 9] Snapshot_new
      = Some (Inr (), s')" "snap_inv s'" "mFiles s' = smap_insert ''a/b'' fe (mFiles Snapshot_new)"
    "entry_strings s' fe (filename ''a/b'') (parent_path ''a/b'') (cstr ''me'') (cstr ''us'')"
    using addFileEntry_ok [OF snap_inv_new, of "''a/b''" "[replicate 32 9]" "''me''" "''us''" "replicate 16 0" RegularFile 420 LZMA2 3 7 0 0 0]
    by (auto simp: NUL_def Snapshot_new_def)
  have "filename ''a/b'' = ''b''" "parent_path ''a/b'' = ''a''"
    using filename_dir [OF sample_names] parent_path_dir [OF sample_names] by simp_all
  with s'(3,4) have "canonical s'" "mFiles s' = [(''a/b'', fe)]"
    by (simp_all add: canonical_def Snapshot_new_def entry_path_def entry_strings_def)
  moreover have "sample_snapshot = s'" by (simp add: sample_snapshot_def s'(1))
  ultimately show ?thesis using s'(2) by blast
qed


section \<open>Subtrees\<close>

lemma prefix_between: "p \<le> k \<Longrightarrow> k \<le> p @ r2 \<Longrightarrow> \<exists>r1. k = p @ r1 \<and> r1 \<le> (r2 :: string)"
proof (induction p arbitrary: k)
  case (Cons c p)
  then show ?case by (cases k) auto
qed simp

lemma prefix_le: "p \<le> p @ (r :: string)"
  by (induction p) simp_all

lemma in_subtree_iff:
  "in_subtree p k \<longleftrightarrow> p = [] \<or> (\<exists>r. k = p @ r \<and> (r = [] \<or> hd r = CHR ''/''))"
proof (cases "p = []")
  case False
  show ?thesis
  proof
    assume *: "in_subtree p k"
    then have "k = p @ drop (length p) k" by (metis append_take_drop_id in_subtree_def)
    moreover have "drop (length p) k = [] \<or> hd (drop (length p) k) = CHR ''/''"
      using * False by (cases "length k \<le> length p") (auto simp: in_subtree_def hd_drop_conv_nth)
    ultimately show "p = [] \<or> (\<exists>r. k = p @ r \<and> (r = [] \<or> hd r = CHR ''/''))" by blast
  next
    assume "p = [] \<or> (\<exists>r. k = p @ r \<and> (r = [] \<or> hd r = CHR ''/''))"
    then show "in_subtree p k" using False by (auto simp: in_subtree_def nth_append) (metis hd_conv_nth)
  qed
qed (simp add: in_subtree_def)

lemma takeWhile_filter:
  "sorted_wrt R xs \<Longrightarrow> (\<And>x y. x \<in> set xs \<Longrightarrow> y \<in> set xs \<Longrightarrow> R x y \<Longrightarrow> P y \<Longrightarrow> P x) \<Longrightarrow> takeWhile P xs = filter P xs"
proof (induction xs)
  case (Cons x xs)
  then have "\<not> P x \<Longrightarrow> filter P xs = []" by (auto simp: filter_empty_conv)
  with Cons show ?case by (cases "P x") auto
qed simp

lemma filter_dropWhile: "(\<And>x. x \<in> set xs \<Longrightarrow> Q x \<Longrightarrow> \<not> P x) \<Longrightarrow> filter P (dropWhile Q xs) = filter P xs"
  by (induction xs) auto

text \<open>No key continues the search path with a character below the separator, such as a blank, a dash or a dot.\<close>

definition no_interloper :: "string \<Rightarrow> (string, FileEntry) smap \<Rightarrow> bool" where
  "no_interloper p m \<longleftrightarrow> (\<forall>(k, fe) \<in> set m. \<forall>c r. p \<noteq> [] \<and> k = p @ c # r \<longrightarrow> \<not> c < CHR ''/'')"

lemma subtree_range:
  assumes "smap_ok m" and "no_interloper p m"
  shows "takeWhile (\<lambda>(k, fe). in_subtree p k) (smap_lower_bound p m) = filter (\<lambda>(k, fe). in_subtree p k) m"
proof -
  let ?L = "smap_lower_bound p m" and ?P = "\<lambda>(k, fe). in_subtree p k"
  have sub: "set ?L \<subseteq> set m" by (auto simp: smap_lower_bound_def dest: set_dropWhileD)
  have sorted: "sorted_wrt (\<lambda>x y. fst x < fst y) ?L"
  proof -
    have "sorted_wrt (\<lambda>x y. fst x < fst y) m" using assms(1) by (simp add: smap_ok_def sorted_wrt_map)
    then show ?thesis by (auto simp: smap_lower_bound_def dropWhile_eq_drop intro: sorted_wrt_drop)
  qed
  have ge: "p \<le> fst x" if "x \<in> set ?L" for x
  proof -
    obtain y ys where L: "?L = y # ys" using \<open>x \<in> set ?L\<close> by (cases ?L) auto
    then have "\<not> fst y < p" using hd_dropWhile [of "\<lambda>(k', v). k' < p" m]
      by (auto simp: smap_lower_bound_def split_def)
    then show ?thesis using that sorted L by force
  qed
  have "takeWhile ?P ?L = filter ?P ?L"
  proof (rule takeWhile_filter [OF sorted])
    fix x y
    assume *: "x \<in> set ?L" "y \<in> set ?L" "fst x < fst y" "?P y"
    then consider "p = []" | r where "fst y = p @ r" "r = [] \<or> hd r = CHR ''/''" "p \<noteq> []"
      by (auto simp: in_subtree_iff split_def)
    then show "?P x"
    proof cases
      case 2
      obtain r1 where r1: "fst x = p @ r1" "r1 \<le> r"
        using prefix_between [of p "fst x" r] ge [OF *(1)] *(3) 2(1) less_imp_le by metis
      have "r1 = [] \<or> hd r1 = CHR ''/''"
      proof (cases r1)
        case (Cons c cs)
        then have "c \<le> CHR ''/''" using r1(2) 2(2) by (cases r) auto
        moreover have "\<not> c < CHR ''/''"
          using assms(2) sub *(1) r1(1) Cons 2(3) unfolding no_interloper_def by (cases x) fastforce
        ultimately show ?thesis using Cons by simp
      qed simp
      with r1(1) show ?thesis by (auto simp: in_subtree_iff split_def)
    qed (simp add: in_subtree_iff split_def)
  qed
  also have "filter ?P ?L = filter ?P m"
    unfolding smap_lower_bound_def
  proof (rule filter_dropWhile)
    fix x assume "case x of (k', v) \<Rightarrow> k' < p"
    then show "\<not> ?P x" using prefix_le [of p] by (auto simp: in_subtree_iff split_def not_le [symmetric])
  qed
  finally show ?thesis .
qed

lemma subtree_loop_collect:
  "(\<forall>(k, fe) \<in> set m. entry_path s fe = Inr k) \<Longrightarrow>
   subtree_loop s p (\<lambda>fe. modify_io (\<lambda>l. l @ [fe])) m l =
     Some (Inr (), l @ map snd (takeWhile (\<lambda>(k, fe). in_subtree p k) m))"
proof (induction m arbitrary: l)
  case (Cons x m)
  then show ?case by (cases x) (auto simp: seq_io_def)
qed simp

text \<open>C30. The iteration over a subtree visits, in order, exactly the entries whose path is the given one or lies below it,
  provided no path continues the given one with a character that sorts before the separator.\<close>

theorem subtree_complete:
  assumes "snap_inv s" and "canonical s" and "no_interloper (strip_slashes (cstr subpath)) (mFiles s)"
  shows "forEachFileEntry_subpath s subpath (\<lambda>fe. modify_io (\<lambda>l. l @ [fe])) [] =
     Some (Inr (), map snd (filter (\<lambda>(k, fe). in_subtree (strip_slashes (cstr subpath)) k) (mFiles s)))"
proof -
  let ?p = "strip_slashes (cstr subpath)"
  have "\<forall>(k, fe) \<in> set (smap_lower_bound ?p (mFiles s)). entry_path s fe = Inr k"
    using assms(2) by (auto simp: canonical_def smap_lower_bound_def dest!: set_dropWhileD)
  moreover have "smap_ok (mFiles s)" using assms(1) by (simp add: snap_inv_def)
  ultimately show ?thesis
    using subtree_range [OF _ assms(3)] by (simp add: forEachFileEntry_subpath_def Let_def subtree_loop_collect)
qed

theorem subtree_complete_witness:
  "\<exists>fe. forEachFileEntry_subpath sample_snapshot ''a/'' (\<lambda>fe. modify_io (\<lambda>l. l @ [fe])) [] = Some (Inr (), [fe])"
proof -
  obtain s' fe where s': "sample_snapshot = s'" "snap_inv s'" "canonical s'" "mFiles s' = [(''a/b'', fe)]"
    using sample_snapshot_ok by blast
  have sp: "strip_slashes (cstr ''a/'') = ''a''" by (simp add: strip_slashes_def cstr_def NUL_def)
  have "no_interloper (strip_slashes (cstr ''a/'')) (mFiles s')"
    unfolding sp s'(4) by (auto simp: no_interloper_def)
  from subtree_complete [OF s'(2,3) this] show ?thesis
    unfolding sp s'(1) by (simp add: s'(4) in_subtree_def)
qed

text \<open>Without the proviso the iteration ends too early: with \<open>x/a-b\<close> and \<open>x/a/c\<close> in the snapshot, the iteration over
  \<open>x/a\<close> meets \<open>x/a-b\<close> first and stops before \<open>x/a/c\<close>.\<close>

definition interloper_snapshot :: Snapshot where
  "interloper_snapshot =
     \<lparr>mStringTable = [], mStringBuffer = ''x'' @ [NUL, NUL, NUL] @ ''a-b'' @ [NUL] @ ''x/a'' @ [NUL] @ ''c'' @ [NUL, NUL],
      mObjectIDs = [],
      mFiles = map (\<lambda>(k, p, n). (k, \<lparr>nameIndex = n, pathIndex = p, userIndex = 0, groupIndex = 0, fe_mode = 0,
        fe_compression = 0, fe_size = 0, fe_mtime = 0, fe_type = 1, fe_rollingHashBits = 0, fe_objectCount = 0,
        fe_md5 = [], fe_offset = 0, fe_packLength = 0, fe_objectIdIndex = 0\<rparr>))
        [(''x/a-b'', 0, 4), (''x/a/c'', 8, 12)]\<rparr>"

theorem subtree_stops_early:
  "canonical interloper_snapshot \<and> in_subtree ''x/a'' ''x/a/c'' \<and> getFileEntry ''x/a/c'' interloper_snapshot \<noteq> None \<and>
   forEachFileEntry_subpath interloper_snapshot ''x/a'' (\<lambda>fe. modify_io (\<lambda>l. l @ [fe])) [] = Some (Inr (), [])"
  by code_simp

end
