(* ===== verification/Data_Store.thy ===== *)
theory Data_Store
  imports Stream_Utils
begin

text \<open>
  The interface \<^verbatim>\<open>DataStore\<close>: its methods as a record over the state \<open>'d\<close> of the store and the state \<open>'p\<close> of the
  progress callback, and the contract the repository relies on as the locale \<open>data_store\<close>.
\<close>

section \<open>Streams handed to a store\<close>

text \<open>The input streams the repository hands to \<^verbatim>\<open>put\<close>: memory and file streams, an \<^verbatim>\<open>EncryptedHMACStream\<close>, and the
  \<^verbatim>\<open>MultiInputStream\<close> of encrypted streams that makes up a pack. \<^verbatim>\<open>get\<close> always writes to a \<^verbatim>\<open>TempFileStream\<close>.\<close>

datatype any_in = BaseIn base_in | EncIn enc_in | PackIn "enc_in MultiInputStream"

interpretation pack_in: multi_input EncryptedHMACStream_methods enc_rest enc_inv enc_whole
  by (rule multi_input.intro) (use enc_in.joined.rewindable_stream_axioms in simp)

abbreviation pack_methods :: "enc_in MultiInputStream instream" where
  "pack_methods \<equiv> MultiInputStream_methods EncryptedHMACStream_methods"

definition any_methods :: "any_in instream" where
  "any_methods =
     \<lparr>is_read = (\<lambda>n s. case s of BaseIn b \<Rightarrow> lift_in BaseIn (is_read base_methods n) b
                   | EncIn e \<Rightarrow> lift_in EncIn (is_read EncryptedHMACStream_methods n) e
                   | PackIn m \<Rightarrow> lift_in PackIn (is_read pack_methods n) m),
      is_skip = (\<lambda>n s. case s of BaseIn b \<Rightarrow> lift_in BaseIn (is_skip base_methods n) b
                   | EncIn e \<Rightarrow> lift_in EncIn (is_skip EncryptedHMACStream_methods n) e
                   | PackIn m \<Rightarrow> lift_in PackIn (is_skip pack_methods n) m),
      is_close = InputStream_close,
      is_canRewind = (\<lambda>s. case s of BaseIn b \<Rightarrow> is_canRewind base_methods b
                   | EncIn e \<Rightarrow> is_canRewind EncryptedHMACStream_methods e
                   | PackIn m \<Rightarrow> is_canRewind pack_methods m),
      is_rewind = (\<lambda>s. case s of BaseIn b \<Rightarrow> lift_in BaseIn (is_rewind base_methods) b
                   | EncIn e \<Rightarrow> lift_in EncIn (is_rewind EncryptedHMACStream_methods) e
                   | PackIn m \<Rightarrow> lift_in PackIn (is_rewind pack_methods) m),
      is_size = (\<lambda>s. case s of BaseIn b \<Rightarrow> lift_in BaseIn (is_size base_methods) b
                   | EncIn e \<Rightarrow> lift_in EncIn (is_size EncryptedHMACStream_methods) e
                   | PackIn m \<Rightarrow> lift_in PackIn (is_size pack_methods) m)\<rparr>"

fun any_rest :: "any_in \<Rightarrow> bytes" where
  "any_rest (BaseIn b) = base_rest b"
| "any_rest (EncIn e) = enc_rest e"
| "any_rest (PackIn m) = multi_rest enc_rest m"

fun any_whole :: "any_in \<Rightarrow> bytes" where
  "any_whole (BaseIn b) = base_whole b"
| "any_whole (EncIn e) = enc_whole e"
| "any_whole (PackIn m) = multi_whole enc_whole m"

fun any_inv :: "any_in \<Rightarrow> bool" where
  "any_inv (BaseIn b) = base_inv b"
| "any_inv (EncIn e) = enc_inv e"
| "any_inv (PackIn m) = multi_inv enc_inv m"

text \<open>The dispatch, one equation per class; a rewindable stream under a constructor is a rewindable stream.\<close>

lemma any_dispatch:
  shows "is_read any_methods n (BaseIn b) = lift_in BaseIn (is_read base_methods n) b"
    and "is_read any_methods n (EncIn e) = lift_in EncIn (is_read EncryptedHMACStream_methods n) e"
    and "is_read any_methods n (PackIn m) = lift_in PackIn (is_read pack_methods n) m"
    and "is_size any_methods (BaseIn b) = lift_in BaseIn (is_size base_methods) b"
    and "is_size any_methods (EncIn e) = lift_in EncIn (is_size EncryptedHMACStream_methods) e"
    and "is_size any_methods (PackIn m) = lift_in PackIn (is_size pack_methods) m"
  by (simp_all only: any_methods_def instream.simps any_in.case)

lemma any_read_ok:
  assumes "any_inv s" and "n < 2 ^ 63"
  shows "\<exists>s'. is_read any_methods n s = Some (Inr (take n (any_rest s)), s') \<and> any_rest s' = drop n (any_rest s)
     \<and> any_inv s' \<and> any_whole s' = any_whole s"
proof (cases s)
  case (BaseIn b)
  have b: "base_inv b" using assms(1) BaseIn by simp
  obtain b' where b': "is_read base_methods n b = Some (Inr (take n (base_rest b)), b')" "base_rest b' = drop n (base_rest b)"
    "base_inv b'" using base.read_ok [OF b assms(2)] by blast
  note w = base.read_whole [OF b assms(2) b'(1)]
  show ?thesis unfolding BaseIn any_dispatch
    by (rule exI [of _ "BaseIn b'"]) (simp only: lift_in_def b' w any_rest.simps any_whole.simps any_inv.simps option.map prod.case simp_thms)
next
  case (EncIn e)
  have b: "enc_inv e" using assms(1) EncIn by simp
  obtain b' where b': "is_read EncryptedHMACStream_methods n e = Some (Inr (take n (enc_rest e)), b')" "enc_rest b' = drop n (enc_rest e)"
    "enc_inv b'" using enc_in.joined.read_ok [OF b assms(2)] unfolding EncryptedHMACStream_methods_def by blast
  note w = enc_in.joined.read_whole [folded EncryptedHMACStream_methods_def, OF b assms(2) b'(1)]
  show ?thesis unfolding EncIn any_dispatch
    by (rule exI [of _ "EncIn b'"]) (simp only: lift_in_def b' w any_rest.simps any_whole.simps any_inv.simps option.map prod.case simp_thms)
next
  case (PackIn m)
  have b: "multi_inv enc_inv m" using assms(1) PackIn by simp
  obtain b' where b': "is_read pack_methods n m = Some (Inr (take n (multi_rest enc_rest m)), b')"
    "multi_rest enc_rest b' = drop n (multi_rest enc_rest m)" "multi_inv enc_inv b'"
    using pack_in.joined.read_ok [OF b assms(2)] by blast
  note w = pack_in.joined.read_whole [OF b assms(2) b'(1)]
  show ?thesis unfolding PackIn any_dispatch
    by (rule exI [of _ "PackIn b'"]) (simp only: lift_in_def b' w any_rest.simps any_whole.simps any_inv.simps option.map prod.case simp_thms)
qed

lemma any_size_ok:
  assumes "any_inv s"
  shows "is_size any_methods s = Some (Inr (int (length (any_whole s))), s)"
proof (cases s)
  case (BaseIn b)
  with assms base.size_law [of b] show ?thesis by (simp only: any_dispatch lift_in_def any_inv.simps any_whole.simps option.map prod.case)
next
  case (EncIn e)
  with assms enc_in.joined.size_law [folded EncryptedHMACStream_methods_def, of e] show ?thesis by (simp only: any_dispatch lift_in_def any_inv.simps any_whole.simps option.map prod.case)
next
  case (PackIn m)
  with assms pack_in.joined.size_law [of m] show ?thesis by (simp only: any_dispatch lift_in_def any_inv.simps any_whole.simps option.map prod.case)
qed

lemma any_rewind_ok:
  assumes "any_inv s"
  shows "is_canRewind any_methods s" "\<exists>s'. is_rewind any_methods s = Some (Inr (), s') \<and> any_rest s' = any_whole s \<and> any_whole s' = any_whole s \<and> any_inv s'"
proof -
  have "is_canRewind any_methods s
     \<and> (\<exists>s'. is_rewind any_methods s = Some (Inr (), s') \<and> any_rest s' = any_whole s \<and> any_whole s' = any_whole s \<and> any_inv s')"
  proof (cases s)
    case (BaseIn b)
    with assms base.canRewind_ok [of b] base.rewind_ok [of b] show ?thesis
      by (force simp: any_methods_def lift_in_def)
  next
    case (EncIn e)
    with assms enc_in.joined.canRewind_ok [folded EncryptedHMACStream_methods_def, of e] enc_in.joined.rewind_ok [folded EncryptedHMACStream_methods_def, of e]
    show ?thesis by (force simp: any_methods_def lift_in_def)
  next
    case (PackIn m)
    with assms pack_in.joined.canRewind_ok [of m] pack_in.joined.rewind_ok [of m] show ?thesis
      by (force simp: any_methods_def lift_in_def)
  qed
  then show "is_canRewind any_methods s" "\<exists>s'. is_rewind any_methods s = Some (Inr (), s') \<and> any_rest s' = any_whole s \<and> any_whole s' = any_whole s \<and> any_inv s'"
    by blast+
qed

interpretation any_in: input_stream "is_read any_methods" any_rest any_inv
  by unfold_locales (use any_read_ok in blast)

section \<open>The interface\<close>

text \<open>A progress function says whether to go on; it may change a state of its own.\<close>

type_synonym 'p progress = "int \<Rightarrow> int \<Rightarrow> 'p \<Rightarrow> bool \<times> 'p"

definition DefaultProgressFunction :: "'p progress" where
  "DefaultProgressFunction a b p = (True, p)"

definition DefaultFileTransferProgressFunction :: "int \<Rightarrow> int \<Rightarrow> 'p progress" where
  "DefaultFileTransferProgressFunction i n a b p = (True, p)"

definition quiet :: "'p progress \<Rightarrow> bool" where
  "quiet pr \<longleftrightarrow> (\<forall>a b p. fst (pr a b p))"

lemma quiet_default [simp]: "quiet DefaultProgressFunction"
  by (simp add: quiet_def DefaultProgressFunction_def)

text \<open>\<open>ds_list\<close> gives the arguments the callback is called with, in order, \<open>None\<close> being the null pointer.\<close>

record ('d, 'p) DataStore =
  ds_exist :: "string \<Rightarrow> 'p progress \<Rightarrow> ('d \<times> 'p, bool) io"
  ds_get :: "string \<Rightarrow> 'p progress \<Rightarrow> ('d \<times> 'p \<times> TempFileStream, unit) io"
  ds_put :: "string \<Rightarrow> 'p progress \<Rightarrow> ('d \<times> 'p \<times> any_in, unit) io"
  ds_list :: "string \<Rightarrow> 'p progress \<Rightarrow> ('d \<times> 'p, string option list) io"
  ds_unlink :: "string \<Rightarrow> 'p progress \<Rightarrow> ('d \<times> 'p, bool) io"

text \<open>The names under which the repository stores objects.\<close>

definition data_name :: "string \<Rightarrow> bool" where
  "data_name a \<longleftrightarrow> plain_name a \<and> a \<noteq> ''.'' \<and> a \<noteq> ''..''"

definition valid_name :: "string \<Rightarrow> bool" where
  "valid_name p \<longleftrightarrow> p = ''/key'' \<or> (\<exists>n. p = ''/snapshot/'' @ n \<and> plain_name n)
     \<or> (\<exists>a b. p = ''/data/'' @ a @ ''/'' @ b \<and> data_name a \<and> plain_name b)"

text \<open>The contract: the store is a map from names to byte strings.\<close>

locale data_store =
  fixes V :: "('d, 'p) DataStore"
    and objects :: "'d \<Rightarrow> string \<rightharpoonup> bytes"
    and ok :: "'d \<Rightarrow> bool"
  assumes exist_law: "ok d \<Longrightarrow> valid_name n \<Longrightarrow> \<exists>p'. ds_exist V n pr (d, p) = Some (Inr (objects d n \<noteq> None), (d, p'))"
    and get_law: "ok d \<Longrightarrow> valid_name n \<Longrightarrow> objects d n = Some bs \<Longrightarrow> quiet pr \<Longrightarrow> tmp_room t (length bs + k) \<Longrightarrow>
      \<exists>p' t'. ds_get V n pr (d, p, t) = Some (Inr (), (d, p', t')) \<and> tmp_written t' = tmp_written t @ bs \<and> tmp_room t' k"
    and get_missing: "ok d \<Longrightarrow> valid_name n \<Longrightarrow> objects d n = None \<Longrightarrow>
      \<exists>p'. ds_get V n pr (d, p, t) = Some (Inl FileNotFoundException, (d, p', t))"
    and put_law: "ok d \<Longrightarrow> valid_name n \<Longrightarrow> quiet pr \<Longrightarrow> any_inv s \<Longrightarrow>
      \<exists>d' p' s'. ds_put V n pr (d, p, s) = Some (Inr (), (d', p', s')) \<and> ok d' \<and> objects d' = (objects d)(n \<mapsto> any_rest s)"
    and unlink_law: "ok d \<Longrightarrow> valid_name n \<Longrightarrow>
      \<exists>d' p'. ds_unlink V n pr (d, p) = Some (Inr (objects d n \<noteq> None), (d', p')) \<and> ok d' \<and> objects d' = (objects d)(n := None)"
    and list_law: "ok d \<Longrightarrow> plain_name n \<Longrightarrow> objects d (''/snapshot/'' @ n) \<noteq> None \<Longrightarrow>
      \<exists>p' ns. ds_list V ''/snapshot'' pr (d, p) = Some (Inr (map Some ns @ [None]), (d, p')) \<and> distinct ns
        \<and> set ns = {n. plain_name n \<and> objects d (''/snapshot/'' @ n) \<noteq> None}"
begin

text \<open>What is put can be got back, and other objects stay.\<close>

lemma put_get:
  assumes "ok d" and "valid_name n" and "quiet pr" and "any_inv s" and "tmp_room t (length (any_rest s))"
  shows "\<exists>d' p' s' p'' t'. ds_put V n pr (d, p, s) = Some (Inr (), (d', p', s'))
     \<and> ds_get V n pr (d', p', t) = Some (Inr (), (d', p'', t')) \<and> tmp_written t' = tmp_written t @ any_rest s"
proof -
  obtain d' p' s' where d': "ds_put V n pr (d, p, s) = Some (Inr (), (d', p', s'))" "ok d'"
    "objects d' = (objects d)(n \<mapsto> any_rest s)" using put_law [OF assms(1-4)] by blast
  then have "objects d' n = Some (any_rest s)" by simp
  from get_law [OF d'(2) assms(2) this assms(3), of t 0 p'] assms(5) d'(1) show ?thesis by fastforce
qed

lemma put_other:
  assumes "ok d" and "valid_name n" and "quiet pr" and "any_inv s" and "m \<noteq> n"
  shows "\<exists>d' p' s'. ds_put V n pr (d, p, s) = Some (Inr (), (d', p', s')) \<and> objects d' m = objects d m"
  using put_law [OF assms(1-4), of p] assms(5) by auto

end

end
