(* ===== verification/Repository.thy ===== *)
theory Repository
  imports Base32 Rolling_Hash Snapshots Data_Store
begin

text \<open>
  The state of \<^verbatim>\<open>Repository\<close> and what its methods share: the options, the session they work in, the calls of the
  data store and the names of objects. A session holds the \<^verbatim>\<open>Repository\<close> object with everything else its methods
  change: the data store, the state of the caller's progress function and the random generator. The
  temporary files of a call live on the disk \<open>fs\<close>, an argument.
\<close>

section \<open>State\<close>

record Options =
  smallFileSize :: int
  maxBlockSize :: int
  minRollingHashBits :: int
  maxRollingHashBits :: int
  blockSplitCount :: int

definition Options_new :: Options where
  "Options_new = \<lparr>smallFileSize = 512000, maxBlockSize = 50000000, minRollingHashBits = 18,
     maxRollingHashBits = 25, blockSplitCount = 8\<rparr>"

record Repository =
  mEncKey :: bytes
  mMacKey :: bytes
  mHashKey :: bytes
  mRollKey :: bytes
  mOptions :: Options

text \<open>The constructor allocates the keys without setting them.\<close>

definition Repository_new :: "('e, 'd, 'h, 'm, 'l, 'z) env \<Rightarrow> Options option \<Rightarrow> Repository" where
  "Repository_new E opts =
     \<lparr>mEncKey = local_buf E EVP_MAX_KEY_LENGTH, mMacKey = local_buf E EVP_MAX_KEY_LENGTH,
      mHashKey = local_buf E EVP_MAX_KEY_LENGTH, mRollKey = local_buf E EVP_MAX_KEY_LENGTH,
      mOptions = (case opts of None \<Rightarrow> Options_new | Some opt \<Rightarrow> opt)\<rparr>"

record ('d, 'p) session =
  w_repo :: Repository
  w_store :: 'd
  w_prog :: 'p
  w_rng :: rng

section \<open>Calls of the data store\<close>

definition store_exist :: "('d, 'p) DataStore \<Rightarrow> string \<Rightarrow> 'p progress \<Rightarrow> (('d, 'p) session, bool) io" where
  "store_exist V n pr = (\<lambda>w. case ds_exist V n pr (w_store w, w_prog w) of None \<Rightarrow> None
     | Some (x, (d, p)) \<Rightarrow> Some (x, w\<lparr>w_store := d, w_prog := p\<rparr>))"

definition store_put :: "('d, 'p) DataStore \<Rightarrow> string \<Rightarrow> any_in \<Rightarrow> 'p progress \<Rightarrow> (('d, 'p) session, unit) io" where
  "store_put V n s pr = (\<lambda>w. case ds_put V n pr (w_store w, w_prog w, s) of None \<Rightarrow> None
     | Some (x, (d, p, s')) \<Rightarrow> Some (x, w\<lparr>w_store := d, w_prog := p\<rparr>))"

definition store_get :: "('d, 'p) DataStore \<Rightarrow> string \<Rightarrow> TempFileStream \<Rightarrow> 'p progress \<Rightarrow> (('d, 'p) session, TempFileStream) io" where
  "store_get V n t pr = (\<lambda>w. case ds_get V n pr (w_store w, w_prog w, t) of None \<Rightarrow> None
     | Some (x, (d, p, t')) \<Rightarrow> Some (map_sum id (\<lambda>_. t') x, w\<lparr>w_store := d, w_prog := p\<rparr>))"

definition store_list :: "('d, 'p) DataStore \<Rightarrow> string \<Rightarrow> 'p progress \<Rightarrow> (('d, 'p) session, string option list) io" where
  "store_list V n pr = (\<lambda>w. case ds_list V n pr (w_store w, w_prog w) of None \<Rightarrow> None
     | Some (x, (d, p)) \<Rightarrow> Some (x, w\<lparr>w_store := d, w_prog := p\<rparr>))"

text \<open>The stream of what has been written to a temporary stream; dereferencing a null pointer is undefined.\<close>

definition with_input :: "TempFileStream \<Rightarrow> (base_in \<Rightarrow> ('s, 'a) io) \<Rightarrow> ('s, 'a) io" where
  "with_input t k = with_local TempFileStream_inputStream t (\<lambda>st _. case st of
       None \<Rightarrow> throw_io UndefinedBehaviour
     | Some b \<Rightarrow> k b)"

definition random_io :: "nat \<Rightarrow> (('d, 'p) session, bytes) io" where
  "random_io n = (\<lambda>w. case arc4random_buf n (w_rng w) of (bs, r) \<Rightarrow> Some (Inr bs, w\<lparr>w_rng := r\<rparr>))"

text \<open>A call of \<^verbatim>\<open>StreamUtils::compressEncryptHMAC\<close> on a local stream.\<close>

definition seal_io ::
    "('e, 'dc, 'h, 'm, 'l, 'z) env \<Rightarrow> filesys \<Rightarrow> CompressionType \<Rightarrow> (nat \<Rightarrow> ('s, bytes) io) \<Rightarrow> 's \<Rightarrow> (('d, 'p) session, enc_in) io" where
  "seal_io E fs ct rd s = (\<lambda>w. case compressEncryptHMAC E fs ct (mEncKey (w_repo w)) (mMacKey (w_repo w)) rd (s, w_rng w) of
       None \<Rightarrow> None
     | Some (x, (s', r)) \<Rightarrow> Some (x, w\<lparr>w_rng := r\<rparr>))"

context data_store
begin

lemma store_exist_ok:
  assumes "ok (w_store w)" and "valid_name n"
  shows "\<exists>p. store_exist V n pr w = Some (Inr (objects (w_store w) n \<noteq> None), w\<lparr>w_prog := p\<rparr>)"
proof -
  obtain p where "ds_exist V n pr (w_store w, w_prog w) = Some (Inr (objects (w_store w) n \<noteq> None), (w_store w, p))"
    using exist_law [OF assms] by blast
  then show ?thesis by (auto simp: store_exist_def)
qed

lemma store_put_ok:
  assumes "ok (w_store w)" and "valid_name n" and "quiet pr" and "any_inv s"
  shows "\<exists>d p. store_put V n s pr w = Some (Inr (), w\<lparr>w_store := d, w_prog := p\<rparr>) \<and> ok d
     \<and> objects d = (objects (w_store w))(n \<mapsto> any_rest s)"
proof -
  obtain d p s' where "ds_put V n pr (w_store w, w_prog w, s) = Some (Inr (), (d, p, s'))" "ok d"
    "objects d = (objects (w_store w))(n \<mapsto> any_rest s)" using put_law [OF assms] by blast
  then show ?thesis by (auto simp: store_put_def)
qed

lemma store_get_ok:
  assumes "ok (w_store w)" and "valid_name n" and "objects (w_store w) n = Some bs" and "quiet pr"
    and "tmp_room t (length bs + k)"
  shows "\<exists>p t'. store_get V n t pr w = Some (Inr t', w\<lparr>w_prog := p\<rparr>) \<and> tmp_written t' = tmp_written t @ bs \<and> tmp_room t' k"
proof -
  obtain p t' where "ds_get V n pr (w_store w, w_prog w, t) = Some (Inr (), (w_store w, p, t'))"
    "tmp_written t' = tmp_written t @ bs" "tmp_room t' k" using get_law [OF assms] by blast
  then show ?thesis by (auto simp: store_get_def)
qed

lemma store_get_missing:
  assumes "ok (w_store w)" and "valid_name n" and "objects (w_store w) n = None"
  shows "\<exists>p. store_get V n t pr w = Some (Inl FileNotFoundException, w\<lparr>w_prog := p\<rparr>)"
proof -
  obtain p where "ds_get V n pr (w_store w, w_prog w, t) = Some (Inl FileNotFoundException, (w_store w, p, t))"
    using get_missing [OF assms] by blast
  then show ?thesis by (auto simp: store_get_def)
qed

text \<open>Getting an object into a new temporary stream and reading it back.\<close>

lemma get_input_ok:
  assumes "ok (w_store w)" and "valid_name n" and "objects (w_store w) n = Some bs" and "quiet pr" and "disk_free fs"
  shows "\<exists>p b. bind_io (store_get V n (TempFileStream_new fs) pr) (\<lambda>t. with_input t k) w = k b (w\<lparr>w_prog := p\<rparr>)
     \<and> base_inv b \<and> base_rest b = bs \<and> base_whole b = bs"
proof -
  obtain p t' where t': "store_get V n (TempFileStream_new fs) pr w = Some (Inr t', w\<lparr>w_prog := p\<rparr>)"
    "tmp_written t' = bs" "tmp_room t' 0"
    using store_get_ok [OF assms(1-4) tmp_room_free [OF assms(5), of "length bs + 0"]] by auto
  obtain b t'' where b: "TempFileStream_inputStream t' = Some (Inr (Some b), t'')" "base_inv b"
    "base_rest b = tmp_written t'" "base_whole b = tmp_written t'" using inputStream_ok [OF t'(3)] by blast
  then show ?thesis using t' by (intro exI [of _ p] exI [of _ b]) (simp add: with_input_def)
qed

end

lemma seal_io_ok:
  assumes "input_stream rd rest iok" and "iok s" and "hmac_ok E H" and "cipher_ok E (take 32 (mEncKey (w_repo w)))"
    and "lzma_ok E" and "\<And>b. ct \<noteq> InvalidCompression b" and "disk_free fs"
  shows "\<exists>m r. seal_io E fs ct rd s w = Some (Inr m, w\<lparr>w_rng := r\<rparr>) \<and> enc_inv m \<and> enc_whole m = enc_rest m
     \<and> sealed E H ct (mEncKey (w_repo w)) (mMacKey (w_repo w)) (rest s) (enc_rest m)"
proof -
  obtain m s' r where "compressEncryptHMAC E fs ct (mEncKey (w_repo w)) (mMacKey (w_repo w)) rd (s, w_rng w) = Some (Inr m, (s', r))"
    "enc_inv m" "enc_whole m = enc_rest m" "sealed E H ct (mEncKey (w_repo w)) (mMacKey (w_repo w)) (rest s) (enc_rest m)"
    using input_stream.compressEncryptHMAC_ok [OF assms, of "mMacKey (w_repo w)" "w_rng w"] by blast
  then show ?thesis by (auto simp: seal_io_def)
qed

section \<open>Names of objects\<close>

definition objectIdToString :: "bytes \<Rightarrow> exn + string" where
  "objectIdToString objectId =
     (case base32encode (take SHA256_DIGEST_LENGTH objectId) 53 of
        Inl e \<Rightarrow> Inl e
      | Inr outStr \<Rightarrow> Inr (take 2 outStr @ ''/'' @ cstr (drop 2 outStr)))"

text \<open>\<open>object_name\<close> is the path \<^verbatim>\<open>"/data/" + objectIdToString(objectId)\<close> of an id of 32 bytes.\<close>

definition object_name :: "bytes \<Rightarrow> string" where
  "object_name oid = ''/data/'' @ take 2 (base32_spec oid) @ ''/'' @ drop 2 (base32_spec oid)"

lemma base32_spec_chars: "c \<in> set (base32_spec bs) \<Longrightarrow> c \<noteq> CHR ''/'' \<and> c \<noteq> CHR ''.''"
proof -
  assume "c \<in> set (base32_spec bs)"
  then obtain d where "d < 32" "c = base32hex ! d"
    by (auto simp: base32_spec_def Let_def dest: digits_be_less [rotated])
  moreover have "\<forall>d < 32. base32hex ! d \<noteq> CHR ''/'' \<and> base32hex ! d \<noteq> CHR ''.''" by code_simp
  ultimately show ?thesis by simp
qed

lemma objectIdToString_ok:
  assumes "length oid = 32"
  shows "objectIdToString oid = Inr (drop 6 (object_name oid))"
proof -
  have "base32encode oid 53 = Inr (base32_spec oid @ [CHR 0x00])"
    by (rule base32encode_ok) (simp add: assms base32_length_def)
  moreover have "2 \<le> length (base32_spec oid)" by (simp add: assms base32_length_def)
  moreover have "NUL \<notin> set (drop 2 (base32_spec oid))"
    using base32_spec_no_NUL [of oid] by (auto simp: NUL_def dest: in_set_dropD)
  ultimately show ?thesis
    using assms by (simp add: objectIdToString_def object_name_def SHA256_DIGEST_LENGTH_def cstr_append_NUL
        NUL_def [symmetric])
qed

lemma three_elements: "3 \<le> length xs \<Longrightarrow> \<exists>a b c cs. xs = a # b # c # cs"
  by (cases xs; cases "tl xs"; cases "tl (tl xs)") auto

lemma object_name_valid:
  assumes "length oid = 32"
  shows "valid_name (object_name oid)"
proof -
  let ?s = "base32_spec oid"
  have len: "length ?s = 52" by (simp add: assms base32_length_def)
  then obtain a b c cs where s: "?s = a # b # c # cs"
    using three_elements [of ?s] by auto
  then have "plain_name (take 2 ?s)" "plain_name (drop 2 ?s)" "take 2 ?s \<noteq> ''..''"
    using base32_spec_chars [of _ oid] by (auto simp: plain_name_def)
  moreover have "take 2 ?s \<noteq> ''.''" using s by simp
  ultimately show ?thesis by (auto simp: valid_name_def object_name_def data_name_def)
qed

lemma object_name_inj:
  assumes "length x = 32" and "length y = 32" and "object_name x = object_name y"
  shows "x = y"
proof (rule base32_spec_inj)
  let ?s = "base32_spec x" and ?t = "base32_spec y"
  have "take 2 ?s @ ''/'' @ drop 2 ?s = take 2 ?t @ ''/'' @ drop 2 ?t" using assms(3) by (simp add: object_name_def)
  moreover have "length (take 2 ?s) = length (take 2 ?t)" by (simp add: assms(1,2))
  ultimately have "take 2 ?s = take 2 ?t" "drop 2 ?s = drop 2 ?t" by auto
  then show "?s = ?t" by (metis append_take_drop_id)
qed

end
