(* ===== verification/Chunking.thy ===== *)
theory Chunking
  imports Repository
begin

text \<open>
  How \<^verbatim>\<open>Repository::uploadFile\<close> cuts a file into blocks: the choice of the parameters and the test after every byte.
  \<open>split_blocks\<close> is the list of blocks the loop of \<^verbatim>\<open>uploadFile\<close> produces for a whole byte string; that the loop
  produces it is shown in \<^verbatim>\<open>Upload\<close>.
\<close>

section \<open>Parameters\<close>

text \<open>\<open>lg n\<close> stands for the value of \<^verbatim>\<open>ceil(log(n) / log(2))\<close> in floating point, converted to \<^verbatim>\<open>int\<close>; the results below
  hold whatever it is. \<open>None\<close> is the division by a zero \<^verbatim>\<open>blockSplitCount\<close>.\<close>

definition rolling_hash_bits :: "Options \<Rightarrow> (nat \<Rightarrow> int) \<Rightarrow> nat \<Rightarrow> int option" where
  "rolling_hash_bits opt lg fileLength =
     (if to_size_t (blockSplitCount opt) = 0 then None
      else
        let b0 = lg (fileLength div to_size_t (blockSplitCount opt));
            b1 = (if b0 < minRollingHashBits opt then minRollingHashBits opt else b0);
            b2 = (if b1 > maxRollingHashBits opt then maxRollingHashBits opt else b1) in
        Some b2)"

definition min_block_size :: "nat \<Rightarrow> nat" where
  "min_block_size fileLength = nat (max 4096 (to_int (((fileLength + 65534) mod 2 ^ 64) div 65535)))"

definition hash_mask :: "int \<Rightarrow> u64" where
  "hash_mask bits = push_bit (nat bits) 1 - 1"

section \<open>Cutting\<close>

text \<open>The test after \<open>b\<close> has been pushed to the block buffer \<open>buf\<close>: the hash is only rolled once the block has its
  minimum size.\<close>

definition cut_here :: "nat \<Rightarrow> nat \<Rightarrow> u64 \<Rightarrow> RollingHash \<Rightarrow> bytes \<Rightarrow> byte \<Rightarrow> bool \<times> RollingHash" where
  "cut_here mn mx msk rh buf b =
     (if mn \<le> length buf then
        (case RollingHash_roll b rh of (h, rh') \<Rightarrow> (h AND msk = 0 \<or> mx \<le> length buf, rh'))
      else (False, rh))"

fun split_blocks :: "nat \<Rightarrow> nat \<Rightarrow> u64 \<Rightarrow> RollingHash \<Rightarrow> bytes \<Rightarrow> bytes \<Rightarrow> bytes list" where
  "split_blocks mn mx msk rh buf [] = (if buf = [] then [] else [buf])"
| "split_blocks mn mx msk rh buf (b # bs) =
     (case cut_here mn mx msk rh (buf @ [b]) b of (isCut, rh') \<Rightarrow>
        if isCut then (buf @ [b]) # split_blocks mn mx msk rh' [] bs
        else split_blocks mn mx msk rh' (buf @ [b]) bs)"

lemma cut_hereD: "cut_here mn mx msk rh buf b = (True, rh') \<Longrightarrow> mn \<le> length buf"
  by (auto simp: cut_here_def split: if_splits)

lemma cut_here_no: "cut_here mn mx msk rh buf b = (False, rh') \<Longrightarrow> length buf < max mn mx"
  by (auto simp: cut_here_def split: if_splits prod.splits)

lemma concat_split_blocks: "concat (split_blocks mn mx msk rh buf bs) = buf @ bs"
  by (induction mn mx msk rh buf bs rule: split_blocks.induct) (auto split: prod.splits)

lemma split_blocks_nonempty: "[] \<notin> set (split_blocks mn mx msk rh buf bs)"
  by (induction mn mx msk rh buf bs rule: split_blocks.induct) (auto split: prod.splits)

lemma split_blocks_max:
  "length buf < max mn mx \<Longrightarrow> blk \<in> set (split_blocks mn mx msk rh buf bs) \<Longrightarrow> length blk \<le> max mn mx"
proof (induction mn mx msk rh buf bs rule: split_blocks.induct)
  case (2 mn mx msk rh buf b bs)
  obtain isCut rh' where c: "cut_here mn mx msk rh (buf @ [b]) b = (isCut, rh')" by force
  show ?case
  proof (cases isCut)
    case True
    have "length ([] :: bytes) < max mn mx" using "2.prems"(1) by simp
    note IH = "2.IH"(1) [OF c [symmetric] True this]
    have "blk = buf @ [b] \<or> blk \<in> set (split_blocks mn mx msk rh' [] bs)" using "2.prems"(2) c True by simp
    then show ?thesis using IH "2.prems"(1) by (elim disjE) simp_all
  next
    case False
    with c have m: "length (buf @ [b]) < max mn mx" using cut_here_no [of mn mx msk rh "buf @ [b]" b rh'] by simp
    have "blk \<in> set (split_blocks mn mx msk rh' (buf @ [b]) bs)" using "2.prems"(2) c False by simp
    then show ?thesis by (rule "2.IH"(2) [OF c [symmetric] False m])
  qed
qed (auto split: if_splits)

lemma split_blocks_min:
  "i + 1 < length (split_blocks mn mx msk rh buf bs) \<Longrightarrow> mn \<le> length (split_blocks mn mx msk rh buf bs ! i)"
proof (induction mn mx msk rh buf bs arbitrary: i rule: split_blocks.induct)
  case (2 mn mx msk rh buf b bs)
  obtain isCut rh' where c: "cut_here mn mx msk rh (buf @ [b]) b = (isCut, rh')" by force
  show ?case
  proof (cases isCut)
    case True
    with c have "mn \<le> length (buf @ [b])" using cut_hereD [of mn mx msk rh "buf @ [b]" b rh'] by simp
    moreover have "mn \<le> length (split_blocks mn mx msk rh' [] bs ! j)" if "i = Suc j" for j
      using "2.IH"(1) [OF c [symmetric] True, of j] "2.prems" that c True by simp
    ultimately show ?thesis using c True by (cases i) simp_all
  next
    case False
    show ?thesis using "2.IH"(2) [OF c [symmetric] False, of i] "2.prems" c False by simp
  qed
qed (auto split: if_splits)

text \<open>All blocks but the last have the minimum size, which bounds their number.\<close>

lemma split_blocks_count:
  "bs \<noteq> [] \<or> buf \<noteq> [] \<Longrightarrow> mn * (length (split_blocks mn mx msk rh buf bs) - 1) < length (buf @ bs)"
proof (induction mn mx msk rh buf bs rule: split_blocks.induct)
  case (2 mn mx msk rh buf b bs)
  obtain isCut rh' where c: "cut_here mn mx msk rh (buf @ [b]) b = (isCut, rh')" by force
  show ?case
  proof (cases isCut)
    case True
    let ?n = "length (split_blocks mn mx msk rh' [] bs)"
    have m: "mn \<le> length (buf @ [b])" using cut_hereD [of mn mx msk rh "buf @ [b]" b rh'] c True by simp
    show ?thesis
    proof (cases "bs = []")
      case True
      then show ?thesis using c \<open>isCut\<close> by simp
    next
      case False
      then have "mn * (?n - 1) < length bs" using "2.IH"(1) [OF c [symmetric] True] by simp
      moreover have "mn * ?n \<le> mn * (?n - 1) + mn" by (cases ?n) simp_all
      ultimately show ?thesis using True c m by simp
    qed
  next
    case False
    show ?thesis using "2.IH"(2) [OF c [symmetric] False] c False by simp
  qed
qed simp

text \<open>With the block size the program computes, a file has at most 65535 blocks.\<close>

lemma min_block_size_bound:
  assumes "L < 65535 * 2 ^ 31 - 65535"
  shows "L \<le> 65535 * min_block_size L" and "4096 \<le> min_block_size L"
proof -
  let ?q = "(L + 65534) div 65535"
  have q: "(L + 65534) mod 2 ^ 64 = L + 65534" using assms by simp
  have "?q < 2 ^ 31" using assms by (simp add: div_less_iff_less_mult)
  then have "to_int ?q = int ?q" by (rule to_int_small)
  then have m: "min_block_size L = max 4096 ?q" unfolding min_block_size_def q by (simp add: max_def)
  have "L \<le> 65535 * ?q" using div_mult_mod_eq [of "L + 65534" 65535] mod_less_divisor [of 65535 "L + 65534"] by linarith
  also have "\<dots> \<le> 65535 * min_block_size L" unfolding m by (intro mult_le_mono2) simp
  finally show "L \<le> 65535 * min_block_size L" .
  show "4096 \<le> min_block_size L" unfolding m by simp
qed

lemma split_blocks_le_65535:
  assumes "length bs < 65535 * 2 ^ 31 - 65535"
  shows "length (split_blocks (min_block_size (length bs)) mx msk rh [] bs) \<le> 65535"
proof (cases "bs = []")
  case False
  let ?mn = "min_block_size (length bs)" and ?n = "length (split_blocks (min_block_size (length bs)) mx msk rh [] bs)"
  have "?mn * (?n - 1) < length bs" using split_blocks_count [of bs "[]" ?mn mx msk rh] False by simp
  also have "\<dots> \<le> ?mn * 65535" using min_block_size_bound(1) [OF assms] by (simp add: mult.commute)
  finally have "?n - 1 < 65535" by simp
  then show ?thesis by simp
qed simp

text \<open>The blocks of a whole file, and options under which the computation of the parameters is defined.\<close>

definition file_blocks :: "Options \<Rightarrow> (nat \<Rightarrow> int) \<Rightarrow> RollingHash \<Rightarrow> bytes \<Rightarrow> bytes list" where
  "file_blocks opt lg rh bs =
     (if length bs < to_size_t (smallFileSize opt) then [bs]
      else split_blocks (min_block_size (length bs)) (to_size_t (maxBlockSize opt))
             (hash_mask (the (rolling_hash_bits opt lg (length bs)))) rh [] bs)"

definition options_ok :: "Options \<Rightarrow> bool" where
  "options_ok opt \<longleftrightarrow> to_size_t (blockSplitCount opt) \<noteq> 0 \<and> 0 \<le> minRollingHashBits opt
     \<and> minRollingHashBits opt \<le> maxRollingHashBits opt \<and> maxRollingHashBits opt < 30 \<and> 0 \<le> maxBlockSize opt
     \<and> 0 < to_size_t (smallFileSize opt)"

lemma options_ok_new [simp]: "options_ok Options_new"
  by (simp add: options_ok_def Options_new_def)

lemma rolling_hash_bits_ok:
  assumes "options_ok opt"
  obtains bits where "rolling_hash_bits opt lg n = Some bits" "0 \<le> bits" "bits < 30"
  using assms that by (simp add: options_ok_def rolling_hash_bits_def Let_def split: if_splits)

lemma concat_file_blocks: "concat (file_blocks opt lg rh bs) = bs"
  by (simp add: file_blocks_def concat_split_blocks)

lemma file_blocks_not_Nil: "options_ok opt \<Longrightarrow> file_blocks opt lg rh bs \<noteq> []"
  using concat_file_blocks [of opt lg rh bs] by (cases "bs = []") (auto simp: options_ok_def file_blocks_def)

lemma length_file_blocks:
  "length bs < 65535 * 2 ^ 31 - 65535 \<Longrightarrow> length (file_blocks opt lg rh bs) \<le> 65535"
  using split_blocks_le_65535 [of bs] by (simp add: file_blocks_def)

section \<open>Properties\<close>

text \<open>C11. Cutting a file into blocks loses nothing and respects the sizes: the blocks put together are the file, none is
  empty, all but the last have at least the minimum size and none exceeds the larger of the two sizes; with the minimum
  size \<^verbatim>\<open>uploadFile\<close> computes, there are at most 65535 of them, the most a file entry can refer to.\<close>

theorem blocks_well_formed:
  assumes "length bs < 65535 * 2 ^ 31 - 65535" and "blocks = split_blocks (min_block_size (length bs)) mx msk rh [] bs"
  shows "concat blocks = bs \<and> length blocks \<le> 65535 \<and> [] \<notin> set blocks
     \<and> (\<forall>i. i + 1 < length blocks \<longrightarrow> min_block_size (length bs) \<le> length (blocks ! i))
     \<and> (\<forall>blk \<in> set blocks. length blk \<le> max (min_block_size (length bs)) mx)"
proof -
  have "0 < max (min_block_size (length bs)) mx" using min_block_size_bound(2) [OF assms(1)] by linarith
  then show ?thesis
    unfolding assms(2) using split_blocks_le_65535 [OF assms(1)] split_blocks_min split_blocks_max [of "[]"] split_blocks_nonempty
    by (auto simp: concat_split_blocks)
qed

text \<open>A rolling hash with a window of one byte, for the evaluation.\<close>

definition sample_hash :: RollingHash where
  "sample_hash = \<lparr>mHash = 0, mConstant = 33, mConstantPowWinSize = 33, mWindowSize = 1, mIndex = 0, mWindow = [0], mKey = [],
     mSubTable = replicate 256 0\<rparr>"

theorem blocks_well_formed_witness:
  "concat (split_blocks (min_block_size (length (replicate 5000 (7 :: byte)))) 50000000 255 sample_hash [] (replicate 5000 7)) = replicate 5000 7"
proof -
  have "length (replicate 5000 (7 :: byte)) < 65535 * 2 ^ 31 - 65535" by simp
  from blocks_well_formed [OF this refl] show ?thesis by (rule conjunct1)
qed

end
