(* ===== verification/File_Data_Store.thy ===== *)
theory File_Data_Store
  imports Data_Store
begin

text \<open>
  \<^verbatim>\<open>backends/FileDataStore\<close>: the data store that keeps each object in a file below a directory, over the
  file system of \<^verbatim>\<open>File_Streams\<close>. The operations of \<^verbatim>\<open>boost::filesystem\<close> it calls are translated from
  \<^verbatim>\<open>operations.cpp\<close>. The state of the store is the file system; the store's directory is a parameter.
\<close>

section \<open>File system operations\<close>

lemma find_last_sep_less: "find_last_sep str n = Some i \<Longrightarrow> i < n \<and> sep_at str i"
  by (auto simp: find_last_sep_def find_Some_iff rev_nth)

lemma filename_pos_less: "str \<noteq> [] \<Longrightarrow> filename_pos str (length str) < length str"
  using find_last_sep_less [of str "length str"]
  by (fastforce simp: filename_pos_def neq_Nil_conv less_Suc_eq split: option.splits)

lemma skip_seps_back_le: "skip_seps_back str root e \<le> e"
  by (induction e) auto

lemma parent_path_shorter: "p \<noteq> [] \<Longrightarrow> length (parent_path p) < length p"
proof -
  assume "p \<noteq> []"
  then have "skip_seps_back p root (filename_pos p (length p)) < length p" for root
    using filename_pos_less [of p] skip_seps_back_le [of p root "filename_pos p (length p)"] by linarith
  with \<open>p \<noteq> []\<close> show ?thesis by (simp add: parent_path_def m_parent_path_end_def Let_def)
qed

definition fs_mkdir :: "string \<Rightarrow> filesys \<Rightarrow> filesys" where
  "fs_mkdir p fs = fs\<lparr>fs_nodes := AList.update p DirNode (fs_nodes fs)\<rparr>"

lemma fs_node_mkdir [simp]: "fs_node (fs_mkdir p fs) q = (if q = p then Some DirNode else fs_node fs q)"
  by (simp add: fs_node_def fs_mkdir_def update_conv')

lemma fs_mkdir_sel [simp]:
  "fs_bad (fs_mkdir p fs) = fs_bad fs" "fs_limit (fs_mkdir p fs) = fs_limit fs"
  by (simp_all add: fs_mkdir_def)

text \<open>\<^verbatim>\<open>mkdir\<close> needs a free name in an existing directory; \<^verbatim>\<open>create_directory\<close> also accepts a directory.\<close>

definition create_directory :: "string \<Rightarrow> (filesys, bool) io" where
  "create_directory p = (\<lambda>fs.
     if fs_node fs p = None \<and> (parent_path p = [] \<or> fs_node fs (parent_path p) = Some DirNode) then
       Some (Inr True, fs_mkdir p fs)
     else if fs_node fs p = Some DirNode then Some (Inr False, fs)
     else Some (Inl FilesystemError, fs))"

function create_directories :: "string \<Rightarrow> (filesys, bool) io" where
  "create_directories p =
     (if p = [] then throw_io FilesystemError
      else if filename p = ''.'' \<or> filename p = ''..'' then create_directories (parent_path p)
      else (\<lambda>fs.
        if fs_node fs p = Some DirNode then Some (Inr False, fs)
        else if parent_path p \<noteq> [] \<and> fs_node fs (parent_path p) = None then
          seq_io (create_directories (parent_path p)) (create_directory p) fs
        else create_directory p fs))"
  by pat_completeness auto
termination
  by (relation "measure length") (auto simp: parent_path_shorter)

declare create_directories.simps [simp del]

text \<open>\<^verbatim>\<open>errno\<close> after a failed \<^verbatim>\<open>fopen\<close> for reading is \<^verbatim>\<open>ENOTDIR\<close> when a component of the path is a regular file,
  and \<^verbatim>\<open>ENOENT\<close> otherwise.\<close>

function under_file :: "filesys \<Rightarrow> string \<Rightarrow> bool" where
  "under_file fs p =
     (if p = [] then False
      else (case fs_node fs (parent_path p) of Some (RegNode _) \<Rightarrow> True | _ \<Rightarrow> under_file fs (parent_path p)))"
  by pat_completeness auto
termination
  by (relation "measure (\<lambda>(fs, p). length p)") (auto simp: parent_path_shorter)

declare under_file.simps [simp del]

text \<open>The entries of a directory, as \<^verbatim>\<open>directory_iterator\<close> delivers them, and \<^verbatim>\<open>filesystem::remove\<close>, which also removes an empty directory.\<close>

definition fs_entries :: "filesys \<Rightarrow> string \<Rightarrow> string list" where
  "fs_entries fs d = filter (\<lambda>q. plain_name (filename q) \<and> q = path_append d (filename q)) (remdups (map fst (fs_nodes fs)))"

definition fs_unlink :: "string \<Rightarrow> (filesys, bool) io" where
  "fs_unlink p = (\<lambda>fs. case fs_node fs p of
       None \<Rightarrow> Some (Inr False, fs)
     | Some (RegNode _) \<Rightarrow> Some (Inr True, fs_remove p fs)
     | Some DirNode \<Rightarrow>
         if fs_entries fs p = [] then Some (Inr True, fs_remove p fs) else Some (Inl FilesystemError, fs))"

section \<open>The store\<close>

definition FileDataStore_exist :: "string \<Rightarrow> string \<Rightarrow> 'p progress \<Rightarrow> (filesys \<times> 'p, bool) io" where
  "FileDataStore_exist root path pr = (\<lambda>(fs, p).
     Some (Inr (fs_node fs (path_append root path) \<noteq> None), (fs, snd (pr 1 1 p))))"

text \<open>The body of the loop of \<^verbatim>\<open>get\<close>; its state is that of the progress function, the output stream and
  \<^verbatim>\<open>bytesRead\<close>.\<close>

definition get_body :: "'p progress \<Rightarrow> int \<Rightarrow> bytes \<Rightarrow> ('p \<times> TempFileStream \<times> int, unit) io" where
  "get_body pr fileSize buf = (\<lambda>(p, t, bytesRead).
     case pr bytesRead fileSize p of (go, p') \<Rightarrow>
       if \<not> go then Some (Inl CancelledException, (p', t, bytesRead))
       else map_option (\<lambda>(r, t'). (r, (p', t', bytesRead + int (length buf)))) (TempFileStream_write buf t))"

definition fread_io :: "nat \<Rightarrow> (cfile, bytes) io" where
  "fread_io n = (\<lambda>f. case fread n f of (bs, f') \<Rightarrow> Some (Inr bs, f'))"

definition FileDataStore_get ::
    "string \<Rightarrow> string \<Rightarrow> 'p progress \<Rightarrow> (filesys \<times> 'p \<times> TempFileStream, unit) io" where
  "FileDataStore_get root path pr = (\<lambda>(fs, p, t).
     let fullPath = path_append root path in
     case fopen fullPath FileMode_Read fs of
       None \<Rightarrow> Some (Inl (if under_file fs fullPath then FileIOException else FileNotFoundException), (fs, p, t))
     | Some (fp, fs1) \<Rightarrow>
         (case fs_node fs1 fullPath of
            Some (RegNode d) \<Rightarrow>
              let fileSize = int (length d) in
              (case read_each fread_io 4096 (get_body pr fileSize) (fp, (snd (pr 0 fileSize p), t, 0)) of
                 None \<Rightarrow> None
               | Some (Inl e, (fp', (p', t', _))) \<Rightarrow> Some (Inl e, (fs1, p', t'))
               | Some (Inr _, (fp', (p', t', bytesRead))) \<Rightarrow>
                   if cf_error fp' then Some (Inl FileIOException, (fs1, p', t'))
                   else Some (Inr (), (fs1, snd (pr bytesRead fileSize p'), t')))
          | _ \<Rightarrow> Some (Inl FilesystemError, (fs1, p, t))))"

text \<open>The body of the loop of \<^verbatim>\<open>put\<close>; its state is \<^verbatim>\<open>fp\<close> (\<open>None\<close> when released), the file system, the state of
  the progress function and \<^verbatim>\<open>bytesWritten\<close>. A cancelled upload closes and removes the file.\<close>

definition put_body ::
    "string \<Rightarrow> 'p progress \<Rightarrow> int \<Rightarrow> bytes \<Rightarrow> (cfile option \<times> filesys \<times> 'p \<times> int, unit) io" where
  "put_body fullPath pr fileSize buf = (\<lambda>(fp, fs, p, bytesWritten). case fp of
       None \<Rightarrow> Some (Inl UndefinedBehaviour, (None, fs, p, bytesWritten))
     | Some f \<Rightarrow>
         (case fwrite buf f of (k, f') \<Rightarrow>
            if k < length buf \<and> cf_error f' then Some (Inl FileIOException, (Some f', fs, p, bytesWritten))
            else
              (case pr bytesWritten fileSize p of (go, p') \<Rightarrow>
                 if \<not> go then
                   (case fs_unlink fullPath (fclose fullPath f' fs) of
                      None \<Rightarrow> None
                    | Some (Inl e, fs') \<Rightarrow> Some (Inl e, (None, fs', p', bytesWritten))
                    | Some (Inr _, fs') \<Rightarrow> Some (Inl CancelledException, (None, fs', p', bytesWritten)))
                 else Some (Inr (), (Some f', fs, p', bytesWritten + int (length buf))))))"

text \<open>\<open>close_fp\<close>: the \<^verbatim>\<open>unique_ptr\<close> closes the file on every way out of \<^verbatim>\<open>put\<close>.\<close>

definition close_fp :: "string \<Rightarrow> cfile option \<Rightarrow> filesys \<Rightarrow> filesys" where
  "close_fp fullPath fp fs = (case fp of None \<Rightarrow> fs | Some f \<Rightarrow> fclose fullPath f fs)"

definition put_file :: "string \<Rightarrow> 'p progress \<Rightarrow> (filesys \<times> 'p \<times> any_in, unit) io" where
  "put_file fullPath pr = (\<lambda>(fs, p, s). case fopen fullPath FileMode_Write fs of
       None \<Rightarrow> Some (Inl FileIOException, (fs, p, s))
     | Some (fp, fs1) \<Rightarrow>
         (case is_size any_methods s of
            None \<Rightarrow> None
          | Some (Inl e, s1) \<Rightarrow> Some (Inl e, (close_fp fullPath (Some fp) fs1, p, s1))
          | Some (Inr fileSize, s1) \<Rightarrow>
              (case read_each (is_read any_methods) 4096 (put_body fullPath pr fileSize)
                      (s1, (Some fp, fs1, snd (pr 0 fileSize p), 0)) of
                 None \<Rightarrow> None
               | Some (Inl e, (s2, (fp', fs2, p', _))) \<Rightarrow> Some (Inl e, (close_fp fullPath fp' fs2, p', s2))
               | Some (Inr _, (s2, (fp', fs2, p', bytesWritten))) \<Rightarrow>
                   Some (Inr (), (close_fp fullPath fp' fs2, snd (pr bytesWritten fileSize p'), s2)))))"

definition FileDataStore_put ::
    "string \<Rightarrow> string \<Rightarrow> 'p progress \<Rightarrow> (filesys \<times> 'p \<times> any_in, unit) io" where
  "FileDataStore_put root path pr = (\<lambda>(fs, p, s).
     let fullPath = path_append root path in
     case (if fs_node fs (parent_path fullPath) = None then create_directories (parent_path fullPath) fs
           else Some (Inr False, fs)) of
       None \<Rightarrow> None
     | Some (Inl e, fs') \<Rightarrow> Some (Inl e, (fs', p, s))
     | Some (Inr _, fs') \<Rightarrow> put_file fullPath pr (fs', p, s))"

definition FileDataStore_list :: "string \<Rightarrow> string \<Rightarrow> 'p progress \<Rightarrow> (filesys \<times> 'p, string option list) io" where
  "FileDataStore_list root path pr = (\<lambda>(fs, p).
     let fullPath = path_append root path in
     if fs_node fs fullPath \<noteq> Some DirNode then Some (Inl FilesystemError, (fs, p))
     else Some (Inr (map (\<lambda>q. Some (filename q)) (filter (\<lambda>q. fs_node fs q \<noteq> Some DirNode) (fs_entries fs fullPath))
                     @ [None]), (fs, p)))"

definition FileDataStore_unlink :: "string \<Rightarrow> string \<Rightarrow> 'p progress \<Rightarrow> (filesys \<times> 'p, bool) io" where
  "FileDataStore_unlink root path pr = (\<lambda>(fs, p).
     map_option (\<lambda>(r, fs'). (r, (fs', snd (pr 1 1 p)))) (fs_unlink (path_append root path) fs))"

definition FileDataStore :: "string \<Rightarrow> (filesys, 'p) DataStore" where
  "FileDataStore root =
     \<lparr>ds_exist = FileDataStore_exist root, ds_get = FileDataStore_get root, ds_put = FileDataStore_put root,
      ds_list = FileDataStore_list root, ds_unlink = FileDataStore_unlink root\<rparr>"

lemma FileDataStore_sel [simp]:
  "ds_exist (FileDataStore root) = FileDataStore_exist root" "ds_get (FileDataStore root) = FileDataStore_get root"
  "ds_put (FileDataStore root) = FileDataStore_put root" "ds_list (FileDataStore root) = FileDataStore_list root"
  "ds_unlink (FileDataStore root) = FileDataStore_unlink root"
  by (simp_all add: FileDataStore_def)

section \<open>The store as a map\<close>

definition valid_dir :: "string \<Rightarrow> bool" where
  "valid_dir d \<longleftrightarrow> d = ''/snapshot'' \<or> d = ''/data'' \<or> (\<exists>a. d = ''/data/'' @ a \<and> data_name a)"

definition file_objects :: "string \<Rightarrow> filesys \<Rightarrow> string \<rightharpoonup> bytes" where
  "file_objects root fs n =
     (if valid_name n then (case fs_node fs (root @ n) of Some (RegNode d) \<Rightarrow> Some d | _ \<Rightarrow> None) else None)"

text \<open>The store's directory exists, nothing in it has the wrong type, and the disk has neither errors nor a limit.\<close>

definition file_store_ok :: "string \<Rightarrow> filesys \<Rightarrow> bool" where
  "file_store_ok root fs \<longleftrightarrow> plain_dir root \<and> fs_node fs root = Some DirNode \<and> \<not> under_file fs root \<and> fs_limit fs = None
     \<and> (\<forall>d. valid_dir d \<longrightarrow> fs_node fs (root @ d) = None \<or> fs_node fs (root @ d) = Some DirNode)
     \<and> (\<forall>n. valid_name n \<longrightarrow> fs_node fs (root @ n) \<noteq> Some DirNode \<and> map_of (fs_bad fs) (root @ n) = None
          \<and> (fs_node fs (root @ n) \<noteq> None \<longrightarrow> fs_node fs (parent_path (root @ n)) = Some DirNode))"

lemma data_name_plain: "data_name a \<Longrightarrow> plain_name a"
  by (simp add: data_name_def)

lemma valid_nameE:
  assumes "valid_name n"
  obtains "n = ''/key''" | m where "n = ''/snapshot/'' @ m" "plain_name m"
    | a b where "n = ''/data/'' @ a @ ''/'' @ b" "data_name a" "plain_name b"
  using assms by (auto simp: valid_name_def)

lemma valid_name_not_dir: "valid_name n \<Longrightarrow> valid_dir n \<Longrightarrow> False"
  by (auto simp: valid_name_def valid_dir_def plain_name_def data_name_def)

lemma valid_name_full: "valid_name n \<Longrightarrow> path_append root n = root @ n"
  by (auto simp: valid_name_def path_append_def is_sep_def)

lemma valid_nonempty: "valid_name n \<Longrightarrow> n \<noteq> []" "valid_dir d \<Longrightarrow> d \<noteq> []"
  by (auto simp: valid_name_def valid_dir_def)

text \<open>The directories of an object: the store's own, or a directory below it whose parent is one of them.\<close>

lemma plain_dir_sub: "plain_dir root \<Longrightarrow> plain_name n \<Longrightarrow> plain_dir (root @ ''/'' @ n)"
  using sep_at_dir [of root]
  by (cases root; cases n rule: rev_cases) (auto simp: plain_dir_def plain_name_def sep_at_append sep_at_def is_sep_def nth_append nth_Cons' split: if_splits)

lemma parent_below:
  assumes "plain_dir root" and "plain_name n"
  shows "parent_path (root @ CHR ''/'' # n) = root" "filename (root @ CHR ''/'' # n) = n"
  using parent_path_dir [OF assms] filename_dir [OF assms] by simp_all

lemma plain_names [simp]: "plain_name ''key''" "plain_name ''snapshot''" "plain_name ''data''"
  by (simp_all add: plain_name_def)

lemma valid_dir_parent:
  assumes "plain_dir root" and "valid_dir d"
  shows "parent_path (root @ d) = root \<or> (\<exists>d'. valid_dir d' \<and> length d' < length d \<and> parent_path (root @ d) = root @ d')"
    and "filename (root @ d) \<noteq> ''.''" and "filename (root @ d) \<noteq> ''..''"
proof -
  have data: "plain_dir (root @ ''/data'')" using plain_dir_sub [OF assms(1), of "''data''"] by simp
  show "parent_path (root @ d) = root \<or> (\<exists>d'. valid_dir d' \<and> length d' < length d \<and> parent_path (root @ d) = root @ d')"
    using assms(2) parent_below [OF assms(1)] parent_below [OF data]
    by (auto simp: valid_dir_def data_name_def)
  show "filename (root @ d) \<noteq> ''.''" "filename (root @ d) \<noteq> ''..''"
    using assms(2) parent_below [OF assms(1)] parent_below [OF data]
    by (auto simp: valid_dir_def data_name_def)
qed

lemma valid_name_parent:
  assumes "plain_dir root" and "valid_name n"
  shows "parent_path (root @ n) = root \<or> (\<exists>d. valid_dir d \<and> parent_path (root @ n) = root @ d)"
  using assms(2)
proof (cases rule: valid_nameE)
  case 1
  then show ?thesis using parent_below [OF assms(1), of "''key''"] by simp
next
  case (2 m)
  then show ?thesis using parent_below [OF plain_dir_sub [OF assms(1), of "''snapshot''"], of m] by (auto simp: valid_dir_def)
next
  case (3 a b)
  have "plain_dir (root @ ''/data/'' @ a)"
    using plain_dir_sub [OF plain_dir_sub [OF assms(1), of "''data''"] data_name_plain [OF 3(2)]] by simp
  from parent_below [OF this 3(3)] 3 show ?thesis by (auto simp: valid_dir_def)
qed

text \<open>Whether a path lies below a regular file depends on shorter paths only.\<close>

lemma under_file_cong:
  "(\<And>q. length q < length p \<Longrightarrow> fs_node fs' q = fs_node fs q) \<Longrightarrow> under_file fs' p = under_file fs p"
proof (induction fs' p rule: under_file.induct)
  case (1 fs' p)
  show ?case
  proof (cases "p = []")
    case False
    have "fs_node fs' (parent_path p) = fs_node fs (parent_path p)" using 1(3) parent_path_shorter [OF False] by simp
    moreover have "under_file fs' (parent_path p) = under_file fs (parent_path p)"
      if "\<And>d. fs_node fs' (parent_path p) \<noteq> Some (RegNode d)"
    proof -
      have sub: "\<And>q. length q < length (parent_path p) \<Longrightarrow> fs_node fs' q = fs_node fs q"
        using 1(3) parent_path_shorter [OF False] by simp
      show ?thesis
      proof (cases "fs_node fs' (parent_path p)")
        case None
        then show ?thesis using 1(1) [OF False None sub] by simp
      next
        case (Some x)
        then have "x = DirNode" using that by (cases x) auto
        with Some show ?thesis using 1(2) [OF False Some _ sub] by simp
      qed
    qed
    ultimately show ?thesis
      by (subst under_file.simps, subst (2) under_file.simps) (simp split: option.splits fnode.splits)
  qed (simp add: under_file.simps)
qed

lemma not_under_file_dir:
  assumes "file_store_ok root fs" and "valid_dir d"
  shows "\<not> under_file fs (root @ d)"
  using assms(2)
proof (induction "length d" arbitrary: d rule: less_induct)
  case less
  have root: "plain_dir root" "fs_node fs root = Some DirNode" "\<not> under_file fs root"
    using assms(1) by (auto simp: file_store_ok_def)
  from valid_dir_parent(1) [OF root(1) less.prems] consider "parent_path (root @ d) = root"
    | d' where "valid_dir d'" "length d' < length d" "parent_path (root @ d) = root @ d'" by blast
  then show ?case
  proof cases
    case 1
    then show ?thesis using root by (subst under_file.simps) simp
  next
    case 2
    have "fs_node fs (root @ d') = None \<or> fs_node fs (root @ d') = Some DirNode"
      using assms(1) 2(1) by (auto simp: file_store_ok_def)
    with less.hyps [OF 2(2,1)] 2(3) show ?thesis by (subst under_file.simps) auto
  qed
qed

lemma not_under_file:
  assumes "file_store_ok root fs" and "valid_name n"
  shows "\<not> under_file fs (root @ n)"
proof -
  have root: "plain_dir root" "fs_node fs root = Some DirNode" "\<not> under_file fs root"
    using assms(1) by (auto simp: file_store_ok_def)
  from valid_name_parent [OF root(1) assms(2)] consider "parent_path (root @ n) = root"
    | d where "valid_dir d" "parent_path (root @ n) = root @ d" by blast
  then show ?thesis
  proof cases
    case 1
    then show ?thesis using root by (subst under_file.simps) simp
  next
    case 2
    have "fs_node fs (root @ d) = None \<or> fs_node fs (root @ d) = Some DirNode"
      using assms(1) 2(1) by (auto simp: file_store_ok_def)
    with not_under_file_dir [OF assms(1) 2(1)] 2(2) show ?thesis by (subst under_file.simps) auto
  qed
qed

section \<open>What keeps the store well formed\<close>

text \<open>The directory of an object is not an object.\<close>

lemma parent_not_object:
  assumes "plain_dir root" and "valid_name n" and "valid_name m"
  shows "parent_path (root @ n) \<noteq> root @ m"
  using valid_name_parent [OF assms(1,2)] assms(3) valid_nonempty(1) [OF assms(3)] valid_name_not_dir [OF assms(3)] by auto

lemma file_store_ok_write:
  assumes "file_store_ok root fs" and "valid_name n" and "fs_node fs (parent_path (root @ n)) = Some DirNode"
  shows "file_store_ok root (fs_write (root @ n) bs fs)"
    and "file_objects root (fs_write (root @ n) bs fs) = (file_objects root fs)(n \<mapsto> bs)"
proof -
  have "under_file (fs_write (root @ n) bs fs) root = under_file fs root"
    by (rule under_file_cong) auto
  then show "file_store_ok root (fs_write (root @ n) bs fs)"
    using assms valid_name_not_dir [of n] by (auto simp: file_store_ok_def parent_not_object valid_nonempty)
  show "file_objects root (fs_write (root @ n) bs fs) = (file_objects root fs)(n \<mapsto> bs)"
    using assms(2) by (intro ext) (simp add: file_objects_def)
qed

lemma file_store_ok_remove:
  assumes "file_store_ok root fs" and "valid_name n"
  shows "file_store_ok root (fs_remove (root @ n) fs)"
    and "file_objects root (fs_remove (root @ n) fs) = (file_objects root fs)(n := None)"
proof -
  have "under_file (fs_remove (root @ n) fs) root = under_file fs root"
    by (rule under_file_cong) auto
  then show "file_store_ok root (fs_remove (root @ n) fs)"
    using assms by (auto simp: file_store_ok_def parent_not_object valid_nonempty)
  show "file_objects root (fs_remove (root @ n) fs) = (file_objects root fs)(n := None)"
    using assms(2) by (intro ext) (simp add: file_objects_def)
qed

lemma file_store_ok_mkdir:
  assumes "file_store_ok root fs" and "valid_dir d" and "fs_node fs (root @ d) = None"
  shows "file_store_ok root (fs_mkdir (root @ d) fs)"
    and "file_objects root (fs_mkdir (root @ d) fs) = file_objects root fs"
proof -
  have "under_file (fs_mkdir (root @ d) fs) root = under_file fs root"
    by (rule under_file_cong) auto
  then show "file_store_ok root (fs_mkdir (root @ d) fs)"
    using assms valid_name_not_dir [of d] by (auto simp: file_store_ok_def valid_nonempty)
  show "file_objects root (fs_mkdir (root @ d) fs) = file_objects root fs"
    using assms(2,3) valid_name_not_dir by (intro ext) (auto simp: file_objects_def)
qed

text \<open>Files outside the directory of the store are not touched.\<close>

definition same_outside :: "string \<Rightarrow> filesys \<Rightarrow> filesys \<Rightarrow> bool" where
  "same_outside root fs fs' \<longleftrightarrow> fs_bad fs' = fs_bad fs \<and> (\<forall>q. (\<forall>r. q \<noteq> root @ ''/'' @ r) \<longrightarrow> fs_node fs' q = fs_node fs q)"

lemma same_outside_refl [simp]: "same_outside root fs fs"
  by (simp add: same_outside_def)

lemma same_outside_trans: "same_outside root fs fs1 \<Longrightarrow> same_outside root fs1 fs2 \<Longrightarrow> same_outside root fs fs2"
  by (simp add: same_outside_def)

lemma valid_inside: "valid_name n \<or> valid_dir n \<Longrightarrow> \<exists>r. n = ''/'' @ r"
  by (auto simp: valid_name_def valid_dir_def)

lemma same_outside_update:
  assumes "valid_name n \<or> valid_dir n"
  shows "same_outside root fs (fs_write (root @ n) d fs)" "same_outside root fs (fs_remove (root @ n) fs)" "same_outside root fs (fs_mkdir (root @ n) fs)"
  using valid_inside [OF assms] by (auto simp: same_outside_def)

lemma create_directories_ok:
  assumes "file_store_ok root fs" and "valid_dir d"
  shows "\<exists>b fs'. create_directories (root @ d) fs = Some (Inr b, fs') \<and> file_store_ok root fs'
     \<and> file_objects root fs' = file_objects root fs \<and> fs_node fs' (root @ d) = Some DirNode \<and> same_outside root fs fs'"
  using assms(2)
proof (induction "length d" arbitrary: d rule: less_induct)
  case less
  have root: "plain_dir root" "fs_node fs root = Some DirNode" "root \<noteq> []"
    using assms(1) by (auto simp: file_store_ok_def plain_dir_def)
  let ?p = "root @ d"
  have dn: "fs_node fs ?p = None \<or> fs_node fs ?p = Some DirNode"
    using assms(1) less.prems by (auto simp: file_store_ok_def)
  note name = valid_dir_parent(2,3) [OF root(1) less.prems]
  note simps = create_directories.simps [of ?p] name root(3)
  from valid_dir_parent(1) [OF root(1) less.prems] consider "fs_node fs ?p = Some DirNode"
    | "fs_node fs ?p = None" "fs_node fs (parent_path ?p) = Some DirNode"
    | d' where "fs_node fs ?p = None" "valid_dir d'" "length d' < length d" "parent_path ?p = root @ d'" "fs_node fs (root @ d') = None"
    using dn root(2) assms(1) by (auto simp: file_store_ok_def)
  then show ?case
  proof cases
    case 1
    then show ?thesis using assms(1) by (intro exI [of _ False] exI [of _ fs]) (simp add: simps)
  next
    case 2
    then show ?thesis using file_store_ok_mkdir [OF assms(1) less.prems] same_outside_update(3) less.prems by (auto simp: simps create_directory_def)
  next
    case 3
    obtain b fs' where fs': "create_directories (root @ d') fs = Some (Inr b, fs')" "file_store_ok root fs'"
      "file_objects root fs' = file_objects root fs" "fs_node fs' (root @ d') = Some DirNode" "same_outside root fs fs'"
      using less.hyps [OF 3(3,2)] by blast
    have dn': "fs_node fs' ?p = None \<or> fs_node fs' ?p = Some DirNode"
      using fs'(2) less.prems by (auto simp: file_store_ok_def)
    show ?thesis using dn'
    proof
      assume "fs_node fs' ?p = None"
      then show ?thesis using 3 fs' file_store_ok_mkdir [OF fs'(2) less.prems] same_outside_trans [OF fs'(5) same_outside_update(3)] less.prems
        by (auto simp: simps create_directory_def)
    qed (use 3 fs' in \<open>auto simp: simps create_directory_def\<close>)
  qed
qed

section \<open>Reading and writing objects\<close>

definition cfile_inv :: "cfile \<Rightarrow> bool" where
  "cfile_inv f \<longleftrightarrow> cf_mode f = FileMode_Read \<and> cf_bad f = None \<and> \<not> cf_error f"

definition cfile_rest :: "cfile \<Rightarrow> bytes" where
  "cfile_rest f = drop (cf_pos f) (cf_data f)"

interpretation cfile_in: input_stream fread_io cfile_rest cfile_inv
  by unfold_locales (auto simp: fread_io_def fread_def cfile_rest_def cfile_inv_def Let_def add.commute min_def)

lemma get_body_feed:
  assumes "quiet pr" and "tmp_room t (length (concat xs) + k)"
  shows "\<exists>p' t' br'. feed (get_body pr sz) xs (p, t, br) = Some (Inr (), (p', t', br'))
     \<and> tmp_written t' = tmp_written t @ concat xs \<and> tmp_room t' k"
  using assms(2)
proof (induction xs arbitrary: p t br)
  case (Cons x xs)
  have "tmp_room t (length x + (length (concat xs) + k))" using Cons.prems by (simp add: add.assoc)
  then obtain t1 where t1: "TempFileStream_write x t = Some (Inr (), t1)" "tmp_written t1 = tmp_written t @ x"
    "tmp_room t1 (length (concat xs) + k)" using tmp_out.write_ok tmp_out.room_mono by (metis le_add1)
  obtain p1 where p1: "pr br sz p = (True, p1)" using assms(1) by (metis quiet_def prod.collapse)
  from Cons.IH [OF t1(3), of p1 "br + int (length x)"] t1(1,2) p1 show ?case
    by (auto simp: get_body_def)
qed simp

lemma file_get_ok:
  assumes "file_store_ok root fs" and "valid_name n" and "file_objects root fs n = Some bs" and "quiet pr"
    and "tmp_room t (length bs + k)"
  shows "\<exists>p' t'. FileDataStore_get root n pr (fs, p, t) = Some (Inr (), (fs, p', t'))
     \<and> tmp_written t' = tmp_written t @ bs \<and> tmp_room t' k"
proof -
  let ?sz = "int (length bs)"
  have node: "fs_node fs (root @ n) = Some (RegNode bs)"
    using assms(2,3) by (auto simp: file_objects_def split: option.splits fnode.splits)
  define f where "f = \<lparr>cf_data = bs, cf_pos = 0, cf_mode = FileMode_Read, cf_error = False, cf_bad = None, cf_limit = fs_limit fs\<rparr>"
  have open_f: "fopen (root @ n) FileMode_Read fs = Some (f, fs)"
    using assms(1,2) node by (simp add: fopen_def f_def file_store_ok_def)
  have f: "cfile_inv f" "cfile_rest f = bs" by (simp_all add: f_def cfile_inv_def cfile_rest_def)
  obtain p1 t1 br where fd: "feed (get_body pr ?sz) (chunks 4096 bs) (snd (pr 0 ?sz p), t, 0) = Some (Inr (), (p1, t1, br))"
    "tmp_written t1 = tmp_written t @ bs" "tmp_room t1 k"
    using get_body_feed [OF assms(4), of t "chunks 4096 bs" k ?sz "snd (pr 0 ?sz p)" 0] assms(5)
    by (auto simp: concat_chunks)
  obtain f' where f': "read_each fread_io 4096 (get_body pr ?sz) (f, (snd (pr 0 ?sz p), t, 0)) = Some (Inr (), (f', (p1, t1, br)))"
    "cfile_inv f'"
    using cfile_in.read_each_ok [OF f(1), of 4096 "get_body pr ?sz" "(snd (pr 0 ?sz p), t, 0)" "(p1, t1, br)"] fd(1) f(2) by auto
  then have "\<not> cf_error f'" by (simp add: cfile_inv_def)
  with f' fd node open_f show ?thesis by (simp add: FileDataStore_get_def valid_name_full [OF assms(2)])
qed

lemma file_get_missing:
  assumes "file_store_ok root fs" and "valid_name n" and "file_objects root fs n = None"
  shows "FileDataStore_get root n pr (fs, p, t) = Some (Inl FileNotFoundException, (fs, p, t))"
proof -
  have "fs_node fs (root @ n) = None"
    using assms by (auto simp: file_objects_def file_store_ok_def split: option.splits fnode.splits)
  then show ?thesis using not_under_file [OF assms(1,2)]
    by (simp add: FileDataStore_get_def valid_name_full [OF assms(2)] fopen_def)
qed

text \<open>Writing goes on until the progress function asks to stop.\<close>

lemma put_body_feed:
  assumes "cf_mode f = FileMode_Write" and "cf_pos f = length (cf_data f)" and "cf_limit f = None"
  shows "(\<exists>f' p' bw'. feed (put_body q pr sz) xs (Some f, fs, p, bw) = Some (Inr (), (Some f', fs, p', bw'))
       \<and> cf_data f' = cf_data f @ concat xs \<and> cf_mode f' = FileMode_Write)
     \<or> \<not> quiet pr \<and> (\<exists>d p' bw'. feed (put_body q pr sz) xs (Some f, fs, p, bw)
       = Some (Inl CancelledException, (None, fs_remove q (fs_write q d fs), p', bw')))"
  using assms
proof (induction xs arbitrary: f p bw)
  case (Cons x xs)
  obtain f1 where f1: "fwrite x f = (length x, f1)" "cf_data f1 = cf_data f @ x" "cf_pos f1 = length (cf_data f1)"
    "cf_mode f1 = FileMode_Write" "cf_limit f1 = None"
    using fwrite_append [OF Cons.prems(1,2), of x] Cons.prems(3) by (auto simp: limit_ok_def)
  obtain go p1 where p1: "pr bw sz p = (go, p1)" by force
  show ?case
  proof (cases go)
    case True
    then have "feed (put_body q pr sz) (x # xs) (Some f, fs, p, bw) =
        feed (put_body q pr sz) xs (Some f1, fs, p1, bw + int (length x))"
      by (simp add: put_body_def f1 p1)
    with Cons.IH [OF f1(4,3,5), of p1 "bw + int (length x)"] f1(2) show ?thesis by simp
  next
    case False
    then have "\<not> quiet pr" using p1 by (metis fst_conv quiet_def)
    with False show ?thesis by (simp add: put_body_def f1 p1 fclose_def fs_unlink_def) blast
  qed
qed simp

text \<open>A put either stores the whole stream or is cancelled, and then leaves no object under the name.\<close>

lemma put_file_ok:
  assumes "fs_can_create fs q" and "fs_limit fs = None" and "any_inv s"
  shows "\<exists>p' s'. put_file q pr (fs, p, s) = Some (Inr (), (fs_write q (any_rest s) (fs_write q [] fs), p', s'))
     \<or> \<not> quiet pr \<and> (\<exists>d. put_file q pr (fs, p, s) =
           Some (Inl CancelledException, (fs_remove q (fs_write q d (fs_write q [] fs)), p', s')))"
proof -
  let ?sz = "int (length (any_whole s))"
  define f where "f = \<lparr>cf_data = [], cf_pos = 0, cf_mode = FileMode_Write, cf_error = False,
     cf_bad = map_of (fs_bad fs) q, cf_limit = None\<rparr>"
  have open_f: "fopen q FileMode_Write fs = Some (f, fs_write q [] fs)"
    using assms(1,2) by (simp add: fopen_def f_def)
  let ?fs = "fs_write q [] fs" and ?body = "put_body q pr ?sz" and ?c = "(Some f, fs_write q [] fs, snd (pr 0 ?sz p), 0)"
  have n63: "(4096 :: nat) < 2 ^ 63" "0 < (4096 :: nat)" by simp_all
  note size = any_size_ok [OF assms(3)]
  consider f' p' bw' where "feed ?body (chunks 4096 (any_rest s)) ?c = Some (Inr (), (Some f', ?fs, p', bw'))"
      "cf_data f' = any_rest s" "cf_mode f' = FileMode_Write"
    | d p' bw' where "\<not> quiet pr" "feed ?body (chunks 4096 (any_rest s)) ?c
        = Some (Inl CancelledException, (None, fs_remove q (fs_write q d ?fs), p', bw'))"
    using put_body_feed [of f q pr ?sz "chunks 4096 (any_rest s)" ?fs "snd (pr 0 ?sz p)" 0]
    by (auto simp: f_def concat_chunks)
  then show ?thesis
  proof cases
    case 1
    obtain s' where "read_each (is_read any_methods) 4096 ?body (s, ?c) = Some (Inr (), (s', (Some f', ?fs, p', bw')))"
      using any_in.read_each_ok [OF assms(3) n63(2,1) 1(1)] by blast
    with 1 show ?thesis by (simp add: put_file_def open_f size close_fp_def fclose_def)
  next
    case 2
    obtain s' where "read_each (is_read any_methods) 4096 ?body (s, ?c)
        = Some (Inl CancelledException, (s', (None, fs_remove q (fs_write q d ?fs), p', bw')))"
      using any_in.read_each_error [OF assms(3) n63(2,1) 2(2)] by blast
    with 2 show ?thesis by (simp add: put_file_def open_f size close_fp_def) blast
  qed
qed

lemma fs_remove_write [simp]: "fs_remove q (fs_write q d fs) = fs_remove q fs"
  by (simp add: fs_remove_def fs_write_def delete_update_same)

lemma fs_write_write [simp]: "fs_write q d (fs_write q e fs) = fs_write q d fs"
proof -
  have "AList.update q x (AList.update q y al) = AList.update q x al" for x y and al :: "(string \<times> fnode) list"
    by (induction al) auto
  then show ?thesis by (simp add: fs_write_def)
qed

lemma file_put_ok:
  assumes "file_store_ok root fs" and "valid_name n" and "any_inv s"
  shows "\<exists>fs' p' s'. file_store_ok root fs' \<and> same_outside root fs fs' \<and>
     (FileDataStore_put root n pr (fs, p, s) = Some (Inr (), (fs', p', s'))
        \<and> file_objects root fs' = (file_objects root fs)(n \<mapsto> any_rest s)
      \<or> \<not> quiet pr \<and> FileDataStore_put root n pr (fs, p, s) = Some (Inl CancelledException, (fs', p', s'))
        \<and> file_objects root fs' = (file_objects root fs)(n := None))"
proof -
  let ?q = "root @ n" and ?d = "parent_path (root @ n)"
  have root: "plain_dir root" "fs_node fs root = Some DirNode" "root \<noteq> []"
    using assms(1) by (auto simp: file_store_ok_def plain_dir_def)
  obtain b fs1 where fs1: "(if fs_node fs ?d = None then create_directories ?d fs else Some (Inr False, fs)) = Some (Inr b, fs1)"
    "file_store_ok root fs1" "file_objects root fs1 = file_objects root fs" "fs_node fs1 ?d = Some DirNode" "same_outside root fs fs1"
  proof (cases "fs_node fs ?d = None")
    case True
    with valid_name_parent [OF root(1) assms(2)] root(2) obtain d where d: "valid_dir d" "?d = root @ d" by auto
    from create_directories_ok [OF assms(1) d(1)] True that show ?thesis unfolding d(2) by auto
  next
    case False
    from valid_name_parent [OF root(1) assms(2)] have "fs_node fs ?d = Some DirNode"
    proof
      assume "\<exists>d. valid_dir d \<and> ?d = root @ d"
      then obtain d where "valid_dir d" "?d = root @ d" by blast
      with False assms(1) show ?thesis by (auto simp: file_store_ok_def)
    qed (use root(2) in simp)
    with that [of False fs] assms(1) show ?thesis by simp
  qed
  have "?q \<noteq> []" using root(3) by simp
  with fs1(2,4) assms(2) have "fs_can_create fs1 ?q" "fs_limit fs1 = None"
    by (auto simp: fs_can_create_def file_store_ok_def)
  from put_file_ok [OF this assms(3), of pr p]
  have *: "\<exists>p' s'. put_file ?q pr (fs1, p, s) = Some (Inr (), (fs_write ?q (any_rest s) fs1, p', s'))
     \<or> \<not> quiet pr \<and> put_file ?q pr (fs1, p, s) = Some (Inl CancelledException, (fs_remove ?q fs1, p', s'))" by simp
  have "FileDataStore_put root n pr (fs, p, s) = put_file ?q pr (fs1, p, s)"
    unfolding FileDataStore_put_def valid_name_full [OF assms(2)] Let_def prod.case fs1(1) by simp
  moreover have "same_outside root fs (fs_write ?q (any_rest s) fs1)" "same_outside root fs (fs_remove ?q fs1)"
    using same_outside_trans [OF fs1(5)] same_outside_update assms(2) by blast+
  ultimately show ?thesis using * file_store_ok_write [OF fs1(2) assms(2) fs1(4), of "any_rest s"] file_store_ok_remove [OF fs1(2) assms(2)]
    unfolding fs1(3) by metis
qed

lemma file_exist_ok:
  assumes "file_store_ok root fs" and "valid_name n"
  shows "FileDataStore_exist root n pr (fs, p) = Some (Inr (file_objects root fs n \<noteq> None), (fs, snd (pr 1 1 p)))"
  using assms by (auto simp: FileDataStore_exist_def valid_name_full file_objects_def file_store_ok_def
      split: option.splits fnode.splits)

lemma file_unlink_ok:
  assumes "file_store_ok root fs" and "valid_name n"
  shows "\<exists>fs'. FileDataStore_unlink root n pr (fs, p) = Some (Inr (file_objects root fs n \<noteq> None), (fs', snd (pr 1 1 p)))
     \<and> file_store_ok root fs' \<and> same_outside root fs fs' \<and> file_objects root fs' = (file_objects root fs)(n := None)"
proof (cases "fs_node fs (root @ n)")
  case None
  then show ?thesis using assms
    by (auto simp: FileDataStore_unlink_def valid_name_full fs_unlink_def file_objects_def fun_eq_iff)
next
  case (Some x)
  then obtain d where "fs_node fs (root @ n) = Some (RegNode d)"
    using assms by (cases x) (auto simp: file_store_ok_def)
  then show ?thesis using assms(2) file_store_ok_remove [OF assms] same_outside_update(2)
    by (auto simp: FileDataStore_unlink_def valid_name_full fs_unlink_def file_objects_def)
qed

text \<open>Listing \<^verbatim>\<open>/snapshot\<close> delivers the names of the objects there.\<close>

lemma fs_entries_iff:
  assumes "plain_dir d"
  shows "q \<in> set (fs_entries fs d) \<longleftrightarrow> (\<exists>n. plain_name n \<and> q = d @ ''/'' @ n \<and> fs_node fs q \<noteq> None)"
proof -
  have "path_append d n = d @ ''/'' @ n" if "plain_name n" for n
    using that assms by (cases n) (auto simp: path_append_def plain_name_def plain_dir_def is_sep_def)
  moreover have "q \<in> fst ` set (fs_nodes fs) \<longleftrightarrow> fs_node fs q \<noteq> None"
    by (simp add: fs_node_def map_of_eq_None_iff)
  ultimately show ?thesis using filename_dir [OF assms] by (auto simp: fs_entries_def simp del: append_Cons)
qed

lemma file_list_ok:
  assumes "file_store_ok root fs" and "fs_node fs (root @ ''/snapshot'') = Some DirNode"
  shows "\<exists>ns. FileDataStore_list root ''/snapshot'' pr (fs, p) = Some (Inr (map Some ns @ [None]), (fs, p)) \<and> distinct ns
     \<and> set ns = {n. plain_name n \<and> file_objects root fs (''/snapshot/'' @ n) \<noteq> None}"
proof -
  let ?d = "root @ ''/snapshot''"
  have root: "plain_dir root" using assms(1) by (simp add: file_store_ok_def)
  have d: "plain_dir ?d" using plain_dir_sub [OF root, of "''snapshot''"] by simp
  define qs where "qs = filter (\<lambda>q. fs_node fs q \<noteq> Some DirNode) (fs_entries fs ?d)"
  have qs: "q \<in> set qs \<longleftrightarrow> (\<exists>n. plain_name n \<and> q = ?d @ ''/'' @ n \<and> file_objects root fs (''/snapshot/'' @ n) \<noteq> None)" for q
  proof -
    have "fs_node fs (?d @ ''/'' @ n) \<noteq> None \<and> fs_node fs (?d @ ''/'' @ n) \<noteq> Some DirNode
        \<longleftrightarrow> file_objects root fs (''/snapshot/'' @ n) \<noteq> None" if "plain_name n" for n
    proof -
      have "valid_name (''/snapshot/'' @ n)" using that by (auto simp: valid_name_def)
      then show ?thesis by (auto simp: file_objects_def split: option.splits fnode.splits)
    qed
    then show ?thesis unfolding qs_def set_filter mem_Collect_eq fs_entries_iff [OF d] by metis
  qed
  have "distinct qs" by (simp add: qs_def fs_entries_def)
  moreover have "inj_on filename (set qs)"
  proof (rule inj_onI)
    fix q q'
    assume "q \<in> set qs" and "q' \<in> set qs" and eq: "filename q = filename q'"
    then obtain n m where nm: "plain_name n" "q = ?d @ ''/'' @ n" "plain_name m" "q' = ?d @ ''/'' @ m" using qs by blast
    then show "q = q'" using eq filename_dir [OF d nm(1)] filename_dir [OF d nm(3)] by metis
  qed
  moreover have "filename ` set qs = {n. plain_name n \<and> file_objects root fs (''/snapshot/'' @ n) \<noteq> None}"
  proof (intro set_eqI iffI)
    fix n
    assume "n \<in> filename ` set qs"
    then obtain q where q: "n = filename q" "q \<in> set qs" by (rule imageE)
    from q(2) [unfolded qs] obtain m where m: "plain_name m" "q = ?d @ ''/'' @ m" "file_objects root fs (''/snapshot/'' @ m) \<noteq> None"
      by (elim exE conjE)
    then have "n = m" using filename_dir [OF d m(1)] q(1) by (simp only:)
    with m show "n \<in> {n. plain_name n \<and> file_objects root fs (''/snapshot/'' @ n) \<noteq> None}" by (simp only: mem_Collect_eq simp_thms)
  next
    fix n
    assume "n \<in> {n. plain_name n \<and> file_objects root fs (''/snapshot/'' @ n) \<noteq> None}"
    then have n: "plain_name n" "file_objects root fs (''/snapshot/'' @ n) \<noteq> None" by simp_all
    have "?d @ ''/'' @ n \<in> set qs" unfolding qs by (intro exI [of _ n] conjI refl n)
    then show "n \<in> filename ` set qs" by (rule rev_image_eqI) (simp only: filename_dir [OF d n(1)])
  qed
  moreover have "path_append root ''/snapshot'' = ?d" by (simp add: path_append_def is_sep_def)
  ultimately show ?thesis using assms(2)
    by (intro exI [of _ "map filename qs"]) (simp add: FileDataStore_list_def distinct_map qs_def comp_def)
qed

interpretation file_store: data_store "FileDataStore root" "file_objects root" "file_store_ok root" for root
proof unfold_locales
  fix d n s and pr :: "'p progress" and p
  assume "file_store_ok root d" "valid_name n" "quiet pr" "any_inv s"
  then show "\<exists>d' p' s'. ds_put (FileDataStore root) n pr (d, p, s) = Some (Inr (), (d', p', s')) \<and> file_store_ok root d'
      \<and> file_objects root d' = (file_objects root d)(n \<mapsto> any_rest s)"
    using file_put_ok [of root d n s pr p] by auto
next
  fix d n and pr :: "'p progress" and p
  assume ok: "file_store_ok root d" and n: "plain_name n" "file_objects root d (''/snapshot/'' @ n) \<noteq> None"
  have "valid_name (''/snapshot/'' @ n)" using n(1) by (auto simp: valid_name_def)
  then have "fs_node d (parent_path (root @ ''/snapshot/'' @ n)) = Some DirNode"
    using ok n(2) by (auto simp: file_store_ok_def file_objects_def split: option.splits)
  moreover have "plain_dir root" using ok by (simp add: file_store_ok_def)
  then have "parent_path (root @ ''/snapshot/'' @ n) = root @ ''/snapshot''"
    using parent_below [OF plain_dir_sub [of root "''snapshot''"] n(1)] by simp
  ultimately show "\<exists>p' ns. ds_list (FileDataStore root) ''/snapshot'' pr (d, p) = Some (Inr (map Some ns @ [None]), (d, p'))
      \<and> distinct ns \<and> set ns = {n. plain_name n \<and> file_objects root d (''/snapshot/'' @ n) \<noteq> None}"
    using file_list_ok [OF ok, of pr p] by auto
qed (use file_get_ok file_get_missing file_exist_ok file_unlink_ok in \<open>fastforce+\<close>)

section \<open>Properties\<close>

text \<open>A store in the directory \<open>/s\<close>, for the evaluations below.\<close>

definition store_disk :: filesys where
  "store_disk = \<lparr>fs_nodes = [(''/s'', DirNode)], fs_bad = [], fs_limit = None, fs_unique = ''tmp''\<rparr>"

lemma store_disk_ok: "file_store_ok ''/s'' store_disk"
proof -
  have "parent_path ''/s'' = ''/''" "parent_path ''/'' = []" by code_simp+
  then have "\<not> under_file store_disk ''/s''"
    by (simp add: under_file.simps store_disk_def fs_node_def)
  moreover have "plain_dir ''/s''" by (simp add: plain_dir_def sep_at_def is_sep_def)
  ultimately show ?thesis
    using valid_nonempty by (auto simp: file_store_ok_def store_disk_def fs_node_def)
qed

lemma store_disk_objects: "file_objects ''/s'' store_disk = Map.empty"
  using valid_nonempty by (auto simp: file_objects_def store_disk_def fs_node_def fun_eq_iff)

text \<open>C23. The directory store implements the abstract data store, a map from object names to byte strings: all of
  \<^verbatim>\<open>exist\<close>, \<^verbatim>\<open>get\<close>, \<^verbatim>\<open>put\<close>, \<^verbatim>\<open>list\<close> and \<^verbatim>\<open>unlink\<close> terminate and act on the objects as the map operations do, and keep
  the directory well formed.\<close>

theorem file_store_refines_map: "data_store (FileDataStore root) (file_objects root) (file_store_ok root)"
  by (rule file_store.data_store_axioms)

text \<open>What \<^verbatim>\<open>FileDataStore::put\<close> has stored, \<^verbatim>\<open>get\<close> delivers: with a progress function that never cancels, a put
  creates the missing directories and stores the whole stream, a later get appends exactly these bytes to its
  output stream, and every other object is what it was.\<close>

theorem file_store_put_get:
  assumes "file_store_ok root fs" and "valid_name n" and "any_inv s" and "quiet pr"
  shows "\<exists>fs' p' s'. FileDataStore_put root n pr (fs, p, s) = Some (Inr (), (fs', p', s')) \<and> file_store_ok root fs'
     \<and> (\<forall>t. tmp_room t (length (any_rest s)) \<longrightarrow> (\<exists>p'' t'. FileDataStore_get root n pr (fs', p', t)
            = Some (Inr (), (fs', p'', t')) \<and> tmp_written t' = tmp_written t @ any_rest s))
     \<and> (\<forall>m. m \<noteq> n \<longrightarrow> file_objects root fs' m = file_objects root fs m)"
proof -
  obtain fs' p' s' where put: "FileDataStore_put root n pr (fs, p, s) = Some (Inr (), (fs', p', s'))" "file_store_ok root fs'"
    "file_objects root fs' = (file_objects root fs)(n \<mapsto> any_rest s)"
    using file_put_ok [OF assms(1-3), of pr p] assms(4) by blast
  have "\<exists>p'' t'. FileDataStore_get root n pr (fs', p', t) = Some (Inr (), (fs', p'', t')) \<and> tmp_written t' = tmp_written t @ any_rest s"
    if "tmp_room t (length (any_rest s))" for t
    using file_get_ok [OF put(2) assms(2) _ assms(4), of "any_rest s" t 0 p'] put(3) that by auto
  with put show ?thesis by (intro exI [of _ fs'] exI [of _ p'] exI [of _ s']) simp
qed

theorem file_store_put_get_witness:
  "\<exists>fs' p'' t' p' s'. FileDataStore_put ''/s'' ''/data/0a/b'' DefaultProgressFunction
       (store_disk, (), BaseIn (MemIn (MemoryInputStream_new [1, 2, 3]))) = Some (Inr (), (fs', p', s'))
     \<and> FileDataStore_get ''/s'' ''/data/0a/b'' DefaultProgressFunction (fs', p', TempFileStream_new empty_disk)
       = Some (Inr (), (fs', p'', t')) \<and> tmp_written t' = [1, 2, 3]"
proof -
  have n: "valid_name ''/data/0a/b''"
    unfolding valid_name_def by (intro disjI2 exI [of _ "''0a''"] exI [of _ "''b''"]) (simp add: data_name_def plain_name_def)
  have s: "any_inv (BaseIn (MemIn (MemoryInputStream_new [1, 2, 3])))"
    "any_rest (BaseIn (MemIn (MemoryInputStream_new [1, 2, 3]))) = [1, 2, 3]" by (simp_all add: mem_new)
  have room: "tmp_room (TempFileStream_new empty_disk) k" for k by (rule tmp_room_free [OF empty_disk_free])
  obtain fs' p' s' where a: "FileDataStore_put ''/s'' ''/data/0a/b'' DefaultProgressFunction
      (store_disk, (), BaseIn (MemIn (MemoryInputStream_new [1, 2, 3]))) = Some (Inr (), (fs', p', s'))"
    "\<forall>t. tmp_room t (length [1, 2, 3 :: byte]) \<longrightarrow> (\<exists>p'' t'. FileDataStore_get ''/s'' ''/data/0a/b'' DefaultProgressFunction (fs', p', t)
        = Some (Inr (), (fs', p'', t')) \<and> tmp_written t' = tmp_written t @ [1, 2, 3])"
    using file_store_put_get [OF store_disk_ok n s(1) quiet_default, of "()"] unfolding s(2) by blast
  from a(2) room obtain p'' t' where "FileDataStore_get ''/s'' ''/data/0a/b'' DefaultProgressFunction (fs', p', TempFileStream_new empty_disk)
        = Some (Inr (), (fs', p'', t'))" "tmp_written t' = [1, 2, 3]" by fastforce
  with a(1) show ?thesis by blast
qed

text \<open>C24. \<^verbatim>\<open>FileDataStore::put\<close> is all or nothing under any progress function: it returns with the whole stream stored, or it
  throws \<^verbatim>\<open>CancelledException\<close> because the progress function asked for it, and then there is no object under the
  name, not even one that was there before. In both cases the other objects are untouched.\<close>

theorem file_store_put_cancelled:
  assumes "file_store_ok root fs" and "valid_name n" and "any_inv s"
  shows "\<exists>r fs' p' s'. FileDataStore_put root n pr (fs, p, s) = Some (r, (fs', p', s')) \<and> file_store_ok root fs' \<and>
     (r = Inr () \<and> file_objects root fs' = (file_objects root fs)(n \<mapsto> any_rest s)
      \<or> r = Inl CancelledException \<and> \<not> quiet pr \<and> file_objects root fs' = (file_objects root fs)(n := None))"
  using file_put_ok [OF assms, of pr p] by blast

theorem file_store_put_cancelled_witness:
  "\<exists>r fs' p' s'. FileDataStore_put ''/s'' ''/key'' (\<lambda>a b p. (False, p))
       (store_disk, (), BaseIn (MemIn (MemoryInputStream_new [1, 2, 3]))) = Some (r, (fs', p', s')) \<and> file_store_ok ''/s'' fs' \<and>
     (r = Inr () \<and> file_objects ''/s'' fs' = (file_objects ''/s'' store_disk)(''/key'' \<mapsto> any_rest (BaseIn (MemIn (MemoryInputStream_new [1, 2, 3]))))
      \<or> r = Inl CancelledException \<and> \<not> quiet (\<lambda>a b p :: unit. (False, p)) \<and>
        file_objects ''/s'' fs' = (file_objects ''/s'' store_disk)(''/key'' := None))"
  by (rule file_store_put_cancelled [OF store_disk_ok]) (simp_all add: valid_name_def mem_new)

text \<open>C25. \<^verbatim>\<open>FileDataStore::list\<close> of the snapshot directory calls back with the name of every snapshot object, once each and
  nothing else, and finally with the null pointer; without that directory, as in a repository that has no snapshot
  yet, it throws a \<^verbatim>\<open>filesystem_error\<close>.\<close>

theorem file_store_list:
  assumes "file_store_ok root fs"
  shows "if fs_node fs (root @ ''/snapshot'') = Some DirNode then
      \<exists>ns. FileDataStore_list root ''/snapshot'' pr (fs, p) = Some (Inr (map Some ns @ [None]), (fs, p)) \<and> distinct ns
        \<and> set ns = {n. plain_name n \<and> file_objects root fs (''/snapshot/'' @ n) \<noteq> None}
    else FileDataStore_list root ''/snapshot'' pr (fs, p) = Some (Inl FilesystemError, (fs, p))"
  using file_list_ok [OF assms, of pr p] by (simp add: FileDataStore_list_def path_append_def is_sep_def)

theorem file_store_list_witness:
  "FileDataStore_list ''/s'' ''/snapshot'' DefaultProgressFunction (store_disk, ()) = Some (Inl FilesystemError, (store_disk, ()))"
  using file_store_list [OF store_disk_ok, of DefaultProgressFunction "()"]
  by (simp add: store_disk_def fs_node_def)

end
