(* ===== verification/Upload.thy ===== *)
theory Upload
  imports Chunking File_Data_Store
begin

text \<open>
  \<^verbatim>\<open>Repository::uploadFile\<close> and what it calls: \<^verbatim>\<open>computeBlockHMAC\<close>, \<^verbatim>\<open>compressEncryptAndUploadBlock\<close>, the pack state with
  \<^verbatim>\<open>addFile\<close>, and \<^verbatim>\<open>finalizePack\<close>.
\<close>

section \<open>Blocks\<close>

type_synonym 'p transfer_progress = "int \<Rightarrow> int \<Rightarrow> 'p progress"

text \<open>A call of a progress function from the repository itself.\<close>

definition progress_io :: "'p progress \<Rightarrow> int \<Rightarrow> int \<Rightarrow> (('d, 'p) session, bool) io" where
  "progress_io pr a b = (\<lambda>w. case pr a b (w_prog w) of (go, p) \<Rightarrow> Some (Inr go, w\<lparr>w_prog := p\<rparr>))"

definition computeBlockHMAC ::
    "('e, 'dc, 'h, 'm, 'l, 'z) env \<Rightarrow> bytes \<Rightarrow> byte \<Rightarrow> (('d, 'p) session, bytes) io" where
  "computeBlockHMAC E block compression =
     bind_io (gets_io w_repo) (\<lambda>R.
     bind_io (lift_option EncryptionFailedException (HMAC_Init E (take SHA256_DIGEST_LENGTH (mHashKey R)))) (\<lambda>ctx.
     bind_io (lift_option EncryptionFailedException (HMAC_Update E ctx [compression])) (\<lambda>ctx.
     bind_io (lift_option EncryptionFailedException (HMAC_Update E ctx block)) (\<lambda>ctx.
     lift_option EncryptionFailedException (HMAC_Final E ctx)))))"

definition compressEncryptAndUploadBlock ::
    "('e, 'dc, 'h, 'm, 'l, 'z) env \<Rightarrow> filesys \<Rightarrow> ('d, 'p) DataStore \<Rightarrow> CompressionType \<Rightarrow> bytes \<Rightarrow> bytes \<Rightarrow> 'p progress \<Rightarrow>
     (('d, 'p) session, unit) io" where
  "compressEncryptAndUploadBlock E fs V compressType objectId block pr =
     bind_io (lift_sum (objectIdToString objectId)) (\<lambda>idStr.
     let uploadPath = ''/data/'' @ idStr; size = int (length block) in
     bind_io (store_exist V uploadPath DefaultProgressFunction) (\<lambda>there.
     if there then
       bind_io (progress_io pr size size) (\<lambda>go. guard_io go CancelledException)
     else
       bind_io (seal_io E fs compressType MemoryInputStream_read (MemoryInputStream_new block)) (\<lambda>encryptedStream.
       store_put V uploadPath (EncIn encryptedStream) pr)))"

section \<open>Packs\<close>

record PackFileInfo =
  pi_path :: string
  pi_user :: string
  pi_group :: string
  pi_type :: FileType
  pi_mode :: u16
  pi_compression :: CompressionType
  pi_size :: u64
  pi_mtime :: u64
  pi_rollingHashBits :: byte
  pi_md5 :: bytes
  pi_offset :: u32
  pi_packLength :: u32

text \<open>\<open>ps_hmac\<close> is \<open>None\<close> until \<^verbatim>\<open>HMAC_Init\<close> and again after \<^verbatim>\<open>HMAC_Final\<close>; what a context does then is not defined.\<close>

record 'h PackUploadState =
  ps_hmac :: "'h option"
  ps_fileInfos :: "PackFileInfo list"
  ps_packData :: "bytes list"
  ps_rollingHash :: "RollingHash option"

definition PackUploadState_new :: "'h PackUploadState" where
  "PackUploadState_new = \<lparr>ps_hmac = None, ps_fileInfos = [], ps_packData = [], ps_rollingHash = None\<rparr>"

definition createPackState :: "'h PackUploadState" where
  "createPackState = PackUploadState_new"

text \<open>\<^verbatim>\<open>addFile\<close> leaves \<^verbatim>\<open>packLength\<close> and \<^verbatim>\<open>objectId\<close> of the new entry unset.\<close>

definition addFile ::
    "('e, 'dc, 'h, 'm, 'l, 'z) env \<Rightarrow> bytes \<Rightarrow> string \<Rightarrow> string \<Rightarrow> string \<Rightarrow> FileType \<Rightarrow> u16 \<Rightarrow> CompressionType \<Rightarrow> u64 \<Rightarrow> u64 \<Rightarrow>
     byte \<Rightarrow> bytes \<Rightarrow> ('h PackUploadState, unit) io" where
  "addFile E data path user grp ftype md compr sz mtim bits md5 = (\<lambda>ps. case ps_hmac ps of
       None \<Rightarrow> Some (Inl UndefinedBehaviour, ps)
     | Some ctx \<Rightarrow>
         (case HMAC_Update E ctx data of
            None \<Rightarrow> Some (Inl EncryptionFailedException, ps)
          | Some ctx' \<Rightarrow>
              Some (Inr (), ps\<lparr>ps_hmac := Some ctx',
                ps_fileInfos := ps_fileInfos ps @
                  [\<lparr>pi_path = path, pi_user = user, pi_group = grp, pi_type = ftype, pi_mode = md, pi_compression = compr,
                    pi_size = sz, pi_mtime = mtim, pi_rollingHashBits = bits, pi_md5 = take MD5_DIGEST_LENGTH md5,
                    pi_offset = of_nat (length (ps_packData ps)), pi_packLength = word_of_le (local_buf E 4)\<rparr>],
                ps_packData := ps_packData ps @ [data]\<rparr>)))"

text \<open>The objects a call of \<^verbatim>\<open>uploadFile\<close> or \<^verbatim>\<open>finalizePack\<close> works on.\<close>

record ('h, 'd, 'p) uploading =
  up_file :: FileStream
  up_pack :: "'h PackUploadState option"
  up_snap :: Snapshot
  up_sess :: "('d, 'p) session"

definition on_file :: "(FileStream, 'a) io \<Rightarrow> (('h, 'd, 'p) uploading, 'a) io" where
  "on_file = zoom_io up_file (\<lambda>f. up_file_update (\<lambda>_. f))"

definition on_snap :: "(Snapshot, 'a) io \<Rightarrow> (('h, 'd, 'p) uploading, 'a) io" where
  "on_snap = zoom_io up_snap (\<lambda>s. up_snap_update (\<lambda>_. s))"

definition on_sess :: "(('d, 'p) session, 'a) io \<Rightarrow> (('h, 'd, 'p) uploading, 'a) io" where
  "on_sess = zoom_io up_sess (\<lambda>w. up_sess_update (\<lambda>_. w))"

text \<open>An operation of the pack state the shared pointer refers to; the callers have checked that it is not null.\<close>

definition on_pack :: "('h PackUploadState, 'a) io \<Rightarrow> (('h, 'd, 'p) uploading, 'a) io" where
  "on_pack m = (\<lambda>u. case up_pack u of
       None \<Rightarrow> Some (Inl UndefinedBehaviour, u)
     | Some ps \<Rightarrow> map_option (\<lambda>(x, ps'). (x, u\<lparr>up_pack := Some ps'\<rparr>)) (m ps))"

text \<open>The loop that encrypts the files of the pack: the streams, and the file infos with their offset and length. \<open>i\<close> is
  the index of the file, \<open>offset\<close> the end of the one before it.\<close>

definition pack_one ::
    "('e, 'dc, 'h, 'm, 'l, 'z) env \<Rightarrow> filesys \<Rightarrow> nat \<Rightarrow> u32 \<Rightarrow> (('h, 'd, 'p) uploading, enc_in \<times> u32) io" where
  "pack_one E fs i offset =
     bind_io (on_pack (gets_io (\<lambda>ps. (pi_compression (ps_fileInfos ps ! i), ps_packData ps ! i)))) (\<lambda>(ct, data).
     bind_io (on_sess (seal_io E fs ct MemoryInputStream_read (MemoryInputStream_new data))) (\<lambda>enc.
     with_local (is_size EncryptedHMACStream_methods) enc (\<lambda>sz enc.
     seq_io (on_pack (modify_io (\<lambda>ps. ps\<lparr>ps_fileInfos := (ps_fileInfos ps)
               [i := (ps_fileInfos ps ! i)\<lparr>pi_offset := offset, pi_packLength := word_of_int sz\<rparr>]\<rparr>)))
       (return_io (enc, offset + word_of_int sz)))))"

fun pack_files ::
    "('e, 'dc, 'h, 'm, 'l, 'z) env \<Rightarrow> filesys \<Rightarrow> nat \<Rightarrow> nat \<Rightarrow> u32 \<Rightarrow> enc_in list \<Rightarrow> (('h, 'd, 'p) uploading, enc_in list) io" where
  "pack_files E fs 0 i offset inStreams = return_io inStreams"
| "pack_files E fs (Suc n) i offset inStreams =
     bind_io (pack_one E fs i offset) (\<lambda>(enc, offset'). pack_files E fs n (i + 1) offset' (inStreams @ [enc]))"

definition pack_entry :: "bytes \<Rightarrow> PackFileInfo \<Rightarrow> (Snapshot, unit) io" where
  "pack_entry objectId fi =
     addFileEntry (pi_path fi) (pi_user fi) (pi_group fi) (pi_type fi) (pi_mode fi) (pi_compression fi) (pi_size fi)
       (pi_mtime fi) (pi_rollingHashBits fi) (pi_md5 fi) (pi_offset fi) (pi_packLength fi) 1 [objectId]"

definition pack_final :: "('e, 'dc, 'h, 'm, 'l, 'z) env \<Rightarrow> ('h PackUploadState, bytes) io" where
  "pack_final E = (\<lambda>ps. case ps_hmac ps of
       None \<Rightarrow> Some (Inl UndefinedBehaviour, ps)
     | Some ctx \<Rightarrow> (case HMAC_Final E ctx of
           None \<Rightarrow> Some (Inl EncryptionFailedException, ps)
         | Some objectId \<Rightarrow> Some (Inr objectId, ps\<lparr>ps_hmac := None\<rparr>)))"

definition finalizePack ::
    "('e, 'dc, 'h, 'm, 'l, 'z) env \<Rightarrow> filesys \<Rightarrow> ('d, 'p) DataStore \<Rightarrow> 'p transfer_progress \<Rightarrow> (('h, 'd, 'p) uploading, unit) io" where
  "finalizePack E fs V tpr =
     bind_io (on_pack (gets_io ps_rollingHash)) (\<lambda>rh.
     if rh = None then return_io ()
     else
       bind_io (on_pack (pack_final E)) (\<lambda>objectId.
       bind_io (on_pack (gets_io (\<lambda>ps. length (ps_fileInfos ps)))) (\<lambda>numObjects.
       bind_io (lift_sum (objectIdToString objectId)) (\<lambda>idStr.
       let objPath = ''/data/'' @ idStr in
       bind_io (on_sess (store_exist V objPath DefaultProgressFunction)) (\<lambda>there.
       seq_io
         (if there then return_io ()
          else bind_io (pack_files E fs numObjects 0 0 []) (\<lambda>inStreams.
               on_sess (store_put V objPath (PackIn (MultiInputStream_new inStreams)) DefaultProgressFunction)))
       (bind_io (on_pack (gets_io ps_fileInfos)) (\<lambda>fileInfos.
       seq_io (feed (\<lambda>fi. on_snap (pack_entry objectId fi)) fileInfos)
         (on_pack (modify_io (\<lambda>ps. ps\<lparr>ps_fileInfos := [], ps_packData := [], ps_rollingHash := None\<rparr>))))))))))"

section \<open>Uploading\<close>

definition noCompressExt :: "string list" where
  "noCompressExt =
     [''.png'', ''.jpg'', ''.jpeg'', ''.gif'',
      ''.mov'', ''.mkv'', ''.avi'', ''.mp2'', ''.mp3'', ''.mp4'',
      ''.mpg'', ''.m4a'', ''.m4v'', ''.3gp'', ''.3gpp'', ''.3g2'', ''.3gpp2'',
      ''.wma'', ''.wmv'',
      ''.ogg'', ''.aac'',
      ''.zip'', ''.gz'', ''.bz2'', ''.xz'', ''.lz'', ''.lzo'', ''.lzma'',
      ''.z'', ''.7z'', ''.s7z'', ''.rar'',
      ''.apk'', ''.ipa'', ''.jar'']"

definition compression_for :: "FileInfo \<Rightarrow> CompressionType" where
  "compression_for fi = (if map tolower (mExtension fi) \<in> set noCompressExt then NoCompression else LZMA2)"

definition normalized_path :: "string \<Rightarrow> string" where
  "normalized_path destPath = lexically_normal (relative_path (cstr destPath))"

definition md5_update :: "('e, 'dc, 'h, 'm, 'l, 'z) env \<Rightarrow> 'm \<Rightarrow> bytes \<Rightarrow> ('s, 'm) io" where
  "md5_update E ctx bs = lift_option EncryptionFailedException (EVP_DigestUpdate E ctx bs)"

text \<open>The small file that goes into a pack: the pack's hash is started when there is none, the file's bytes are rolled
  through it, and a hash whose low 20 bits are zero ends the pack.\<close>

fun roll_file :: "bytes \<Rightarrow> RollingHash \<Rightarrow> bool \<Rightarrow> RollingHash \<times> bool" where
  "roll_file [] rh writePack = (rh, writePack)"
| "roll_file (b # bs) rh writePack =
     (case RollingHash_roll b rh of (h, rh') \<Rightarrow> roll_file bs rh' (writePack \<or> h AND (push_bit 20 1 - 1) = 0))"

definition start_pack ::
    "('e, 'dc, 'h, 'm, 'l, 'z) env \<Rightarrow> Repository \<Rightarrow> ('h PackUploadState, unit) io" where
  "start_pack E R = (\<lambda>ps.
     if ps_rollingHash ps \<noteq> None then Some (Inr (), ps)
     else (case RollingHash_new E (mRollKey R) 8192 of
         Inl e \<Rightarrow> Some (Inl e, ps)
       | Inr rh \<Rightarrow>
           let ps1 = ps\<lparr>ps_rollingHash := Some rh\<rparr> in
           (case HMAC_Init E (take SHA256_DIGEST_LENGTH (mHashKey R)) of
              None \<Rightarrow> Some (Inl EncryptionFailedException, ps1)
            | Some ctx \<Rightarrow> Some (Inr (), ps1\<lparr>ps_hmac := Some ctx\<rparr>))))"

definition roll_pack :: "('e, 'dc, 'h, 'm, 'l, 'z) env \<Rightarrow> bytes \<Rightarrow> ('h PackUploadState, bool) io" where
  "roll_pack E buffer = (\<lambda>ps. case (ps_hmac ps, ps_rollingHash ps) of
       (Some ctx, Some rh) \<Rightarrow>
         let ctx' = (case HMAC_Update E ctx buffer of None \<Rightarrow> ctx | Some c \<Rightarrow> c);
             (rh', writePack) = roll_file buffer rh False in
         Some (Inr writePack, ps\<lparr>ps_hmac := Some ctx', ps_rollingHash := Some rh'\<rparr>)
     | _ \<Rightarrow> Some (Inl UndefinedBehaviour, ps))"

definition upload_packed ::
    "('e, 'dc, 'h, 'm, 'l, 'z) env \<Rightarrow> filesys \<Rightarrow> ('d, 'p) DataStore \<Rightarrow> FileInfo \<Rightarrow> string \<Rightarrow> CompressionType \<Rightarrow> bytes \<Rightarrow>
     'p transfer_progress \<Rightarrow> (('h, 'd, 'p) uploading, unit) io" where
  "upload_packed E fs V fi path ct buffer tpr =
     bind_io (on_sess (gets_io w_repo)) (\<lambda>R.
     seq_io (on_pack (start_pack E R))
     (bind_io (on_pack (roll_pack E buffer)) (\<lambda>writePack.
      seq_io (on_pack (addFile E buffer path (mUserName fi) (mGroupName fi) (mType fi) (ucast (mMode fi)) ct (mLength fi)
                (mLastModifyTime fi) 0 (case digest_of E [buffer] of None \<Rightarrow> local_buf E 16 | Some md5 \<Rightarrow> md5)))
      (if writePack then finalizePack E fs V tpr
       else bind_io (on_sess (progress_io (tpr 0 1) 0 0)) (\<lambda>go. guard_io go CancelledException)))))"

text \<open>One block of a large file: the digest, the id and the upload.\<close>

definition upload_block ::
    "('e, 'dc, 'h, 'm, 'l, 'z) env \<Rightarrow> filesys \<Rightarrow> ('d, 'p) DataStore \<Rightarrow> CompressionType \<Rightarrow> 'm \<Rightarrow> bytes \<Rightarrow> 'p progress \<Rightarrow>
     (('d, 'p) session, 'm \<times> bytes) io" where
  "upload_block E fs V ct md5 block pr =
     bind_io (md5_update E md5 block) (\<lambda>md5'.
     bind_io (computeBlockHMAC E block (byte_of_compression ct)) (\<lambda>objectId.
     seq_io (compressEncryptAndUploadBlock E fs V ct objectId block pr) (return_io (md5', objectId))))"

text \<open>The variables of the loop over a large file.\<close>

record 'm blocks_state =
  bl_in :: "FileStream BufferedInputStream"
  bl_rh :: RollingHash
  bl_buffer :: bytes
  bl_md5 :: 'm
  bl_ids :: "bytes list"
  bl_count :: int

definition flush_block ::
    "('e, 'dc, 'h, 'm, 'l, 'z) env \<Rightarrow> filesys \<Rightarrow> ('d, 'p) DataStore \<Rightarrow> CompressionType \<Rightarrow> 'p transfer_progress \<Rightarrow>
     ('m blocks_state \<times> ('d, 'p) session, unit) io" where
  "flush_block E fs V ct tpr = (\<lambda>(l, w).
     map_option (\<lambda>(x, w'). case x of
         Inl e \<Rightarrow> (Inl e, (l, w'))
       | Inr (md5, oid) \<Rightarrow>
           (Inr (), (l\<lparr>bl_buffer := [], bl_md5 := md5, bl_ids := bl_ids l @ [oid], bl_count := bl_count l + 1\<rparr>, w')))
       (upload_block E fs V ct (bl_md5 l) (bl_buffer l) (tpr (bl_count l) (-1)) w))"

definition block_byte ::
    "('e, 'dc, 'h, 'm, 'l, 'z) env \<Rightarrow> filesys \<Rightarrow> ('d, 'p) DataStore \<Rightarrow> CompressionType \<Rightarrow> 'p transfer_progress \<Rightarrow> nat \<Rightarrow> nat \<Rightarrow> u64 \<Rightarrow>
     byte \<Rightarrow> ('m blocks_state \<times> ('d, 'p) session, unit) io" where
  "block_byte E fs V ct tpr mn mx msk b = (\<lambda>(l, w).
     case cut_here mn mx msk (bl_rh l) (bl_buffer l @ [b]) b of (isCut, rh') \<Rightarrow>
       (if isCut then flush_block E fs V ct tpr else return_io ()) (l\<lparr>bl_rh := rh', bl_buffer := bl_buffer l @ [b]\<rparr>, w))"

definition on_blocks :: "(FileStream BufferedInputStream, 'a) io \<Rightarrow> ('m blocks_state \<times> ('d, 'p) session, 'a) io" where
  "on_blocks = zoom_io (\<lambda>(l, w). bl_in l) (\<lambda>b (l, w). (l\<lparr>bl_in := b\<rparr>, w))"

partial_function (option) blocks_loop ::
    "('e, 'dc, 'h, 'm, 'l, 'z) env \<Rightarrow> filesys \<Rightarrow> ('d, 'p) DataStore \<Rightarrow> CompressionType \<Rightarrow> 'p transfer_progress \<Rightarrow> nat \<Rightarrow> nat \<Rightarrow> u64 \<Rightarrow>
     ('m blocks_state \<times> ('d, 'p) session, unit) io" where
  "blocks_loop E fs V ct tpr mn mx msk s =
     bind_io (on_blocks (BufferedInputStream_isEof FileStream_read)) (\<lambda>eof.
     bind_io (if eof then return_io None else bind_io (on_blocks (BufferedInputStream_readByte FileStream_read)) (\<lambda>b. return_io (Some b))) (\<lambda>r.
     case r of
       None \<Rightarrow> return_io ()
     | Some b \<Rightarrow> bind_io (block_byte E fs V ct tpr mn mx msk b) (\<lambda>_ s'. blocks_loop E fs V ct tpr mn mx msk s'))) s"

definition flush_rest ::
    "('e, 'dc, 'h, 'm, 'l, 'z) env \<Rightarrow> filesys \<Rightarrow> ('d, 'p) DataStore \<Rightarrow> CompressionType \<Rightarrow> 'p transfer_progress \<Rightarrow>
     ('m blocks_state \<times> ('d, 'p) session, unit) io" where
  "flush_rest E fs V ct tpr = (\<lambda>(l, w). (if bl_buffer l = [] then return_io () else flush_block E fs V ct tpr) (l, w))"

definition upload_large ::
    "('e, 'dc, 'h, 'm, 'l, 'z) env \<Rightarrow> filesys \<Rightarrow> ('d, 'p) DataStore \<Rightarrow> (nat \<Rightarrow> int) \<Rightarrow> CompressionType \<Rightarrow> RollingHash \<Rightarrow> 'm \<Rightarrow> nat \<Rightarrow>
     'p transfer_progress \<Rightarrow> (('h, 'd, 'p) uploading, 'm \<times> bytes list \<times> int) io" where
  "upload_large E fs V lg ct rh md5 fileLength tpr = (\<lambda>u.
     let opt = mOptions (w_repo (up_sess u)) in
     case rolling_hash_bits opt lg fileLength of
       None \<Rightarrow> Some (Inl UndefinedBehaviour, u)
     | Some bits \<Rightarrow>
         if bits < 0 \<or> 30 \<le> bits then Some (Inl UndefinedBehaviour, u)
         else if maxBlockSize opt < 0 then Some (Inl LengthError, u)
         else
           map_option (\<lambda>(x, (l, w)).
               (map_sum id (\<lambda>_. (bl_md5 l, bl_ids l, bits)) x, u\<lparr>up_file := bs_stream (bl_in l), up_sess := w\<rparr>))
             (seq_io (blocks_loop E fs V ct tpr (min_block_size fileLength) (to_size_t (maxBlockSize opt)) (hash_mask bits))
                (flush_rest E fs V ct tpr)
                (\<lparr>bl_in = BufferedInputStream_new (up_file u), bl_rh = rh, bl_buffer = [], bl_md5 = md5, bl_ids = [], bl_count = 0\<rparr>,
                 up_sess u)))"

definition add_uploaded ::
    "FileInfo \<Rightarrow> string \<Rightarrow> CompressionType \<Rightarrow> int \<Rightarrow> bytes \<Rightarrow> bytes list \<Rightarrow> (Snapshot, unit) io" where
  "add_uploaded fi path ct bits md5 ids =
     addFileEntry path (mUserName fi) (mGroupName fi) (mType fi) (ucast (mMode fi)) ct (mLength fi) (mLastModifyTime fi)
       (word_of_int bits) md5 0 0 (to_int (length ids)) ids"

text \<open>\<open>info\<close> stands for the constructor of \<^verbatim>\<open>FileInfo\<close>, that is \<open>FileInfo_new\<close> over the calls of the operating system.\<close>

definition uploadFile ::
    "('e, 'dc, 'h, 'm, 'l, 'z) env \<Rightarrow> filesys \<Rightarrow> ('d, 'p) DataStore \<Rightarrow> (nat \<Rightarrow> int) \<Rightarrow> (string \<Rightarrow> FileInfo) \<Rightarrow> string \<Rightarrow>
     'p transfer_progress \<Rightarrow> (('h, 'd, 'p) uploading, unit) io" where
  "uploadFile E fs V lg info destPath tpr = bind_io get_io (\<lambda>u0.
     let R = w_repo (up_sess u0) in
     bind_io (lift_sum (RollingHash_new E (mRollKey R) 8192)) (\<lambda>rh.
     let fi = info (mPath (up_file u0)) in
     if \<not> FileInfo_exists fi then throw_io FileNotFoundException
     else
       bind_io (lift_option EncryptionFailedException (EVP_DigestInit E)) (\<lambda>md5.
       let fileLength = unat (mLength fi); ct = compression_for fi; path = normalized_path destPath in
       if fileLength < to_size_t (smallFileSize (mOptions R)) then
         bind_io (on_file (readExpected FileStream_read fileLength)) (\<lambda>buffer.
         bind_io (md5_update E md5 buffer) (\<lambda>md5.
         bind_io (on_sess (computeBlockHMAC E buffer (byte_of_compression ct))) (\<lambda>objectId.
         if up_pack u0 \<noteq> None then upload_packed E fs V fi path ct buffer tpr
         else
           seq_io (on_sess (compressEncryptAndUploadBlock E fs V ct objectId buffer (tpr 0 1)))
          (bind_io (lift_option EncryptionFailedException (EVP_DigestFinal E md5)) (\<lambda>fileMD5.
           on_snap (add_uploaded fi path ct 0 fileMD5 [objectId]))))))
       else
         bind_io (upload_large E fs V lg ct rh md5 fileLength tpr) (\<lambda>(md5, ids, bits).
         bind_io (lift_option EncryptionFailedException (EVP_DigestFinal E md5)) (\<lambda>fileMD5.
         on_snap (add_uploaded fi path ct bits fileMD5 ids))))))"

text \<open>The overload without a pack passes neither a pack nor its progress function on.\<close>

definition uploadFile_unpacked ::
    "('e, 'dc, 'h, 'm, 'l, 'z) env \<Rightarrow> filesys \<Rightarrow> ('d, 'p) DataStore \<Rightarrow> (nat \<Rightarrow> int) \<Rightarrow> (string \<Rightarrow> FileInfo) \<Rightarrow> string \<Rightarrow>
     'p transfer_progress \<Rightarrow> (('h, 'd, 'p) uploading, unit) io" where
  "uploadFile_unpacked E fs V lg info destPath tpr = (\<lambda>u.
     uploadFile E fs V lg info destPath DefaultFileTransferProgressFunction (u\<lparr>up_pack := None\<rparr>))"

section \<open>The archive of blocks\<close>

text \<open>The id of a block, and the invariant of the blocks in a store: \<open>B\<close> are the blocks ever uploaded, which have different
  ids, and every object stored under the id of one of them is a sealed form of that block.\<close>

definition block_id :: "(bytes \<Rightarrow> bytes \<Rightarrow> bytes) \<Rightarrow> Repository \<Rightarrow> CompressionType \<Rightarrow> bytes \<Rightarrow> bytes" where
  "block_id H R ct blk = H (take 32 (mHashKey R)) (byte_of_compression ct # blk)"

definition block_path :: "(bytes \<Rightarrow> bytes \<Rightarrow> bytes) \<Rightarrow> Repository \<Rightarrow> CompressionType \<Rightarrow> bytes \<Rightarrow> string" where
  "block_path H R ct blk = object_name (block_id H R ct blk)"

definition archive_ok ::
    "('e, 'dc, 'h, 'm, 'l, 'z) env \<Rightarrow> (bytes \<Rightarrow> bytes \<Rightarrow> bytes) \<Rightarrow> Repository \<Rightarrow> (CompressionType \<times> bytes) set \<Rightarrow>
     (string \<rightharpoonup> bytes) \<Rightarrow> bool" where
  "archive_ok E H R B objs \<longleftrightarrow> inj_on (\<lambda>(ct, blk). block_id H R ct blk) B
     \<and> (\<forall>(ct, blk) \<in> B. \<forall>y. objs (block_path H R ct blk) = Some y \<longrightarrow> sealed E H ct (mEncKey R) (mMacKey R) blk y)"

definition quiet_transfer :: "'p transfer_progress \<Rightarrow> bool" where
  "quiet_transfer tpr \<longleftrightarrow> (\<forall>i n. quiet (tpr i n))"

lemma quiet_transfer_default [simp]: "quiet_transfer DefaultFileTransferProgressFunction"
  by (simp add: quiet_transfer_def quiet_def DefaultFileTransferProgressFunction_def)

text \<open>The library behaves as documented, for the keys of the repository.\<close>

definition env_ok :: "('e, 'dc, 'h, 'm, 'l, 'z) env \<Rightarrow> (bytes \<Rightarrow> bytes \<Rightarrow> bytes) \<Rightarrow> Repository \<Rightarrow> bool" where
  "env_ok E H R \<longleftrightarrow> hmac_ok E H \<and> cipher_ok E (take 32 (mEncKey R)) \<and> cipher_ok E (take 32 (mRollKey R)) \<and> lzma_ok E"

lemma env_okD:
  assumes "env_ok E H R"
  shows "hmac_ok E H" "cipher_ok E (take 32 (mEncKey R))" "cipher_ok E (take 32 (mRollKey R))" "lzma_ok E"
  using assms by (simp_all add: env_ok_def)

lemma block_id_length: "hmac_ok E H \<Longrightarrow> length (block_id H R ct blk) = 32"
  by (simp add: block_id_def hmac_ok_length)

lemma block_path_valid: "hmac_ok E H \<Longrightarrow> valid_name (block_path H R ct blk)"
  unfolding block_path_def by (rule object_name_valid) (rule block_id_length)

lemma block_path_inj:
  assumes "hmac_ok E H" and "inj_on (\<lambda>(ct, blk). block_id H R ct blk) B" and "(ct, blk) \<in> B" and "(ct', blk') \<in> B"
    and "block_path H R ct blk = block_path H R ct' blk'"
  shows "ct = ct' \<and> blk = blk'"
proof -
  have "block_id H R ct blk = block_id H R ct' blk'"
    using object_name_inj [OF block_id_length [OF assms(1)] block_id_length [OF assms(1)]] assms(5) by (simp add: block_path_def)
  then have "(ct, blk) = (ct', blk')" by (intro inj_onD [OF assms(2) _ assms(3,4)]) simp
  then show ?thesis by simp
qed

lemma archive_ok_add:
  assumes "archive_ok E H R B objs" and "hmac_ok E H" and "(ct, blk) \<in> B" and "sealed E H ct (mEncKey R) (mMacKey R) blk y"
  shows "archive_ok E H R B (objs(block_path H R ct blk \<mapsto> y))"
proof -
  have inj: "inj_on (\<lambda>(ct, blk). block_id H R ct blk) B" using assms(1) by (simp add: archive_ok_def)
  have "sealed E H ct' (mEncKey R) (mMacKey R) blk' z"
    if "(ct', blk') \<in> B" "(objs(block_path H R ct blk \<mapsto> y)) (block_path H R ct' blk') = Some z" for ct' blk' z
  proof (cases "block_path H R ct' blk' = block_path H R ct blk")
    case True
    then show ?thesis using block_path_inj [OF assms(2) inj that(1) assms(3)] that(2) assms(4) by simp
  next
    case False
    then show ?thesis using that assms(1) unfolding archive_ok_def by auto
  qed
  then show ?thesis unfolding archive_ok_def using inj by fast
qed

lemma computeBlockHMAC_ok:
  assumes "hmac_ok E H"
  shows "computeBlockHMAC E blk (byte_of_compression ct) w = Some (Inr (block_id H (w_repo w) ct blk), w)"
proof -
  obtain c c' where "HMAC_Init E (take 32 (mHashKey (w_repo w))) = Some c"
    "hmac_updates E c [[byte_of_compression ct], blk] = Some c'"
    "HMAC_Final E c' = Some (H (take 32 (mHashKey (w_repo w))) (concat [[byte_of_compression ct], blk]))"
    by (rule hmac_of_Some [OF assms])
  then show ?thesis
    by (auto simp: computeBlockHMAC_def SHA256_DIGEST_LENGTH_def block_id_def split: option.splits)
qed

lemma compressEncryptAndUploadBlock_path:
  assumes "length oid = 32" and "n = object_name oid"
  shows "compressEncryptAndUploadBlock E fs V ct oid blk pr = bind_io (store_exist V n DefaultProgressFunction) (\<lambda>there.
     if there then bind_io (progress_io pr (int (length blk)) (int (length blk))) (\<lambda>go. guard_io go CancelledException)
     else bind_io (seal_io E fs ct MemoryInputStream_read (MemoryInputStream_new blk)) (\<lambda>m. store_put V n (EncIn m) pr))"
proof -
  have "''/data/'' @ drop 6 (object_name oid) = n" using assms(2) by (simp add: object_name_def)
  then show ?thesis
    unfolding compressEncryptAndUploadBlock_def objectIdToString_ok [OF assms(1)] lift_sum_simps bind_io_return Let_def
    by (simp only:)
qed

text \<open>A session whose store is an archive of blocks, what uploading needs, and what it leaves: nothing is lost and the
  blocks are there.\<close>

definition archive ::
    "('e, 'dc, 'h, 'm, 'l, 'z) env \<Rightarrow> (bytes \<Rightarrow> bytes \<Rightarrow> bytes) \<Rightarrow> (CompressionType \<times> bytes) set \<Rightarrow> ('d \<Rightarrow> bool) \<Rightarrow>
     ('d \<Rightarrow> string \<rightharpoonup> bytes) \<Rightarrow> ('d, 'p) session \<Rightarrow> bool" where
  "archive E H B iok objs w \<longleftrightarrow>
     iok (w_store w) \<and> env_ok E H (w_repo w) \<and> archive_ok E H (w_repo w) B (objs (w_store w))"

definition uploads ::
    "CompressionType \<Rightarrow> 'p transfer_progress \<Rightarrow> filesys \<Rightarrow> bool" where
  "uploads ct tpr fs \<longleftrightarrow> (\<forall>b. ct \<noteq> InvalidCompression b) \<and> quiet_transfer tpr \<and> disk_free fs"

definition archived ::
    "(bytes \<Rightarrow> bytes \<Rightarrow> bytes) \<Rightarrow> CompressionType \<Rightarrow> ('d \<Rightarrow> string \<rightharpoonup> bytes) \<Rightarrow> ('d, 'p) session \<Rightarrow> bytes list \<Rightarrow>
     ('d, 'p) session \<Rightarrow> bool" where
  "archived H ct objs w blks w' \<longleftrightarrow> w_repo w' = w_repo w
     \<and> (\<forall>n. objs (w_store w') n = objs (w_store w) n
          \<or> objs (w_store w) n = None \<and> n \<in> block_path H (w_repo w) ct ` set blks)
     \<and> (\<forall>blk \<in> set blks. objs (w_store w') (block_path H (w_repo w) ct blk) \<noteq> None)"

lemma archived_refl [simp]: "archived H ct objs w [] w"
  by (simp add: archived_def)

lemma archived_le: "archived H ct objs w blks w' \<Longrightarrow> objs (w_store w) \<subseteq>\<^sub>m objs (w_store w')"
  unfolding archived_def map_le_def by (metis domIff)

text \<open>Uploading blocks that are all there changes nothing.\<close>

lemma archived_same:
  assumes "archived H ct objs w blks w'" and "\<And>blk. blk \<in> set blks \<Longrightarrow> objs (w_store w) (block_path H (w_repo w) ct blk) \<noteq> None"
  shows "objs (w_store w') = objs (w_store w)"
proof
  fix n
  show "objs (w_store w') n = objs (w_store w) n" using assms unfolding archived_def by blast
qed

lemma archived_trans:
  assumes "archived H ct objs w xs w'" and "archived H ct objs w' ys w''"
  shows "archived H ct objs w (xs @ ys) w''"
proof -
  have repo: "w_repo w' = w_repo w" "w_repo w'' = w_repo w" using assms by (simp_all add: archived_def)
  have "objs (w_store w'') n = objs (w_store w) n \<or> objs (w_store w) n = None \<and> n \<in> block_path H (w_repo w) ct ` set (xs @ ys)" for n
    using assms unfolding archived_def repo set_append image_Un Un_iff by metis
  moreover have "objs (w_store w'') (block_path H (w_repo w) ct blk) \<noteq> None" if "blk \<in> set (xs @ ys)" for blk
    using that assms unfolding archived_def repo set_append Un_iff by metis
  ultimately show ?thesis using repo unfolding archived_def by blast
qed

text \<open>One round of the loop over a large file.\<close>

interpretation file_buffered: buffered_input FileStream_read file_rest file_inv
  by unfold_locales (use file_in.read_ok in simp)

lemma blocks_loop_end:
  assumes "buf_inv file_inv (bl_in l)" and "buf_rest file_rest (bl_in l) = []"
  shows "\<exists>b'. blocks_loop E fs V ct tpr mn mx msk (l, w) = Some (Inr (), (l\<lparr>bl_in := b'\<rparr>, w))"
proof -
  obtain b' where "BufferedInputStream_isEof FileStream_read (bl_in l) = Some (Inr True, b')"
    using file_buffered.isEof_ok [OF assms(1)] assms(2) by auto
  then show ?thesis by (intro exI [of _ b']) (simp add: blocks_loop.simps on_blocks_def)
qed

lemma blocks_loop_step:
  assumes "buf_inv file_inv (bl_in l)" and "buf_rest file_rest (bl_in l) = x # xs"
  shows "\<exists>b'. buf_inv file_inv b' \<and> buf_rest file_rest b' = xs
     \<and> blocks_loop E fs V ct tpr mn mx msk (l, w)
       = seq_io (block_byte E fs V ct tpr mn mx msk x) (blocks_loop E fs V ct tpr mn mx msk) (l\<lparr>bl_in := b'\<rparr>, w)"
proof -
  obtain b1 where b1: "BufferedInputStream_isEof FileStream_read (bl_in l) = Some (Inr False, b1)"
    "buf_rest file_rest b1 = x # xs" "buf_inv file_inv b1" using file_buffered.isEof_ok [OF assms(1)] assms(2) by auto
  obtain b' where b': "BufferedInputStream_readByte FileStream_read b1 = Some (Inr x, b')"
    "buf_rest file_rest b' = xs" "buf_inv file_inv b'" using file_buffered.readByte_ok [OF b1(3,2)] by blast
  then have "blocks_loop E fs V ct tpr mn mx msk (l, w)
      = seq_io (block_byte E fs V ct tpr mn mx msk x) (blocks_loop E fs V ct tpr mn mx msk) (l\<lparr>bl_in := b'\<rparr>, w)"
    using b1 by (simp add: blocks_loop.simps [of E fs V ct tpr mn mx msk "(l, w)"] on_blocks_def seq_io_def)
  with b' show ?thesis by blast
qed

lemma block_byte_keep:
  "cut_here mn mx msk (bl_rh l) (bl_buffer l @ [b]) b = (False, rh') \<Longrightarrow>
   block_byte E fs V ct tpr mn mx msk b (l, w) = Some (Inr (), (l\<lparr>bl_rh := rh', bl_buffer := bl_buffer l @ [b]\<rparr>, w))"
  by (simp add: block_byte_def)

lemma block_byte_cut:
  "cut_here mn mx msk (bl_rh l) (bl_buffer l @ [b]) b = (True, rh') \<Longrightarrow>
   block_byte E fs V ct tpr mn mx msk b (l, w) = flush_block E fs V ct tpr (l\<lparr>bl_rh := rh', bl_buffer := bl_buffer l @ [b]\<rparr>, w)"
  by (simp add: block_byte_def)

lemma seq_io_assoc: "seq_io (seq_io m k) f = seq_io m (seq_io k f)"
  by (simp add: seq_io_def bind_io_assoc)

lemma seq_io_step:
  assumes "m s = seq_io a b s'"
  shows "seq_io m k s = seq_io a (seq_io b k) s'"
proof -
  have "seq_io m k s = seq_io (seq_io a b) k s'" using assms by (simp add: seq_io_def [of _ k] bind_io_def)
  then show ?thesis by (simp only: seq_io_assoc)
qed

context data_store
begin

text \<open>Uploading a block: afterwards it is in the store, and what was there is still there.\<close>

lemma compressEncryptAndUploadBlock_ok:
  fixes E :: "('e, 'dc, 'h, 'm, 'l, 'z) env"
  assumes "archive E H B ok objects w" and "uploads ct tpr fs" and "(ct, blk) \<in> B"
  shows "\<exists>w'. compressEncryptAndUploadBlock E fs V ct (block_id H (w_repo w) ct blk) blk (tpr i k) w = Some (Inr (), w')
     \<and> archive E H B ok objects w' \<and> archived H ct objects w [blk] w'"
proof -
  let ?R = "w_repo w" and ?oid = "block_id H (w_repo w) ct blk" and ?n = "block_path H (w_repo w) ct blk"
  have w: "ok (w_store w)" "env_ok E H ?R" "archive_ok E H ?R B (objects (w_store w))" using assms(1) by (simp_all add: archive_def)
  have up: "\<And>b. ct \<noteq> InvalidCompression b" "quiet (tpr i k)" "disk_free fs" using assms(2) by (simp_all add: uploads_def quiet_transfer_def)
  note env = env_okD [OF w(2)]
  have n: "valid_name ?n" by (rule block_path_valid [OF env(1)])
  note path = compressEncryptAndUploadBlock_path [OF block_id_length [OF env(1)] block_path_def]
  obtain p where ex: "store_exist V ?n DefaultProgressFunction w = Some (Inr (objects (w_store w) ?n \<noteq> None), w\<lparr>w_prog := p\<rparr>)"
    using store_exist_ok [OF w(1) n] by blast
  show ?thesis
  proof (cases "objects (w_store w) ?n = None")
    case False
    obtain p' where "tpr i k (int (length blk)) (int (length blk)) p = (True, p')" using up(2) by (metis quiet_def prod.collapse)
    with False ex have "compressEncryptAndUploadBlock E fs V ct ?oid blk (tpr i k) w = Some (Inr (), w\<lparr>w_prog := p'\<rparr>)"
      by (simp add: path progress_io_def)
    with assms(1) False show ?thesis by (auto simp: archive_def archived_def)
  next
    case True
    have rest: "mem_rest (MemoryInputStream_new blk) = blk" by simp
    obtain m r where m: "seal_io E fs ct MemoryInputStream_read (MemoryInputStream_new blk) (w\<lparr>w_prog := p\<rparr>)
        = Some (Inr m, w\<lparr>w_prog := p, w_rng := r\<rparr>)" "enc_inv m" "sealed E H ct (mEncKey ?R) (mMacKey ?R) blk (enc_rest m)"
      using seal_io_ok [OF mem_input mem_new(1) env(1) _ env(4) up(1,3), of "w\<lparr>w_prog := p\<rparr>" blk] env(2) rest by auto
    have "any_inv (EncIn m)" using m(2) by simp
    then obtain d p' where d: "store_put V ?n (EncIn m) (tpr i k) (w\<lparr>w_prog := p, w_rng := r\<rparr>)
        = Some (Inr (), w\<lparr>w_prog := p, w_rng := r, w_store := d, w_prog := p'\<rparr>)" "ok d" "objects d = (objects (w_store w))(?n \<mapsto> enc_rest m)"
      using store_put_ok [of "w\<lparr>w_prog := p, w_rng := r\<rparr>" ?n "tpr i k" "EncIn m"] n w(1) up(2) by auto
    have "compressEncryptAndUploadBlock E fs V ct ?oid blk (tpr i k) w = Some (Inr (), w\<lparr>w_prog := p, w_rng := r, w_store := d, w_prog := p'\<rparr>)"
      using ex True m(1) d(1) by (simp add: path)
    moreover have "archive_ok E H ?R B (objects d)"
      unfolding d(3) by (rule archive_ok_add [OF w(3) env(1) assms(3) m(3)])
    ultimately show ?thesis using d(2,3) True w(2)
      by (intro exI [of _ "w\<lparr>w_prog := p, w_rng := r, w_store := d, w_prog := p'\<rparr>"]) (simp add: archive_def archived_def)
  qed
qed

lemma upload_block_ok:
  fixes E :: "('e, 'dc, 'h, 'm, 'l, 'z) env"
  assumes "archive E H B ok objects w" and "uploads ct tpr fs" and "(ct, blk) \<in> B" and "EVP_DigestUpdate E md5 blk = Some md5'"
  shows "\<exists>w'. upload_block E fs V ct md5 blk (tpr i n) w = Some (Inr (md5', block_id H (w_repo w) ct blk), w')
     \<and> archive E H B ok objects w' \<and> archived H ct objects w [blk] w'"
proof -
  obtain w' where w': "compressEncryptAndUploadBlock E fs V ct (block_id H (w_repo w) ct blk) blk (tpr i n) w = Some (Inr (), w')"
    "archive E H B ok objects w'" "archived H ct objects w [blk] w'"
    using compressEncryptAndUploadBlock_ok [OF assms(1-3)] by blast
  have "computeBlockHMAC E blk (byte_of_compression ct) w = Some (Inr (block_id H (w_repo w) ct blk), w)"
    using assms(1) by (intro computeBlockHMAC_ok) (simp add: archive_def env_ok_def)
  with w' assms(4) show ?thesis by (simp add: upload_block_def md5_update_def)
qed

lemma flush_block_ok:
  fixes E :: "('e, 'dc, 'h, 'm, 'l, 'z) env"
  assumes "archive E H B ok objects w" and "uploads ct tpr fs" and "(ct, bl_buffer l) \<in> B"
    and "EVP_DigestUpdate E (bl_md5 l) (bl_buffer l) = Some md5'"
  shows "\<exists>w'. flush_block E fs V ct tpr (l, w) = Some (Inr (), (l\<lparr>bl_buffer := [], bl_md5 := md5',
         bl_ids := bl_ids l @ [block_id H (w_repo w) ct (bl_buffer l)], bl_count := bl_count l + 1\<rparr>, w'))
     \<and> archive E H B ok objects w' \<and> archived H ct objects w [bl_buffer l] w'"
  using upload_block_ok [OF assms, of "bl_count l" "-1"] by (auto simp: flush_block_def)

text \<open>The loop and what follows it upload exactly the blocks of \<open>split_blocks\<close>, in their order.\<close>

lemma blocks_loop_ok:
  fixes E :: "('e, 'dc, 'h, 'm, 'l, 'z) env"
  assumes "uploads ct tpr fs"
  shows "\<lbrakk>buf_inv file_inv (bl_in l); buf_rest file_rest (bl_in l) = bs; archive E H B ok objects w;
      \<And>blk. blk \<in> set (split_blocks mn mx msk (bl_rh l) (bl_buffer l) bs) \<Longrightarrow> (ct, blk) \<in> B;
      digest_updates E (bl_md5 l) (split_blocks mn mx msk (bl_rh l) (bl_buffer l) bs) = Some md5'\<rbrakk> \<Longrightarrow>
    \<exists>l' w'. seq_io (blocks_loop E fs V ct tpr mn mx msk) (flush_rest E fs V ct tpr) (l, w) = Some (Inr (), (l', w'))
     \<and> bl_ids l' = bl_ids l @ map (block_id H (w_repo w) ct) (split_blocks mn mx msk (bl_rh l) (bl_buffer l) bs)
     \<and> bl_md5 l' = md5' \<and> archive E H B ok objects w'
     \<and> archived H ct objects w (split_blocks mn mx msk (bl_rh l) (bl_buffer l) bs) w'"
proof (induction bs arbitrary: l w)
  case Nil
  obtain b' where b': "blocks_loop E fs V ct tpr mn mx msk (l, w) = Some (Inr (), (l\<lparr>bl_in := b'\<rparr>, w))"
    using blocks_loop_end [OF Nil.prems(1,2)] by blast
  show ?case
  proof (cases "bl_buffer l = []")
    case True
    with b' Nil.prems show ?thesis by (simp add: flush_rest_def)
  next
    case False
    then have in_B: "(ct, bl_buffer (l\<lparr>bl_in := b'\<rparr>)) \<in> B"
      and "EVP_DigestUpdate E (bl_md5 (l\<lparr>bl_in := b'\<rparr>)) (bl_buffer (l\<lparr>bl_in := b'\<rparr>)) = Some md5'"
      using Nil.prems(4,5) by (simp_all split: option.splits)
    from flush_block_ok [OF Nil.prems(3) assms this] b' False show ?thesis by (auto simp: flush_rest_def)
  qed
next
  case (Cons x xs)
  obtain b' where b': "buf_inv file_inv b'" "buf_rest file_rest b' = xs" "blocks_loop E fs V ct tpr mn mx msk (l, w)
       = seq_io (block_byte E fs V ct tpr mn mx msk x) (blocks_loop E fs V ct tpr mn mx msk) (l\<lparr>bl_in := b'\<rparr>, w)"
    using blocks_loop_step [OF Cons.prems(1,2)] by blast
  note step = seq_io_step [of "blocks_loop E fs V ct tpr mn mx msk" "(l, w)" _ _ _ "flush_rest E fs V ct tpr", OF b'(3)]
  obtain isCut rh' where c: "cut_here mn mx msk (bl_rh l) (bl_buffer l @ [x]) x = (isCut, rh')" by force
  let ?l1 = "l\<lparr>bl_in := b', bl_rh := rh', bl_buffer := bl_buffer l @ [x]\<rparr>"
  show ?case
  proof (cases isCut)
    case False
    have "block_byte E fs V ct tpr mn mx msk x (l\<lparr>bl_in := b'\<rparr>, w) = Some (Inr (), (?l1, w))"
      using block_byte_keep [of mn mx msk "l\<lparr>bl_in := b'\<rparr>" x rh'] c False by simp
    with step Cons.IH [of ?l1 w] b'(1,2) Cons.prems(3-5) c False show ?thesis by simp
  next
    case True
    let ?blk = "bl_buffer l @ [x]" and ?blks = "split_blocks mn mx msk rh' [] xs"
    have blks: "split_blocks mn mx msk (bl_rh l) (bl_buffer l) (x # xs) = ?blk # ?blks" using c True by simp
    obtain m where m: "EVP_DigestUpdate E (bl_md5 l) ?blk = Some m" "digest_updates E m ?blks = Some md5'"
      using Cons.prems(5) unfolding blks by (auto split: option.splits)
    have in_B: "(ct, bl_buffer ?l1) \<in> B" using Cons.prems(4) [of ?blk] unfolding blks by simp
    let ?l2 = "?l1\<lparr>bl_buffer := [], bl_md5 := m, bl_ids := bl_ids l @ [block_id H (w_repo w) ct ?blk], bl_count := bl_count l + 1\<rparr>"
    obtain w' where w': "flush_block E fs V ct tpr (?l1, w) = Some (Inr (), (?l2, w'))" "archive E H B ok objects w'"
      "archived H ct objects w [?blk] w'" using flush_block_ok [OF Cons.prems(3) assms in_B, of m] m(1) by auto
    have repo: "w_repo w' = w_repo w" using w'(3) by (simp add: archived_def)
    obtain l3 w3 where w3: "seq_io (blocks_loop E fs V ct tpr mn mx msk) (flush_rest E fs V ct tpr) (?l2, w') = Some (Inr (), (l3, w3))"
      "bl_ids l3 = bl_ids ?l2 @ map (block_id H (w_repo w') ct) ?blks" "bl_md5 l3 = md5'" "archive E H B ok objects w3"
      "archived H ct objects w' ?blks w3"
      using Cons.IH [of ?l2 w'] b'(1,2) w'(2) Cons.prems(4) m(2) unfolding blks by auto
    have "block_byte E fs V ct tpr mn mx msk x (l\<lparr>bl_in := b'\<rparr>, w) = Some (Inr (), (?l2, w'))"
      using block_byte_cut [of mn mx msk "l\<lparr>bl_in := b'\<rparr>" x rh' E fs V ct tpr w] c True w'(1) by simp
    then have "seq_io (blocks_loop E fs V ct tpr mn mx msk) (flush_rest E fs V ct tpr) (l, w) = Some (Inr (), (l3, w3))"
      unfolding step by (simp only: seq_io_Inr w3(1))
    moreover have "archived H ct objects w (?blk # ?blks) w3" using archived_trans [OF w'(3) w3(5)] by simp
    ultimately show ?thesis unfolding blks using w3(2-4) repo by (intro exI [of _ l3] exI [of _ w3]) simp
  qed
qed

lemma upload_large_ok:
  fixes E :: "('e, 'dc, 'h, 'm, 'l, 'z) env"
  assumes "uploads ct tpr fs" and "archive E H B ok objects (up_sess u)" and "file_inv (up_file u)" and "file_rest (up_file u) = bs"
    and opt: "opt = mOptions (w_repo (up_sess u))" "options_ok opt" and "\<not> length bs < to_size_t (smallFileSize opt)"
    and "\<And>blk. blk \<in> set (file_blocks opt lg rh bs) \<Longrightarrow> (ct, blk) \<in> B"
    and "digest_updates E md5 (file_blocks opt lg rh bs) = Some md5'"
  shows "\<exists>f w bits. upload_large E fs V lg ct rh md5 (length bs) tpr u
       = Some (Inr (md5', map (block_id H (w_repo (up_sess u)) ct) (file_blocks opt lg rh bs), bits), u\<lparr>up_file := f, up_sess := w\<rparr>)
     \<and> archive E H B ok objects w \<and> archived H ct objects (up_sess u) (file_blocks opt lg rh bs) w"
proof -
  obtain bits where bits: "rolling_hash_bits opt lg (length bs) = Some bits" "0 \<le> bits" "bits < 30"
    using rolling_hash_bits_ok [OF opt(2)] by blast
  let ?l = "\<lparr>bl_in = BufferedInputStream_new (up_file u), bl_rh = rh, bl_buffer = [], bl_md5 = md5, bl_ids = [], bl_count = 0\<rparr>"
  have blks: "file_blocks opt lg rh bs = split_blocks (min_block_size (length bs)) (to_size_t (maxBlockSize opt)) (hash_mask bits) rh [] bs"
    using assms(7) bits(1) by (simp add: file_blocks_def)
  have start: "buf_inv file_inv (bl_in ?l)" "buf_rest file_rest (bl_in ?l) = bs"
    using assms(3,4) by (simp_all add: BufferedInputStream_new_def buf_inv_def buf_rest_def)
  obtain l' w' where "seq_io (blocks_loop E fs V ct tpr (min_block_size (length bs)) (to_size_t (maxBlockSize opt)) (hash_mask bits))
        (flush_rest E fs V ct tpr) (?l, up_sess u) = Some (Inr (), (l', w'))"
    "bl_ids l' = map (block_id H (w_repo (up_sess u)) ct) (file_blocks opt lg rh bs)" "bl_md5 l' = md5'"
    "archive E H B ok objects w'" "archived H ct objects (up_sess u) (file_blocks opt lg rh bs) w'"
    using blocks_loop_ok [OF assms(1) start assms(2), of "min_block_size (length bs)" "to_size_t (maxBlockSize opt)" "hash_mask bits" md5']
      assms(8,9) unfolding blks by auto
  moreover have "0 \<le> maxBlockSize opt" using opt(2) by (simp add: options_ok_def)
  ultimately show ?thesis
    using bits opt(1) by (intro exI [of _ "bs_stream (bl_in l')"] exI [of _ w'] exI [of _ bits]) (simp add: upload_large_def)
qed

text \<open>\<^verbatim>\<open>uploadFile\<close> without a pack: the blocks of the file are in the store, and the entry the snapshot is given has
  their ids and the digest of the whole file.\<close>

lemma uploadFile_ok:
  fixes E :: "('e, 'dc, 'h, 'm, 'l, 'z) env"
  assumes arch: "archive E H B ok objects (up_sess u)" and "digest_ok E D"
    and fi: "fi = info (mPath (up_file u))" "FileInfo_exists fi" "unat (mLength fi) = length bs"
    and fil: "file_inv (up_file u)" "file_rest (up_file u) = bs" and "length bs < 2 ^ 63"
    and up: "uploads (compression_for fi) tpr fs" "up_pack u = None"
    and opt: "R = w_repo (up_sess u)" "options_ok (mOptions R)" and rh: "RollingHash_new E (mRollKey R) 8192 = Inr rh"
    and blks: "blks = file_blocks (mOptions R) lg rh bs" "\<And>blk. blk \<in> set blks \<Longrightarrow> (compression_for fi, blk) \<in> B"
  shows "\<exists>f w bits. uploadFile E fs V lg info dest tpr u
       = on_snap (add_uploaded fi (normalized_path dest) (compression_for fi) bits (D bs) (map (block_id H R (compression_for fi)) blks))
           (u\<lparr>up_file := f, up_sess := w\<rparr>)
     \<and> archive E H B ok objects w \<and> archived H (compression_for fi) objects (up_sess u) blks w"
proof -
  let ?ct = "compression_for fi"
  obtain md5 md5' where md5: "EVP_DigestInit E = Some md5" "digest_updates E md5 blks = Some md5'" "EVP_DigestFinal E md5' = Some (D bs)"
    using digest_of_Some [OF assms(2), of blks] concat_file_blocks blks(1) by metis
  show ?thesis
  proof (cases "length bs < to_size_t (smallFileSize (mOptions R))")
    case True
    then have one: "blks = [bs]" using blks(1) by (simp add: file_blocks_def)
    then have upd: "EVP_DigestUpdate E md5 bs = Some md5'" using md5(2) by (simp split: option.splits)
    obtain f where f: "readExpected FileStream_read (length bs) (up_file u) = Some (Inr bs, f)"
      using file_in.readExpected_ok [OF fil(1) assms(8)] fil(2) by auto
    let ?u = "u\<lparr>up_file := f\<rparr>"
    have id: "computeBlockHMAC E bs (byte_of_compression ?ct) (up_sess u) = Some (Inr (block_id H R ?ct bs), up_sess u)"
      using arch unfolding opt(1) by (intro computeBlockHMAC_ok) (simp add: archive_def env_ok_def)
    obtain w where w: "compressEncryptAndUploadBlock E fs V ?ct (block_id H R ?ct bs) bs (tpr 0 1) (up_sess u) = Some (Inr (), w)"
      "archive E H B ok objects w" "archived H ?ct objects (up_sess u) [bs] w"
      using compressEncryptAndUploadBlock_ok [OF arch up(1), of bs 0 1] blks(2) one opt(1) by auto
    then have "uploadFile E fs V lg info dest tpr u
       = on_snap (add_uploaded fi (normalized_path dest) ?ct 0 (D bs) [block_id H R ?ct bs]) (u\<lparr>up_file := f, up_sess := w\<rparr>)"
      using True fi rh md5(1,3) f upd id up(2) opt(1)
      by (simp add: uploadFile_def Let_def on_file_def on_sess_def md5_update_def)
    with w(2,3) one show ?thesis by auto
  next
    case False
    obtain f w bits where w: "upload_large E fs V lg ?ct rh md5 (length bs) tpr u
         = Some (Inr (md5', map (block_id H R ?ct) blks, bits), u\<lparr>up_file := f, up_sess := w\<rparr>)"
      "archive E H B ok objects w" "archived H ?ct objects (up_sess u) blks w"
      using upload_large_ok [OF up(1) arch fil opt(1) [THEN arg_cong [of _ _ mOptions]] opt(2) False, of lg rh md5 md5'] md5(2) blks opt(1) by auto
    then have "uploadFile E fs V lg info dest tpr u
       = on_snap (add_uploaded fi (normalized_path dest) ?ct bits (D bs) (map (block_id H R ?ct) blks)) (u\<lparr>up_file := f, up_sess := w\<rparr>)"
      using False fi rh md5(1,3) opt(1) by (simp add: uploadFile_def Let_def)
    with w(2,3) show ?thesis by auto
  qed
qed

end

end
