(* ===== verification/Repository_Keys.thy ===== *)
theory Repository_Keys
  imports Repository File_Data_Store
begin

text \<open>
  The key file of a repository: \<^verbatim>\<open>writeRepositoryKey\<close>, \<^verbatim>\<open>initializeRepository\<close>, \<^verbatim>\<open>unlockRepository\<close> and
  \<^verbatim>\<open>changePassword\<close>. The four keys are stored encrypted under a key derived from the password, behind a header
  and in front of a tag.
\<close>

section \<open>Writing the key file\<close>

definition MAX_LOG_ROUNDS :: nat where "MAX_LOG_ROUNDS = 31"

definition password_bytes :: "string \<Rightarrow> bytes" where
  "password_bytes password = map byte_of_char (cstr password)"

definition key_magic :: bytes where
  "key_magic = map byte_of_char ''NEBULABACKUP''"

text \<open>\<^verbatim>\<open>1 << logRounds\<close>, as the 32 bits it has.\<close>

definition rounds_of :: "byte \<Rightarrow> u32" where
  "rounds_of logRounds = push_bit (unat logRounds) 1"

definition key_header :: "byte \<Rightarrow> bytes \<Rightarrow> bytes list" where
  "key_header logRounds salt =
     [key_magic, word_to_le 4 (0x00010000 :: u32), word_to_le 4 (0 :: u32), word_to_le 4 (rounds_of logRounds), salt]"

text \<open>The keys, encrypted into a buffer of \<^verbatim>\<open>EVP_MAX_KEY_LENGTH * 4 + EVP_MAX_BLOCK_LENGTH\<close> bytes.\<close>

definition ENC_KEYS_SIZE :: nat where
  "ENC_KEYS_SIZE = EVP_MAX_KEY_LENGTH * 4 + EVP_MAX_BLOCK_LENGTH"

lemma ENC_KEYS_SIZE: "ENC_KEYS_SIZE = 288"
  by (simp add: ENC_KEYS_SIZE_def openssl_sizes)

definition encrypt_keys ::
    "('e, 'dc, 'h, 'm, 'l, 'z) env \<Rightarrow> bytes \<Rightarrow> (('d, 'p) session, bytes) io" where
  "encrypt_keys E derivedKey = (\<lambda>w.
     case EncryptedOutputStream_new E MemoryOutputStream_methods derivedKey (MemoryOutputStream_new ENC_KEYS_SIZE, w_rng w) of
       None \<Rightarrow> None
     | Some (Inl e, (_, r)) \<Rightarrow> Some (Inl e, w\<lparr>w_rng := r\<rparr>)
     | Some (Inr c, (t, r)) \<Rightarrow>
         with_local
           (seq_io (feed (EncryptedOutputStream_write E MemoryOutputStream_methods)
                      [mEncKey (w_repo w), mMacKey (w_repo w), mHashKey (w_repo w), mRollKey (w_repo w)])
              (EncryptedOutputStream_close E MemoryOutputStream_methods))
           \<lparr>eo_ctx = c, eo_stream = t\<rparr> (\<lambda>_ enc. return_io (mData (eo_stream enc))) (w\<lparr>w_rng := r\<rparr>))"

definition writeRepositoryKey ::
    "('e, 'dc, 'h, 'm, 'l, 'z) env \<Rightarrow> filesys \<Rightarrow> ('d, 'p) DataStore \<Rightarrow> string \<Rightarrow> byte \<Rightarrow> 'p progress \<Rightarrow>
     (('d, 'p) session, unit) io" where
  "writeRepositoryKey E fs V password logRounds pr =
     (if unat logRounds > MAX_LOG_ROUNDS then throw_io InvalidArgumentException
      else
        bind_io (random_io PKCS5_SALT_LEN) (\<lambda>salt.
        bind_io (lift_option EncryptionFailedException
                   (PKCS5_PBKDF2_HMAC E (password_bytes password) salt (rounds_of logRounds) EVP_MAX_MD_SIZE)) (\<lambda>derivedKey.
        with_local (feed TempFileStream_write (key_header logRounds salt)) (TempFileStream_new fs) (\<lambda>_ t.
        bind_io (encrypt_keys E derivedKey) (\<lambda>enc.
        with_local (TempFileStream_write enc) t (\<lambda>_ t.
        bind_io (lift_option EncryptionFailedException (hmac_of E derivedKey [enc])) (\<lambda>tag.
        with_local (TempFileStream_write (overwrite (local_buf E EVP_MAX_MD_SIZE) tag)) t (\<lambda>_ t.
        with_input t (\<lambda>b. store_put V ''/key'' (BaseIn b) pr)))))))))"

definition initializeRepository ::
    "('e, 'dc, 'h, 'm, 'l, 'z) env \<Rightarrow> filesys \<Rightarrow> ('d, 'p) DataStore \<Rightarrow> string \<Rightarrow> byte \<Rightarrow> 'p progress \<Rightarrow>
     (('d, 'p) session, unit) io" where
  "initializeRepository E fs V password logRounds pr =
     bind_io (random_io EVP_MAX_KEY_LENGTH) (\<lambda>k1.
     bind_io (random_io EVP_MAX_KEY_LENGTH) (\<lambda>k2.
     bind_io (random_io EVP_MAX_KEY_LENGTH) (\<lambda>k3.
     bind_io (random_io EVP_MAX_KEY_LENGTH) (\<lambda>k4.
     seq_io (modify_io (\<lambda>w. w\<lparr>w_repo := (w_repo w)\<lparr>mEncKey := k1, mMacKey := k2, mHashKey := k3, mRollKey := k4\<rparr>\<rparr>))
       (writeRepositoryKey E fs V password logRounds pr)))))"

section \<open>Unlocking\<close>

text \<open>A buffer filled by a read that is not checked for its length.\<close>

definition read_into :: "(nat \<Rightarrow> ('s, bytes) io) \<Rightarrow> nat \<Rightarrow> bytes \<Rightarrow> ('s, bytes) io" where
  "read_into rd n buf = bind_io (rd n) (\<lambda>bs. return_io (overwrite buf bs))"

definition unlock_header ::
    "('e, 'dc, 'h, 'm, 'l, 'z) env \<Rightarrow> (nat \<Rightarrow> ('s, bytes) io) \<Rightarrow> ('s, u32 \<times> bytes) io" where
  "unlock_header E rd =
     bind_io (readExpected rd 12) (\<lambda>magic.
     if magic \<noteq> key_magic then throw_io InvalidRepositoryException
     else bind_io (readType rd 4) (\<lambda>version :: u32.
     if version \<noteq> 0x00010000 then throw_io InvalidRepositoryException
     else bind_io (readType rd 4) (\<lambda>algorithm :: u32.
     if algorithm \<noteq> 0 then throw_io InvalidRepositoryException
     else bind_io (readType rd 4) (\<lambda>rounds :: u32.
     if rounds > push_bit MAX_LOG_ROUNDS 1 then throw_io InvalidRepositoryException
     else bind_io (read_into rd PKCS5_SALT_LEN (local_buf E PKCS5_SALT_LEN)) (\<lambda>salt. return_io (rounds, salt))))))"

definition unlock_body ::
    "('e, 'dc, 'h, 'm, 'l, 'z) env \<Rightarrow> (nat \<Rightarrow> ('s, bytes) io) \<Rightarrow> ('s, bytes \<times> bytes) io" where
  "unlock_body E rd =
     bind_io (read_into rd ENC_KEYS_SIZE (local_buf E ENC_KEYS_SIZE)) (\<lambda>enc.
     bind_io (read_into rd EVP_MAX_MD_SIZE (local_buf E EVP_MAX_MD_SIZE)) (\<lambda>hmac1. return_io (enc, hmac1)))"

text \<open>The four reads from the decrypted stream, each into a key of the object.\<close>

abbreviation dec_read ::
    "('e, 'dc, 'h, 'm, 'l, 'z) env \<Rightarrow> nat \<Rightarrow> (('dc, MemoryInputStream) DecryptedInputStream, bytes) io" where
  "dec_read E \<equiv> DecryptedInputStream_read E MemoryInputStream_read"

definition read_keys ::
    "('e, 'dc, 'h, 'm, 'l, 'z) env \<Rightarrow> ('dc, MemoryInputStream) DecryptedInputStream \<Rightarrow> (('d, 'p) session, unit) io" where
  "read_keys E dec =
     bind_io (gets_io w_repo) (\<lambda>R.
     with_local (read_into (dec_read E) EVP_MAX_KEY_LENGTH (mEncKey R)) dec (\<lambda>k dec.
     seq_io (modify_io (\<lambda>w. w\<lparr>w_repo := (w_repo w)\<lparr>mEncKey := k\<rparr>\<rparr>)) (
     with_local (read_into (dec_read E) EVP_MAX_KEY_LENGTH (mMacKey R)) dec (\<lambda>k dec.
     seq_io (modify_io (\<lambda>w. w\<lparr>w_repo := (w_repo w)\<lparr>mMacKey := k\<rparr>\<rparr>)) (
     with_local (read_into (dec_read E) EVP_MAX_KEY_LENGTH (mHashKey R)) dec (\<lambda>k dec.
     seq_io (modify_io (\<lambda>w. w\<lparr>w_repo := (w_repo w)\<lparr>mHashKey := k\<rparr>\<rparr>)) (
     with_local (read_into (dec_read E) EVP_MAX_KEY_LENGTH (mRollKey R)) dec (\<lambda>k dec.
     modify_io (\<lambda>w. w\<lparr>w_repo := (w_repo w)\<lparr>mRollKey := k\<rparr>\<rparr>)))))))))"

definition unlockRepository ::
    "('e, 'dc, 'h, 'm, 'l, 'z) env \<Rightarrow> filesys \<Rightarrow> ('d, 'p) DataStore \<Rightarrow> string \<Rightarrow> 'p progress \<Rightarrow> (('d, 'p) session, bool) io" where
  "unlockRepository E fs V password pr =
     bind_io (store_get V ''/key'' (TempFileStream_new fs) pr) (\<lambda>t. with_input t (\<lambda>b.
     with_local (unlock_header E (is_read base_methods)) b (\<lambda>(rounds, salt) b.
     bind_io (lift_option EncryptionFailedException
                (PKCS5_PBKDF2_HMAC E (password_bytes password) salt rounds EVP_MAX_KEY_LENGTH)) (\<lambda>derivedKey.
     with_local (unlock_body E (is_read base_methods)) b (\<lambda>(encKeyData, hmac1) b.
     bind_io (lift_option EncryptionFailedException (hmac_of E derivedKey [encKeyData])) (\<lambda>hmac2.
     if take (length hmac2) hmac1 \<noteq> hmac2 then return_io False
     else
       with_local (DecryptedInputStream_new E MemoryInputStream_read derivedKey) (MemoryInputStream_new encKeyData) (\<lambda>c s.
       seq_io (read_keys E \<lparr>di_ctx = c, di_stream = s, di_buffer = [], di_done = False\<rparr>) (return_io True))))))))"

definition changePassword ::
    "('e, 'dc, 'h, 'm, 'l, 'z) env \<Rightarrow> filesys \<Rightarrow> ('d, 'p) DataStore \<Rightarrow> string \<Rightarrow> string \<Rightarrow> byte \<Rightarrow> 'p progress \<Rightarrow>
     (('d, 'p) session, bool) io" where
  "changePassword E fs V oldPassword newPassword logRounds pr =
     bind_io (unlockRepository E fs V oldPassword DefaultProgressFunction) (\<lambda>unlocked.
     if \<not> unlocked then return_io False
     else seq_io (writeRepositoryKey E fs V newPassword logRounds pr) (return_io True))"

section \<open>The format of the key file\<close>

lemma rounds_of_nat: "rounds_of lr = of_nat (2 ^ unat lr)"
  by (simp add: rounds_of_def push_bit_eq_mult)

lemma unat_rounds_of:
  assumes "unat lr \<le> 31"
  shows "unat (rounds_of lr) = 2 ^ unat lr"
proof -
  have "(2 :: nat) ^ unat lr < 2 ^ 32" using assms by (intro power_strict_increasing) simp_all
  then show ?thesis unfolding rounds_of_nat by (simp only: unsigned_of_nat take_bit_nat_eq_self_iff) (use assms in simp)
qed

lemma rounds_of_le: "unat lr \<le> 31 \<Longrightarrow> rounds_of lr \<le> push_bit MAX_LOG_ROUNDS 1"
  using power_increasing [of "unat lr" 31 "2 :: nat"]
  by (simp add: word_le_nat_alt unat_rounds_of MAX_LOG_ROUNDS_def)

lemma rounds_of_positive:
  assumes "unat lr \<le> 30"
  shows "0 < sint (rounds_of lr)"
proof -
  have "(2 :: nat) ^ unat lr < 2 ^ 31" using assms by (intro power_strict_increasing) simp_all
  from to_int_small [OF this] show ?thesis unfolding rounds_of_nat to_int_def by simp
qed

text \<open>The four keys, one behind the other, and a key file that holds them under a password.\<close>

definition all_keys :: "Repository \<Rightarrow> bytes" where
  "all_keys R = mEncKey R @ mMacKey R @ mHashKey R @ mRollKey R"

definition keys_ok :: "Repository \<Rightarrow> bool" where
  "keys_ok R \<longleftrightarrow> length (mEncKey R) = 64 \<and> length (mMacKey R) = 64 \<and> length (mHashKey R) = 64 \<and> length (mRollKey R) = 64"

definition enc_keys :: "('e, 'dc, 'h, 'm, 'l, 'z) env \<Rightarrow> bytes \<Rightarrow> bytes \<Rightarrow> bytes \<Rightarrow> bool" where
  "enc_keys E dk keys enc \<longleftrightarrow>
     (\<exists>iv ps c. length iv = 16 \<and> evp_encrypt E (take 32 dk) iv ps = Some c \<and> concat ps = keys \<and> enc = iv @ c \<and> length enc = 288)"

definition key_file_layout :: "byte \<Rightarrow> bytes \<Rightarrow> bytes \<Rightarrow> bytes \<Rightarrow> bytes \<Rightarrow> bool" where
  "key_file_layout lr salt enc tag bs \<longleftrightarrow> unat lr \<le> 30 \<and> length salt = 8 \<and> length enc = 288 \<and> length tag = 32
     \<and> (\<exists>pad. length pad = 32 \<and> bs = concat (key_header lr salt) @ enc @ tag @ pad)"

definition key_file ::
    "('e, 'dc, 'h, 'm, 'l, 'z) env \<Rightarrow> (bytes \<Rightarrow> bytes \<Rightarrow> bytes) \<Rightarrow> string \<Rightarrow> bytes \<Rightarrow> bytes \<Rightarrow> bool" where
  "key_file E H password keys bs \<longleftrightarrow>
     (\<exists>lr salt enc dk. PKCS5_PBKDF2_HMAC E (password_bytes password) salt (rounds_of lr) 64 = Some dk \<and> enc_keys E dk keys enc
        \<and> key_file_layout lr salt enc (H dk enc) bs)"

section \<open>Writing\<close>

interpretation mem_enc: encrypted_output MemoryOutputStream_methods mData mem_room E for E
  by unfold_locales (use mem_out.write_ok mem_out.room_mono in \<open>auto simp: MemoryOutputStream_methods_def OutputStream_def\<close>)

lemma encrypt_keys_ok:
  fixes E :: "('e, 'dc, 'h, 'm, 'l, 'z) env"
  assumes "keys_ok (w_repo w)" and "cipher_ok E (take 32 dk)" and "cipher_padded E (take 32 dk)"
  shows "\<exists>enc r. encrypt_keys E dk w = Some (Inr enc, w\<lparr>w_rng := r\<rparr>) \<and> enc_keys E dk (all_keys (w_repo w)) enc"
proof -
  define iv where "iv = fst (arc4random_buf 16 (w_rng w))"
  define R where "R = w_repo w"
  let ?ks = "[mEncKey R, mMacKey R, mHashKey R, mRollKey R]"
  let ?ps = "concat (map (chunks 4096) ?ks)"
  have cps: "concat ?ps = all_keys R" by (simp only: concat_concat_chunks zero_less_numeral) (simp add: all_keys_def)
  have len: "length (concat ?ps) = 256" unfolding cps using assms(1) by (simp add: all_keys_def keys_ok_def R_def)
  have iv16: "length iv = 16" by (simp add: iv_def)
  obtain c where c: "evp_encrypt E (take 32 dk) iv ?ps = Some c" by (rule cipher_okE [OF assms(2) iv16])
  have clen: "length c = 272" using cipher_paddedD [OF assms(3) c] unfolding len by simp
  from c obtain ctx out ctx' fin ctx'' where e: "EVP_EncryptInit_ex E (take 32 dk) iv = Some ctx"
    "enc_updates E ctx ?ps = Some (out, ctx')" "EVP_EncryptFinal_ex E ctx' = Some (fin, ctx'')" "c = out @ fin"
    by (rule evp_encrypt_SomeE)
  have "mem_room (MemoryOutputStream_new ENC_KEYS_SIZE) (16 + (length out + length fin))"
    using clen e(4) by (simp add: mem_room_def MemoryOutputStream_new_def ENC_KEYS_SIZE_def openssl_sizes)
  then obtain t1 where t1: "EncryptedOutputStream_new E MemoryOutputStream_methods dk (MemoryOutputStream_new ENC_KEYS_SIZE, w_rng w) =
      Some (Inr ctx, (t1, snd (arc4random_buf 16 (w_rng w))))" "mData t1 = iv" "mem_room t1 (length out + length fin)"
    using mem_enc.enc_new_ok [of E dk "w_rng w" ctx "MemoryOutputStream_new ENC_KEYS_SIZE" "length out + length fin"] e(1)
    by (auto simp: iv_def MemoryOutputStream_new_def)
  obtain s2 where s2: "feed (EncryptedOutputStream_write E MemoryOutputStream_methods) ?ks \<lparr>eo_ctx = ctx, eo_stream = t1\<rparr> =
      Some (Inr (), s2)" "eo_ctx s2 = ctx'" "mData (eo_stream s2) = iv @ out" "mem_room (eo_stream s2) (length fin)"
    using mem_enc.feed_enc_write_ok [of E "\<lparr>eo_ctx = ctx, eo_stream = t1\<rparr>" ?ks out ctx' "length fin"] e(2) t1(2,3)
    by (auto simp del: feed.simps)
  obtain s3 where s3: "EncryptedOutputStream_close E MemoryOutputStream_methods s2 = Some (Inr (), s3)"
    "mData (eo_stream s3) = iv @ c"
    using mem_enc.enc_close_ok [of E s2 fin ctx'' 0] e(3,4) s2(2,3,4)
    by (auto simp: MemoryOutputStream_methods_def OutputStream_def)
  have run: "seq_io (feed (EncryptedOutputStream_write E MemoryOutputStream_methods) ?ks)
      (EncryptedOutputStream_close E MemoryOutputStream_methods) \<lparr>eo_ctx = ctx, eo_stream = t1\<rparr> = Some (Inr (), s3)"
    using s2(1) s3(1) by (rule seq_io_Inr [THEN trans])
  have "encrypt_keys E dk w = Some (Inr (iv @ c), w\<lparr>w_rng := snd (arc4random_buf 16 (w_rng w))\<rparr>)"
    unfolding encrypt_keys_def t1(1) R_def [symmetric] by (simp add: with_local_Inr [where m = "seq_io _ _", OF run] s3(2) del: feed.simps)
  moreover have "enc_keys E dk (all_keys R) (iv @ c)"
    unfolding enc_keys_def using iv16 c cps clen by (intro exI [of _ iv] exI [of _ ?ps] exI [of _ c]) simp
  ultimately show ?thesis unfolding R_def by blast
qed

lemma random_io_ok: "\<exists>bs r. random_io n w = Some (Inr bs, w\<lparr>w_rng := r\<rparr>) \<and> length bs = n"
  by (simp add: random_io_def arc4random_buf_def) blast

text \<open>What the four pieces of the key file hold when they are read back.\<close>

lemma tag_buffer:
  assumes "length tag = 32"
  shows "\<exists>pad. overwrite (local_buf E 64) tag = tag @ pad \<and> length pad = 32"
  using assms by (simp add: overwrite_def)

lemma key_valid [simp]: "valid_name ''/key''"
  by (simp add: valid_name_def)

context data_store
begin

lemma writeRepositoryKey_ok:
  fixes E :: "('e, 'dc, 'h, 'm, 'l, 'z) env"
  assumes "ok (w_store w)" and "keys_ok (w_repo w)" and "hmac_ok E H" and "\<And>k. cipher_ok E k" and "\<And>k. cipher_padded E k"
    and "kdf_ok E" and "unat lr \<le> 30" and "quiet pr" and "disk_free fs"
  shows "\<exists>d p r bs. writeRepositoryKey E fs V password lr pr w = Some (Inr (), w\<lparr>w_store := d, w_prog := p, w_rng := r\<rparr>)
     \<and> ok d \<and> objects d = (objects (w_store w))(''/key'' \<mapsto> bs) \<and> key_file E H password (all_keys (w_repo w)) bs"
proof -
  obtain salt r1 where salt: "random_io 8 w = Some (Inr salt, w\<lparr>w_rng := r1\<rparr>)" "length salt = 8"
    using random_io_ok by blast
  define w1 where "w1 = w\<lparr>w_rng := r1\<rparr>"
  obtain dk where dk: "PKCS5_PBKDF2_HMAC E (password_bytes password) salt (rounds_of lr) 64 = Some dk"
    using assms(6) rounds_of_positive [OF assms(7)] unfolding kdf_ok_def by blast
  have keys: "keys_ok (w_repo w1)" "w_repo w1 = w_repo w" "w_store w1 = w_store w" using assms(2) by (simp_all add: w1_def)
  obtain enc r2 where enc: "encrypt_keys E dk w1 = Some (Inr enc, w1\<lparr>w_rng := r2\<rparr>)" "enc_keys E dk (all_keys (w_repo w)) enc"
    using encrypt_keys_ok [OF keys(1) assms(4,5), of dk] keys(2) by auto
  have tag: "hmac_of E dk [enc] = Some (H dk enc)" "length (H dk enc) = 32"
    using hmac_okD [OF assms(3), of dk "[enc]"] hmac_ok_length [OF assms(3)] by simp_all
  obtain pad where pad: "overwrite (local_buf E 64) (H dk enc) = H dk enc @ pad" "length pad = 32"
    using tag_buffer [OF tag(2)] by blast
  obtain t1 where t1: "feed TempFileStream_write (key_header lr salt) (TempFileStream_new fs) = Some (Inr (), t1)"
    "tmp_written t1 = concat (key_header lr salt)" "tmp_room t1 (length enc + 64)"
    using tmp_out.feed_write_ok [OF tmp_room_free [OF assms(9)], of "key_header lr salt" "length enc + 64"] by auto
  obtain t2 where t2: "TempFileStream_write enc t1 = Some (Inr (), t2)"
    "tmp_written t2 = concat (key_header lr salt) @ enc" "tmp_room t2 64"
    using tmp_out.feed_write_ok [of t1 "[enc]" 64] t1(2,3) by (auto simp: bind_io_eq_Inr)
  obtain t3 where t3: "TempFileStream_write (H dk enc @ pad) t2 = Some (Inr (), t3)"
    "tmp_written t3 = concat (key_header lr salt) @ enc @ H dk enc @ pad" "tmp_room t3 0"
    using tmp_out.feed_write_ok [of t2 "[H dk enc @ pad]" 0] t2(2,3) tag(2) pad(2) by (auto simp: bind_io_eq_Inr)
  obtain b t4 where b: "TempFileStream_inputStream t3 = Some (Inr (Some b), t4)" "base_inv b"
    "base_rest b = tmp_written t3" using inputStream_ok [OF t3(3)] by blast
  have "any_inv (BaseIn b)" using b(2) by simp
  then obtain d p where d: "store_put V ''/key'' (BaseIn b) pr (w1\<lparr>w_rng := r2\<rparr>) = Some (Inr (), w1\<lparr>w_rng := r2, w_store := d, w_prog := p\<rparr>)"
    "ok d" "objects d = (objects (w_store w))(''/key'' \<mapsto> tmp_written t3)"
    using store_put_ok [of "w1\<lparr>w_rng := r2\<rparr>" "''/key''" pr "BaseIn b"] assms(1,8) b(3) keys(3) by auto
  have "writeRepositoryKey E fs V password lr pr w = Some (Inr (), w1\<lparr>w_rng := r2, w_store := d, w_prog := p\<rparr>)"
    using assms(7) salt(1) dk
    by (simp add: writeRepositoryKey_def MAX_LOG_ROUNDS_def openssl_sizes w1_def [symmetric] t1(1) enc(1) t2(1) tag(1) pad(1) t3(1)
        with_input_def b(1) d(1) del: feed.simps)
  moreover have "key_file_layout lr salt enc (H dk enc) (tmp_written t3)"
    using assms(7) salt(2) tag(2) pad(2) enc(2) t3(2) by (auto simp: key_file_layout_def enc_keys_def)
  then have "key_file E H password (all_keys (w_repo w)) (tmp_written t3)"
    unfolding key_file_def using dk enc(2) by blast
  ultimately show ?thesis using d(2,3)
    by (intro exI [of _ d] exI [of _ p] exI [of _ r2] exI [of _ "tmp_written t3"]) (simp add: w1_def)
qed

end

section \<open>Reading\<close>

context input_stream
begin

lemma parses_read_into:
  assumes "length bs = n" and "length buf = n" and "n < 2 ^ 63"
  shows "parses rest inv (read_into read n buf) bs bs"
  unfolding parses_def
proof (intro allI impI)
  fix s tail
  assume "inv s \<and> rest s = bs @ tail"
  with read_ok [of s n] assms show "\<exists>s'. read_into read n buf s = Some (Inr bs, s') \<and> rest s' = tail \<and> inv s'"
    by (auto simp: read_into_def)
qed

lemma unlock_header_parses:
  assumes "length salt = 8" and "unat lr \<le> 31"
  shows "parses rest inv (unlock_header E read) (rounds_of lr, salt) (concat (key_header lr salt))"
proof -
  have magic: "parses rest inv (readExpected read 12) key_magic key_magic"
    by (rule parses_readExpected) (simp_all add: key_magic_def)
  have word: "parses rest inv (readType read 4) (x :: u32) (word_to_le 4 x)" for x
    by (rule parses_readType) simp_all
  have r: "\<not> rounds_of lr > push_bit MAX_LOG_ROUNDS 1" using rounds_of_le [OF assms(2)] by (simp add: not_less)
  have salt: "parses rest inv (read_into read 8 (local_buf E 8)) salt salt"
    by (rule parses_read_into) (simp_all add: assms(1))
  have "parses rest inv (unlock_header E read) (rounds_of lr, salt)
      (key_magic @ (word_to_le 4 (0x00010000 :: u32) @ (word_to_le 4 (0 :: u32) @ (word_to_le 4 (rounds_of lr) @ (salt @ [])))))"
    unfolding unlock_header_def PKCS5_SALT_LEN_def
    by (rule parses_guard [OF magic], simp, rule parses_guard [OF word], simp, rule parses_guard [OF word], simp,
        rule parses_guard [OF word], rule r, rule parses_bind [OF salt], rule parses_return)
  then show ?thesis by (simp add: key_header_def)
qed

lemma unlock_body_parses:
  assumes "length enc = 288" and "length tag = 64"
  shows "parses rest inv (unlock_body E read) (enc, tag) (enc @ tag)"
proof -
  have e: "parses rest inv (read_into read 288 (local_buf E 288)) enc enc"
    and t: "parses rest inv (read_into read 64 (local_buf E 64)) tag tag"
    using assms by (auto intro!: parses_read_into)
  have "parses rest inv (unlock_body E read) (enc, tag) (enc @ (tag @ []))"
    unfolding unlock_body_def ENC_KEYS_SIZE EVP_MAX_MD_SIZE_def
    by (rule parses_bind [OF e], rule parses_bind [OF t], rule parses_return)
  then show ?thesis by simp
qed

end

interpretation mem_dec: decrypted_input MemoryInputStream_read mem_rest mem_inv E for E
  by (rule decrypted_input.intro [OF mem_input])

text \<open>Reading the keys from a decrypted stream that delivers them.\<close>

definition same_keys :: "Repository \<Rightarrow> Repository \<Rightarrow> bool" where
  "same_keys R R' \<longleftrightarrow> mEncKey R' = mEncKey R \<and> mMacKey R' = mMacKey R \<and> mHashKey R' = mHashKey R \<and> mRollKey R' = mRollKey R"

lemma dec_read_into:
  fixes E :: "('e, 'dc, 'h, 'm, 'l, 'z) env"
  assumes "dec_inv E mem_rest mem_inv s" and "dec_rest E mem_rest s = k @ ks" and "length k = 64" and "length buf = 64"
  obtains s' where "read_into (dec_read E) 64 buf s = Some (Inr k, s')" "dec_inv E mem_rest mem_inv s'" "dec_rest E mem_rest s' = ks"
  using parsesE [OF mem_dec.decrypted.parses_read_into [OF assms(3,4)] assms(1,2)] that by auto

lemma read_keys_ok:
  fixes E :: "('e, 'dc, 'h, 'm, 'l, 'z) env"
  assumes "dec_inv E mem_rest mem_inv s" and "dec_rest E mem_rest s = all_keys R" and "keys_ok R" and "keys_ok (w_repo w)"
  shows "\<exists>R'. read_keys E s w = Some (Inr (), w\<lparr>w_repo := R'\<rparr>) \<and> same_keys R R' \<and> mOptions R' = mOptions (w_repo w)"
proof -
  let ?R = "w_repo w"
  have lens: "length (mEncKey R) = 64" "length (mMacKey R) = 64" "length (mHashKey R) = 64" "length (mRollKey R) = 64"
    "length (mEncKey ?R) = 64" "length (mMacKey ?R) = 64" "length (mHashKey ?R) = 64" "length (mRollKey ?R) = 64"
    using assms(3,4) by (simp_all add: keys_ok_def)
  obtain s1 where s1: "read_into (dec_read E) 64 (mEncKey ?R) s = Some (Inr (mEncKey R), s1)" "dec_inv E mem_rest mem_inv s1"
    "dec_rest E mem_rest s1 = mMacKey R @ mHashKey R @ mRollKey R"
    using dec_read_into [OF assms(1) assms(2) [unfolded all_keys_def] lens(1,5)] by blast
  obtain s2 where s2: "read_into (dec_read E) 64 (mMacKey ?R) s1 = Some (Inr (mMacKey R), s2)" "dec_inv E mem_rest mem_inv s2"
    "dec_rest E mem_rest s2 = mHashKey R @ mRollKey R" using dec_read_into [OF s1(2,3) lens(2,6)] by blast
  obtain s3 where s3: "read_into (dec_read E) 64 (mHashKey ?R) s2 = Some (Inr (mHashKey R), s3)" "dec_inv E mem_rest mem_inv s3"
    "dec_rest E mem_rest s3 = mRollKey R @ []" using dec_read_into [OF s2(2,3) lens(3,7)] by auto
  obtain s4 where s4: "read_into (dec_read E) 64 (mRollKey ?R) s3 = Some (Inr (mRollKey R), s4)"
    using dec_read_into [OF s3(2,3) lens(4,8)] by blast
  have "read_keys E s w = Some (Inr (), w\<lparr>w_repo := ?R\<lparr>mEncKey := mEncKey R, mMacKey := mMacKey R, mHashKey := mHashKey R,
      mRollKey := mRollKey R\<rparr>\<rparr>)"
    by (simp add: read_keys_def EVP_MAX_KEY_LENGTH_def s1(1) s2(1) s3(1) s4)
  then show ?thesis by (intro exI conjI) (assumption, simp_all add: same_keys_def)
qed

context data_store
begin

text \<open>Up to the check of the tag, for any password.\<close>

lemma unlock_check:
  fixes E :: "('e, 'dc, 'h, 'm, 'l, 'z) env"
  assumes "ok (w_store w)" and "objects (w_store w) ''/key'' = Some bs" and "key_file_layout lr salt enc tag bs"
    and "PKCS5_PBKDF2_HMAC E (password_bytes password) salt (rounds_of lr) 64 = Some dk"
    and "hmac_ok E H" and "quiet pr" and "disk_free fs"
  shows "\<exists>p. unlockRepository E fs V password pr w =
     (if tag \<noteq> H dk enc then return_io False
      else with_local (DecryptedInputStream_new E MemoryInputStream_read dk) (MemoryInputStream_new enc) (\<lambda>c s.
        seq_io (read_keys E \<lparr>di_ctx = c, di_stream = s, di_buffer = [], di_done = False\<rparr>) (return_io True))) (w\<lparr>w_prog := p\<rparr>)"
proof -
  obtain pad where l: "unat lr \<le> 31" "length salt = 8" "length enc = 288" "length tag = 32" "length (tag @ pad) = 64"
    "bs = concat (key_header lr salt) @ (enc @ tag @ pad)"
    using assms(3) by (auto simp: key_file_layout_def)
  have tag: "hmac_of E dk [enc] = Some (H dk enc)" "length (H dk enc) = 32"
    using hmac_okD [OF assms(5), of dk "[enc]"] hmac_ok_length [OF assms(5)] by simp_all
  define k where "k = (\<lambda>b. with_local (unlock_header E (is_read base_methods)) b (\<lambda>(rounds, salt) b.
     bind_io (lift_option EncryptionFailedException
                (PKCS5_PBKDF2_HMAC E (password_bytes password) salt rounds EVP_MAX_KEY_LENGTH)) (\<lambda>derivedKey.
     with_local (unlock_body E (is_read base_methods)) b (\<lambda>(encKeyData, hmac1) b.
     bind_io (lift_option EncryptionFailedException (hmac_of E derivedKey [encKeyData])) (\<lambda>hmac2.
     if take (length hmac2) hmac1 \<noteq> hmac2 then return_io False
     else
       with_local (DecryptedInputStream_new E MemoryInputStream_read derivedKey) (MemoryInputStream_new encKeyData) (\<lambda>c s.
       seq_io (read_keys E \<lparr>di_ctx = c, di_stream = s, di_buffer = [], di_done = False\<rparr>) (return_io True)))))) :: (('d, 'p) session, bool) io)"
  have "unlockRepository E fs V password pr w = bind_io (store_get V ''/key'' (TempFileStream_new fs) pr) (\<lambda>t. with_input t k) w"
    by (simp add: unlockRepository_def k_def)
  then obtain p b where b: "unlockRepository E fs V password pr w = k b (w\<lparr>w_prog := p\<rparr>)" "base_inv b" "base_rest b = bs"
    using get_input_ok [OF assms(1) key_valid assms(2,6,7), of k] by auto
  obtain b1 where b1: "unlock_header E (is_read base_methods) b = Some (Inr (rounds_of lr, salt), b1)"
    "base_rest b1 = enc @ tag @ pad" "base_inv b1"
    using parsesE [OF base.unlock_header_parses [OF l(2,1)] b(2)] b(3) l(6) by metis
  obtain b2 where b2: "unlock_body E (is_read base_methods) b1 = Some (Inr (enc, tag @ pad), b2)"
    using parsesE [OF base.unlock_body_parses [OF l(3,5)] b1(3), of "[]"] b1(2) by auto
  have "k b = (if tag \<noteq> H dk enc then return_io False
      else with_local (DecryptedInputStream_new E MemoryInputStream_read dk) (MemoryInputStream_new enc) (\<lambda>c s.
        seq_io (read_keys E \<lparr>di_ctx = c, di_stream = s, di_buffer = [], di_done = False\<rparr>) (return_io True)))"
    using assms(4) tag l(4) by (simp add: k_def b1(1) b2 EVP_MAX_KEY_LENGTH_def)
  with b(1) show ?thesis by auto
qed

end

lemma open_keys:
  fixes E :: "('e, 'dc, 'h, 'm, 'l, 'z) env"
  assumes "cipher_ok E (take 32 dk)" and "enc_keys E dk (all_keys R) enc" and "keys_ok R" and "keys_ok (w_repo w)"
  shows "\<exists>R'. with_local (DecryptedInputStream_new E MemoryInputStream_read dk) (MemoryInputStream_new enc) (\<lambda>c s.
        seq_io (read_keys E \<lparr>di_ctx = c, di_stream = s, di_buffer = [], di_done = False\<rparr>) (return_io True)) w
      = Some (Inr True, w\<lparr>w_repo := R'\<rparr>) \<and> same_keys R R' \<and> mOptions R' = mOptions (w_repo w)"
proof -
  obtain iv ps c where e: "length iv = 16" "evp_encrypt E (take 32 dk) iv ps = Some c" "concat ps = all_keys R" "enc = iv @ c"
    using assms(2) by (auto simp: enc_keys_def)
  have dec: "evp_decrypt E (take 32 dk) iv (chunks 4096 c) = Some (all_keys R)"
    using cipher_chunks [OF assms(1) e(1,2)] e(3) by simp
  obtain ctx s where s: "DecryptedInputStream_new E MemoryInputStream_read dk (MemoryInputStream_new enc) = Some (Inr ctx, s)"
    "dec_inv E mem_rest mem_inv \<lparr>di_ctx = ctx, di_stream = s, di_buffer = [], di_done = False\<rparr>"
    "dec_rest E mem_rest \<lparr>di_ctx = ctx, di_stream = s, di_buffer = [], di_done = False\<rparr> = all_keys R"
    using mem_dec.dec_new_ok [OF mem_new(1) _ e(1) dec, of enc] e(4) by auto
  obtain R' where "read_keys E \<lparr>di_ctx = ctx, di_stream = s, di_buffer = [], di_done = False\<rparr> w = Some (Inr (), w\<lparr>w_repo := R'\<rparr>)"
    "same_keys R R'" "mOptions R' = mOptions (w_repo w)" using read_keys_ok [OF s(2,3) assms(3,4)] by blast
  with s(1) show ?thesis by auto
qed

context data_store
begin

lemma unlock_ok:
  fixes E :: "('e, 'dc, 'h, 'm, 'l, 'z) env"
  assumes "ok (w_store w)" and "objects (w_store w) ''/key'' = Some bs" and "key_file E H password (all_keys R) bs"
    and "keys_ok R" and "keys_ok (w_repo w)" and "hmac_ok E H" and "\<And>k. cipher_ok E k" and "quiet pr" and "disk_free fs"
  shows "\<exists>p R'. unlockRepository E fs V password pr w = Some (Inr True, w\<lparr>w_prog := p, w_repo := R'\<rparr>) \<and> same_keys R R'
     \<and> mOptions R' = mOptions (w_repo w)"
proof -
  obtain lr salt enc dk where k: "PKCS5_PBKDF2_HMAC E (password_bytes password) salt (rounds_of lr) 64 = Some dk"
    "enc_keys E dk (all_keys R) enc" "key_file_layout lr salt enc (H dk enc) bs"
    using assms(3) by (auto simp: key_file_def)
  obtain p where p: "unlockRepository E fs V password pr w =
      with_local (DecryptedInputStream_new E MemoryInputStream_read dk) (MemoryInputStream_new enc) (\<lambda>c s.
        seq_io (read_keys E \<lparr>di_ctx = c, di_stream = s, di_buffer = [], di_done = False\<rparr>) (return_io True)) (w\<lparr>w_prog := p\<rparr>)"
    using unlock_check [OF assms(1,2) k(3,1) assms(6,8,9)] by auto
  have "keys_ok (w_repo (w\<lparr>w_prog := p\<rparr>))" using assms(5) by simp
  from open_keys [OF assms(7) k(2) assms(4) this] p show ?thesis by auto
qed

lemma unlock_wrong:
  fixes E :: "('e, 'dc, 'h, 'm, 'l, 'z) env"
  assumes "ok (w_store w)" and "objects (w_store w) ''/key'' = Some bs" and "key_file_layout lr salt enc tag bs"
    and "PKCS5_PBKDF2_HMAC E (password_bytes password) salt (rounds_of lr) 64 = Some dk" and "tag \<noteq> H dk enc"
    and "hmac_ok E H" and "quiet pr" and "disk_free fs"
  shows "\<exists>p. unlockRepository E fs V password pr w = Some (Inr False, w\<lparr>w_prog := p\<rparr>)"
  using unlock_check [OF assms(1-4,6-8)] assms(5) by auto

lemma initializeRepository_ok:
  fixes E :: "('e, 'dc, 'h, 'm, 'l, 'z) env"
  assumes "ok (w_store w)" and "hmac_ok E H" and "\<And>k. cipher_ok E k" and "\<And>k. cipher_padded E k"
    and "kdf_ok E" and "unat lr \<le> 30" and "quiet pr" and "disk_free fs"
  shows "\<exists>w' bs. initializeRepository E fs V password lr pr w = Some (Inr (), w') \<and> ok (w_store w') \<and> keys_ok (w_repo w')
     \<and> objects (w_store w') = (objects (w_store w))(''/key'' \<mapsto> bs) \<and> key_file E H password (all_keys (w_repo w')) bs
     \<and> mOptions (w_repo w') = mOptions (w_repo w)"
proof -
  obtain k1 r1 where k1: "random_io 64 w = Some (Inr k1, w\<lparr>w_rng := r1\<rparr>)" "length k1 = 64" using random_io_ok by blast
  obtain k2 r2 where k2: "random_io 64 (w\<lparr>w_rng := r1\<rparr>) = Some (Inr k2, w\<lparr>w_rng := r2\<rparr>)" "length k2 = 64"
    using random_io_ok [of 64 "w\<lparr>w_rng := r1\<rparr>"] by auto
  obtain k3 r3 where k3: "random_io 64 (w\<lparr>w_rng := r2\<rparr>) = Some (Inr k3, w\<lparr>w_rng := r3\<rparr>)" "length k3 = 64"
    using random_io_ok [of 64 "w\<lparr>w_rng := r2\<rparr>"] by auto
  obtain k4 r4 where k4: "random_io 64 (w\<lparr>w_rng := r3\<rparr>) = Some (Inr k4, w\<lparr>w_rng := r4\<rparr>)" "length k4 = 64"
    using random_io_ok [of 64 "w\<lparr>w_rng := r3\<rparr>"] by auto
  define w1 where "w1 = w\<lparr>w_rng := r4, w_repo := (w_repo w)\<lparr>mEncKey := k1, mMacKey := k2, mHashKey := k3, mRollKey := k4\<rparr>\<rparr>"
  have w1: "keys_ok (w_repo w1)" "ok (w_store w1)" "w_store w1 = w_store w" "mOptions (w_repo w1) = mOptions (w_repo w)"
    using k1(2) k2(2) k3(2) k4(2) assms(1) by (simp_all add: w1_def keys_ok_def)
  have "initializeRepository E fs V password lr pr w = writeRepositoryKey E fs V password lr pr w1"
    by (simp add: initializeRepository_def EVP_MAX_KEY_LENGTH_def k1(1) k2(1) k3(1) k4(1) w1_def seq_io_def)
  with writeRepositoryKey_ok [OF w1(2,1) assms(2-8), of password] w1 show ?thesis by fastforce
qed

lemma changePassword_ok:
  fixes E :: "('e, 'dc, 'h, 'm, 'l, 'z) env"
  assumes "ok (w_store w)" and "objects (w_store w) ''/key'' = Some bs" and "key_file E H old (all_keys R) bs"
    and "keys_ok R" and "keys_ok (w_repo w)" and "hmac_ok E H" and "\<And>k. cipher_ok E k" and "\<And>k. cipher_padded E k"
    and "kdf_ok E" and "unat lr \<le> 30" and "quiet pr" and "disk_free fs"
  shows "\<exists>w' bs'. changePassword E fs V old new lr pr w = Some (Inr True, w') \<and> ok (w_store w') \<and> same_keys R (w_repo w')
     \<and> objects (w_store w') = (objects (w_store w))(''/key'' \<mapsto> bs') \<and> key_file E H new (all_keys R) bs'"
proof -
  obtain p R' where u: "unlockRepository E fs V old DefaultProgressFunction w = Some (Inr True, w\<lparr>w_prog := p, w_repo := R'\<rparr>)"
    "same_keys R R'" using unlock_ok [OF assms(1-7) quiet_default assms(12)] by blast
  let ?w1 = "w\<lparr>w_prog := p, w_repo := R'\<rparr>"
  have R': "keys_ok (w_repo ?w1)" "ok (w_store ?w1)" "all_keys R' = all_keys R"
    using u(2) assms(1,4) by (simp_all add: same_keys_def keys_ok_def all_keys_def)
  obtain d p' r bs' where "writeRepositoryKey E fs V new lr pr ?w1 = Some (Inr (), ?w1\<lparr>w_store := d, w_prog := p', w_rng := r\<rparr>)"
    "ok d" "objects d = (objects (w_store w))(''/key'' \<mapsto> bs')" "key_file E H new (all_keys R) bs'"
    using writeRepositoryKey_ok [OF R'(2,1) assms(6-12), of new] R'(3) by auto
  with u show ?thesis by (auto simp: changePassword_def)
qed

end

section \<open>Damaged key files\<close>

context data_store
begin

lemma unlock_missing:
  assumes "ok (w_store w)" and "objects (w_store w) ''/key'' = None"
  shows "\<exists>p. unlockRepository E fs V password pr w = Some (Inl FileNotFoundException, w\<lparr>w_prog := p\<rparr>)"
  using store_get_missing [OF assms(1) key_valid assms(2), of "TempFileStream_new fs" pr] by (auto simp: unlockRepository_def)

lemma unlock_bad_magic:
  fixes E :: "('e, 'dc, 'h, 'm, 'l, 'z) env"
  assumes "ok (w_store w)" and "objects (w_store w) ''/key'' = Some bs" and "take 12 bs \<noteq> key_magic" and "quiet pr" and "disk_free fs"
  shows "\<exists>p. unlockRepository E fs V password pr w
     = Some (Inl (if length bs < 12 then ShortReadException else InvalidRepositoryException), w\<lparr>w_prog := p\<rparr>)"
proof -
  let ?e = "if length bs < 12 then ShortReadException else InvalidRepositoryException"
  have head: "\<exists>b'. unlock_header E (is_read base_methods) b = Some (Inl ?e, b')" if b: "base_inv b" "base_rest b = bs" for b
  proof (cases "length bs < 12")
    case True
    then obtain b' where "readExpected (is_read base_methods) 12 b = Some (Inl ShortReadException, b')"
      using base.readExpected_short [OF b(1), of 12] b(2) by auto
    then show ?thesis using True by (simp add: unlock_header_def)
  next
    case False
    then obtain b' where "readExpected (is_read base_methods) 12 b = Some (Inr (take 12 bs), b')"
      using base.readExpected_ok [OF b(1), of 12] b(2) by auto
    then show ?thesis using False assms(3) by (simp add: unlock_header_def)
  qed
  obtain k :: "base_in \<Rightarrow> (('d, 'p) session, bool) io" where
    k: "unlockRepository E fs V password pr = bind_io (store_get V ''/key'' (TempFileStream_new fs) pr) (\<lambda>t. with_input t k)"
    "\<And>b b' e. unlock_header E (is_read base_methods) b = Some (Inl e, b') \<Longrightarrow> k b = throw_io e"
    by (rule that [OF unlockRepository_def]) simp
  obtain p b where b: "unlockRepository E fs V password pr w = k b (w\<lparr>w_prog := p\<rparr>)" "base_inv b" "base_rest b = bs"
    using get_input_ok [OF assms(1) key_valid assms(2,4,5), of k] k(1) by auto
  with head [OF b(2,3)] k(2) show ?thesis by fastforce
qed

end

section \<open>Properties\<close>

text \<open>C6. A repository that has been initialised can be unlocked: \<^verbatim>\<open>initializeRepository\<close> on a directory store succeeds, and
  \<^verbatim>\<open>unlockRepository\<close> with the same password, by any \<^verbatim>\<open>Repository\<close> object on that store, returns true and sets the four
  keys to those that were generated.\<close>

theorem initialize_unlock:
  fixes E :: "('e, 'dc, 'h, 'm, 'l, 'z) env"
  assumes "file_store_ok root (w_store w)" and "hmac_ok E H" and "\<forall>k. cipher_ok E k" and "\<forall>k. cipher_padded E k"
    and "kdf_ok E" and "unat lr \<le> 30" and "quiet pr" and "disk_free fs"
  shows "\<exists>w'. initializeRepository E fs (FileDataStore root) password lr pr w = Some (Inr (), w')
     \<and> (\<forall>w2. w_store w2 = w_store w' \<and> keys_ok (w_repo w2) \<longrightarrow>
          (\<exists>p R'. unlockRepository E fs (FileDataStore root) password pr w2 = Some (Inr True, w2\<lparr>w_prog := p, w_repo := R'\<rparr>)
             \<and> same_keys (w_repo w') R'))"
proof -
  have c: "\<And>k. cipher_ok E k" "\<And>k. cipher_padded E k" using assms(3,4) by blast+
  obtain w' bs where w': "initializeRepository E fs (FileDataStore root) password lr pr w = Some (Inr (), w')"
    "file_store_ok root (w_store w')" "keys_ok (w_repo w')"
    "file_objects root (w_store w') = (file_objects root (w_store w))(''/key'' \<mapsto> bs)" "key_file E H password (all_keys (w_repo w')) bs"
    using file_store.initializeRepository_ok [OF assms(1,2) c assms(5-8), of password] by blast
  have bs: "file_objects root (w_store w') ''/key'' = Some bs" using w'(4) by simp
  show ?thesis
    using file_store.unlock_ok [OF _ _ w'(5,3) _ assms(2) c(1) assms(7,8)] w'(1,2) bs by metis
qed

text \<open>C9. Any key file of the right layout whose tag is not the one the password gives is refused: \<^verbatim>\<open>unlockRepository\<close> returns
  false, and neither the keys of the object nor the store change.\<close>

theorem wrong_password_rejected:
  fixes E :: "('e, 'dc, 'h, 'm, 'l, 'z) env"
  assumes "file_store_ok root (w_store w)" and "file_objects root (w_store w) ''/key'' = Some bs"
    and "key_file_layout lr salt enc tag bs" and "PKCS5_PBKDF2_HMAC E (password_bytes password) salt (rounds_of lr) 64 = Some dk"
    and "tag \<noteq> H dk enc" and "hmac_ok E H" and "quiet pr" and "disk_free fs"
  shows "\<exists>p. unlockRepository E fs (FileDataStore root) password pr w = Some (Inr False, w\<lparr>w_prog := p\<rparr>)"
  by (rule file_store.unlock_wrong [OF assms])

text \<open>C10. Changing the password keeps the keys: \<^verbatim>\<open>changePassword\<close> with the right old password returns true and replaces the key
  file, after which the new password unlocks the same four keys; no other object of the store changes.\<close>

theorem change_password_keeps_keys:
  fixes E :: "('e, 'dc, 'h, 'm, 'l, 'z) env"
  assumes "file_store_ok root (w_store w)" and "file_objects root (w_store w) ''/key'' = Some bs"
    and "key_file E H old (all_keys R) bs" and "keys_ok R" and "keys_ok (w_repo w)" and "hmac_ok E H"
    and "\<forall>k. cipher_ok E k" and "\<forall>k. cipher_padded E k" and "kdf_ok E" and "unat lr \<le> 30" and "quiet pr" and "disk_free fs"
  shows "\<exists>w'. changePassword E fs (FileDataStore root) old new lr pr w = Some (Inr True, w')
     \<and> (\<forall>n. n \<noteq> ''/key'' \<longrightarrow> file_objects root (w_store w') n = file_objects root (w_store w) n)
     \<and> (\<forall>w2. w_store w2 = w_store w' \<and> keys_ok (w_repo w2) \<longrightarrow>
          (\<exists>p R'. unlockRepository E fs (FileDataStore root) new pr w2 = Some (Inr True, w2\<lparr>w_prog := p, w_repo := R'\<rparr>)
             \<and> same_keys R R'))"
proof -
  have c: "\<And>k. cipher_ok E k" "\<And>k. cipher_padded E k" using assms(7,8) by blast+
  obtain w' bs' where w': "changePassword E fs (FileDataStore root) old new lr pr w = Some (Inr True, w')"
    "file_store_ok root (w_store w')"
    "file_objects root (w_store w') = (file_objects root (w_store w))(''/key'' \<mapsto> bs')" "key_file E H new (all_keys R) bs'"
    using file_store.changePassword_ok [OF assms(1-6) c assms(9-12), of new] by blast
  have bs: "file_objects root (w_store w') ''/key'' = Some bs'" using w'(3) by simp
  have unlock: "\<exists>p R'. unlockRepository E fs (FileDataStore root) new pr w2 = Some (Inr True, w2\<lparr>w_prog := p, w_repo := R'\<rparr>)
             \<and> same_keys R R'" if "w_store w2 = w_store w' \<and> keys_ok (w_repo w2)" for w2
    using file_store.unlock_ok [OF _ _ w'(4) assms(4) _ assms(6) c(1) assms(11,12)] w'(2) bs that by metis
  show ?thesis by (rule exI [of _ w'], intro conjI) (use w'(1,3) unlock in simp_all)
qed

text \<open>C29. A key object that is missing, too short or does not start with the magic bytes makes \<^verbatim>\<open>unlockRepository\<close> throw
  \<^verbatim>\<open>FileNotFoundException\<close>, \<^verbatim>\<open>ShortReadException\<close> or \<^verbatim>\<open>InvalidRepositoryException\<close>, with keys and store unchanged.\<close>

theorem unlock_damaged:
  fixes E :: "('e, 'dc, 'h, 'm, 'l, 'z) env"
  assumes "file_store_ok root (w_store w)" and "quiet pr" and "disk_free fs"
    and "case file_objects root (w_store w) ''/key'' of None \<Rightarrow> True | Some bs \<Rightarrow> take 12 bs \<noteq> key_magic"
  shows "\<exists>p. unlockRepository E fs (FileDataStore root) password pr w
     = Some (Inl (case file_objects root (w_store w) ''/key'' of None \<Rightarrow> FileNotFoundException
         | Some bs \<Rightarrow> if length bs < 12 then ShortReadException else InvalidRepositoryException), w\<lparr>w_prog := p\<rparr>)"
proof (cases "file_objects root (w_store w) ''/key''")
  case None
  then show ?thesis using file_store.unlock_missing [OF assms(1) None] by simp
next
  case (Some bs)
  with assms(4) have "take 12 bs \<noteq> key_magic" by simp
  from file_store.unlock_bad_magic [OF assms(1) Some this assms(2,3), of E password] Some show ?thesis by simp
qed

section \<open>Evaluations\<close>

text \<open>A session on the store of \<open>store_disk\<close>, and one whose store holds a key object.\<close>

definition sample_session :: "filesys \<Rightarrow> (filesys, unit) session" where
  "sample_session fs = \<lparr>w_repo = Repository_new plain_env None, w_store = fs, w_prog = (), w_rng = (\<lambda>i. of_nat i)\<rparr>"

definition key_disk :: "bytes \<Rightarrow> filesys" where
  "key_disk bs = fs_write ''/s/key'' bs store_disk"

lemma sample_keys_ok: "keys_ok (w_repo (sample_session fs))"
  by (simp add: sample_session_def Repository_new_def keys_ok_def EVP_MAX_KEY_LENGTH_def)

lemma sample_store [simp]: "w_store (sample_session fs) = fs"
  by (simp add: sample_session_def)

lemma key_disk_ok: "file_store_ok ''/s'' (key_disk bs)" "file_objects ''/s'' (key_disk bs) ''/key'' = Some bs"
proof -
  have "fs_node store_disk (parent_path (''/s'' @ ''/key'')) = Some DirNode"
  proof -
    have "parent_path (''/s'' @ ''/key'') = ''/s''" by code_simp
    then show ?thesis by (simp only: store_disk_def fs_node_def) simp
  qed
  note w = file_store_ok_write [OF store_disk_ok key_valid this, of bs]
  show "file_store_ok ''/s'' (key_disk bs)" "file_objects ''/s'' (key_disk bs) ''/key'' = Some bs"
    using w by (simp_all add: key_disk_def)
qed

lemma plain_ciphers: "\<forall>k. cipher_ok plain_env k" "\<forall>k. cipher_padded plain_env k"
  by (simp_all add: plain_cipher_ok plain_cipher_padded)

theorem initialize_unlock_witness:
  "\<exists>w' p R'. initializeRepository plain_env empty_disk (FileDataStore ''/s'') ''secret'' 4 DefaultProgressFunction (sample_session store_disk)
       = Some (Inr (), w')
     \<and> unlockRepository plain_env empty_disk (FileDataStore ''/s'') ''secret'' DefaultProgressFunction (sample_session (w_store w'))
       = Some (Inr True, (sample_session (w_store w'))\<lparr>w_prog := p, w_repo := R'\<rparr>) \<and> same_keys (w_repo w') R'"
proof -
  have ok: "file_store_ok ''/s'' (w_store (sample_session store_disk))" by (simp add: store_disk_ok)
  have four: "unat (4 :: byte) \<le> 30" by simp
  obtain w' where w': "initializeRepository plain_env empty_disk (FileDataStore ''/s'') ''secret'' 4 DefaultProgressFunction (sample_session store_disk)
       = Some (Inr (), w')"
    "\<forall>w2 :: (filesys, unit) session. w_store w2 = w_store w' \<and> keys_ok (w_repo w2) \<longrightarrow>
       (\<exists>p R'. unlockRepository plain_env empty_disk (FileDataStore ''/s'') ''secret'' DefaultProgressFunction w2
          = Some (Inr True, w2\<lparr>w_prog := p, w_repo := R'\<rparr>) \<and> same_keys (w_repo w') R')"
    using initialize_unlock [OF ok plain_hmac_ok plain_ciphers plain_kdf_ok four quiet_default empty_disk_free, of "''secret''"]
    by blast
  have "w_store (sample_session (w_store w')) = w_store w' \<and> keys_ok (w_repo (sample_session (w_store w')))"
    by (simp add: sample_keys_ok)
  from w'(2) [rule_format, OF this] w'(1) show ?thesis by blast
qed

definition zero_key_file :: bytes where
  "zero_key_file = concat (key_header 4 (replicate 8 0)) @ replicate 288 0 @ replicate 32 0 @ replicate 32 0"

theorem wrong_password_rejected_witness:
  "\<exists>p. unlockRepository plain_env empty_disk (FileDataStore ''/s'') ''a'' DefaultProgressFunction (sample_session (key_disk zero_key_file))
     = Some (Inr False, (sample_session (key_disk zero_key_file))\<lparr>w_prog := p\<rparr>)"
proof (rule wrong_password_rejected [OF _ _ _ _ _ plain_hmac_ok quiet_default empty_disk_free])
  let ?w = "sample_session (key_disk zero_key_file)"
  show "file_store_ok ''/s'' (w_store ?w)" "file_objects ''/s'' (w_store ?w) ''/key'' = Some zero_key_file"
    using key_disk_ok [of zero_key_file] by simp_all
  show "key_file_layout 4 (replicate 8 0) (replicate 288 0) (replicate 32 0) zero_key_file"
    unfolding key_file_layout_def zero_key_file_def by (intro conjI exI [of _ "replicate 32 0"]) simp_all
  show "PKCS5_PBKDF2_HMAC plain_env (password_bytes ''a'') (replicate 8 0) (rounds_of 4) 64 = Some (take 64 (97 # replicate 64 0))"
    by (simp add: password_bytes_def byte_of_char_def cstr_def NUL_def)
  show "replicate 32 0 \<noteq> plain_hmac (take 64 (97 # replicate 64 0)) (replicate 288 0)"
  proof
    assume "replicate 32 0 = plain_hmac (take 64 (97 # replicate 64 0)) (replicate 288 0)"
    from arg_cong [OF this, of hd] show False by (simp add: plain_hmac_def sum_list_replicate)
  qed
qed

text \<open>A key file under the password \<open>old\<close>, as the environment of the evaluations encrypts it.\<close>

definition sample_enc :: bytes where
  "sample_enc = replicate 16 9 @ replicate 256 0 @ replicate 16 16"

definition sample_key_file :: bytes where
  "sample_key_file = concat (key_header 4 (replicate 8 0)) @ sample_enc
     @ plain_hmac (take 64 (password_bytes ''old'' @ replicate 64 0)) sample_enc @ replicate 32 0"

lemma sample_key_file_ok: "key_file plain_env plain_hmac ''old'' (all_keys (w_repo (sample_session fs))) sample_key_file"
proof -
  let ?dk = "take 64 (password_bytes ''old'' @ replicate 64 0)"
  have keys: "all_keys (w_repo (sample_session fs)) = replicate 256 0"
    by (simp add: sample_session_def Repository_new_def all_keys_def local_buf_def EVP_MAX_KEY_LENGTH_def flip: replicate_add)
  have "enc_keys plain_env ?dk (replicate 256 0) sample_enc"
    unfolding enc_keys_def sample_enc_def
    by (intro exI [of _ "replicate 16 9"] exI [of _ "[replicate 256 0]"] exI [of _ "replicate 256 0 @ replicate 16 16"])
       (simp add: evp_encrypt_def)
  moreover have "key_file_layout 4 (replicate 8 0) sample_enc (plain_hmac ?dk sample_enc) sample_key_file"
    unfolding key_file_layout_def sample_key_file_def
    by (intro conjI exI [of _ "replicate 32 0"]) (simp_all add: length_plain_hmac sample_enc_def)
  ultimately show ?thesis
    unfolding key_file_def keys by (intro exI [of _ 4] exI [of _ "replicate 8 0"] exI [of _ sample_enc] exI [of _ ?dk]) simp
qed

theorem change_password_keeps_keys_witness:
  "\<exists>w'. changePassword plain_env empty_disk (FileDataStore ''/s'') ''old'' ''new'' 4 DefaultProgressFunction
      (sample_session (key_disk sample_key_file)) = Some (Inr True, w')"
proof -
  let ?w = "sample_session (key_disk sample_key_file)"
  have ok: "file_store_ok ''/s'' (w_store ?w)" "file_objects ''/s'' (w_store ?w) ''/key'' = Some sample_key_file"
    using key_disk_ok [of sample_key_file] by simp_all
  have "unat (4 :: byte) \<le> 30" by simp
  from change_password_keeps_keys [OF ok sample_key_file_ok sample_keys_ok sample_keys_ok plain_hmac_ok plain_ciphers plain_kdf_ok this
      quiet_default empty_disk_free, of "''new''"]
  show ?thesis by blast
qed

theorem unlock_damaged_witness:
  "\<exists>p. unlockRepository plain_env empty_disk (FileDataStore ''/s'') ''a'' DefaultProgressFunction (sample_session (key_disk (replicate 20 0)))
     = Some (Inl InvalidRepositoryException, (sample_session (key_disk (replicate 20 0)))\<lparr>w_prog := p\<rparr>)"
proof -
  let ?w = "sample_session (key_disk (replicate 20 0))"
  have ok: "file_store_ok ''/s'' (w_store ?w)" "file_objects ''/s'' (w_store ?w) ''/key'' = Some (replicate 20 0)"
    using key_disk_ok [of "replicate 20 0"] by simp_all
  have "take 12 (replicate 20 0) \<noteq> key_magic" by code_simp
  then show ?thesis
    using unlock_damaged [OF ok(1) quiet_default empty_disk_free, where E = plain_env and password = "''a''"] ok(2) by simp
qed

end
