(* ===== verification/Repository_Snapshots.thy ===== *)
theory Repository_Snapshots
  imports Repository_Keys
begin

text \<open>
  The snapshots of a repository: \<^verbatim>\<open>createSnapshot\<close>, \<^verbatim>\<open>commitSnapshot\<close>, \<^verbatim>\<open>loadSnapshot\<close> and \<^verbatim>\<open>listSnapshots\<close>. A snapshot
  is saved, compressed, encrypted and put under its name; loading takes the same steps back.
\<close>

section \<open>Operations\<close>

definition snapshot_path :: "string \<Rightarrow> string" where
  "snapshot_path name = ''/snapshot/'' @ cstr name"

definition createSnapshot :: Snapshot where
  "createSnapshot = Snapshot_new"

text \<open>The callback is called with every argument the store's \<^verbatim>\<open>list\<close> delivers, the final null pointer included.\<close>

definition listSnapshots ::
    "('d, 'p) DataStore \<Rightarrow> (string option \<Rightarrow> ('c, unit) io) \<Rightarrow> 'p progress \<Rightarrow> (('d, 'p) session \<times> 'c, unit) io" where
  "listSnapshots V callback pr = (\<lambda>(w, c). case store_list V ''/snapshot'' pr w of
       None \<Rightarrow> None
     | Some (Inl e, w') \<Rightarrow> Some (Inl e, (w', c))
     | Some (Inr names, w') \<Rightarrow> map_option (\<lambda>(x, c'). (x, (w', c'))) (feed callback names c))"

definition loadSnapshot ::
    "('e, 'dc, 'h, 'm, 'l, 'z) env \<Rightarrow> filesys \<Rightarrow> ('d, 'p) DataStore \<Rightarrow> string \<Rightarrow> 'p progress \<Rightarrow> (('d, 'p) session, Snapshot) io" where
  "loadSnapshot E fs V name pr =
     bind_io (store_get V (snapshot_path name) (TempFileStream_new fs) pr) (\<lambda>t. with_input t (\<lambda>b.
     bind_io (gets_io w_repo) (\<lambda>R.
     with_local (decompressDecryptHMAC E LZMA2 (mEncKey R) (mMacKey R) base_methods TempFileStream_write) (b, TempFileStream_new fs)
       (\<lambda>_ (b', t').
     with_input t' (\<lambda>b2.
     with_local (Snapshot_load (is_read base_methods)) (b2, Snapshot_new) (\<lambda>_ (b3, snapshot). return_io snapshot))))))"

definition commitSnapshot ::
    "('e, 'dc, 'h, 'm, 'l, 'z) env \<Rightarrow> filesys \<Rightarrow> ('d, 'p) DataStore \<Rightarrow> Snapshot \<Rightarrow> string \<Rightarrow> 'p progress \<Rightarrow> (('d, 'p) session, unit) io" where
  "commitSnapshot E fs V snapshot name pr =
     with_local (Snapshot_save TempFileStream_write snapshot) (TempFileStream_new fs) (\<lambda>_ t. with_input t (\<lambda>b.
     bind_io (seal_io E fs LZMA2 (is_read base_methods) b) (\<lambda>m.
     store_put V (snapshot_path name) (EncIn m) pr)))"

section \<open>Committing and loading\<close>

lemma snapshot_path_valid: "plain_name (cstr name) \<Longrightarrow> valid_name (snapshot_path name)"
  by (auto simp: valid_name_def snapshot_path_def)

lemma base_input: "input_stream (is_read base_methods) base_rest base_inv"
  by unfold_locales (use base.read_ok in blast)

definition sealed_snapshot ::
    "('e, 'dc, 'h, 'm, 'l, 'z) env \<Rightarrow> (bytes \<Rightarrow> bytes \<Rightarrow> bytes) \<Rightarrow> Repository \<Rightarrow> Snapshot \<Rightarrow> bytes \<Rightarrow> bool" where
  "sealed_snapshot E H R s y \<longleftrightarrow> sealed E H LZMA2 (mEncKey R) (mMacKey R) (snapshot_bytes s) y"

context data_store
begin

lemma commitSnapshot_ok:
  fixes E :: "('e, 'dc, 'h, 'm, 'l, 'z) env"
  assumes "ok (w_store w)" and "snap_inv s" and "plain_name (cstr name)" and "hmac_ok E H"
    and "cipher_ok E (take 32 (mEncKey (w_repo w)))" and "lzma_ok E" and "quiet pr" and "disk_free fs"
  shows "\<exists>d p r y. commitSnapshot E fs V s name pr w = Some (Inr (), w\<lparr>w_rng := r, w_store := d, w_prog := p\<rparr>) \<and> ok d
     \<and> objects d = (objects (w_store w))(snapshot_path name \<mapsto> y) \<and> sealed_snapshot E H (w_repo w) s y"
proof -
  have str: "strings_inv s" using assms(2) by (simp add: snap_inv_def)
  obtain t where t: "Snapshot_save TempFileStream_write s (TempFileStream_new fs) = Some (Inr (), t)"
    "tmp_written t = snapshot_bytes s" "tmp_room t 0"
    using tmp_out.Snapshot_save_ok [OF str tmp_room_free [OF assms(8)], of 0] by auto
  obtain b t' where b: "TempFileStream_inputStream t = Some (Inr (Some b), t')" "base_inv b"
    "base_rest b = snapshot_bytes s" using inputStream_ok [OF t(3)] t(2) by auto
  obtain m r where m: "seal_io E fs LZMA2 (is_read base_methods) b w = Some (Inr m, w\<lparr>w_rng := r\<rparr>)" "enc_inv m"
    "sealed E H LZMA2 (mEncKey (w_repo w)) (mMacKey (w_repo w)) (snapshot_bytes s) (enc_rest m)"
    using seal_io_ok [OF base_input b(2) assms(4,5,6) _ assms(8), of LZMA2] b(3) by auto
  have "any_inv (EncIn m)" using m(2) by simp
  then obtain d p where "store_put V (snapshot_path name) (EncIn m) pr (w\<lparr>w_rng := r\<rparr>) = Some (Inr (), w\<lparr>w_rng := r, w_store := d, w_prog := p\<rparr>)"
    "ok d" "objects d = (objects (w_store w))(snapshot_path name \<mapsto> enc_rest m)"
    using store_put_ok [of "w\<lparr>w_rng := r\<rparr>" "snapshot_path name" pr "EncIn m"] snapshot_path_valid [OF assms(3)] assms(1,7) by auto
  with t b m show ?thesis
    by (intro exI [of _ d] exI [of _ p] exI [of _ r] exI [of _ "enc_rest m"])
       (simp add: commitSnapshot_def with_input_def sealed_snapshot_def)
qed

lemma loadSnapshot_ok:
  fixes E :: "('e, 'dc, 'h, 'm, 'l, 'z) env"
  assumes "ok (w_store w)" and "objects (w_store w) (snapshot_path name) = Some y" and "sealed_snapshot E H (w_repo w) s y"
    and "snap_inv s" and "canonical s" and "plain_name (cstr name)" and "hmac_ok E H"
    and "cipher_ok E (take 32 (mEncKey (w_repo w)))" and "quiet pr" and "disk_free fs"
  shows "\<exists>p s'. loadSnapshot E fs V name pr w = Some (Inr s', w\<lparr>w_prog := p\<rparr>) \<and> mFiles s' = mFiles s
     \<and> mStringBuffer s' = mStringBuffer s \<and> mObjectIDs s' = mObjectIDs s \<and> snap_inv s'"
proof -
  let ?R = "w_repo w"
  define k where "k = (\<lambda>b. bind_io (gets_io w_repo) (\<lambda>R.
     with_local (decompressDecryptHMAC E LZMA2 (mEncKey R) (mMacKey R) base_methods TempFileStream_write) (b, TempFileStream_new fs)
       (\<lambda>_ (b', t').
     with_input t' (\<lambda>b2.
     with_local (Snapshot_load (is_read base_methods)) (b2, Snapshot_new) (\<lambda>_ (b3, snapshot). return_io snapshot)))) :: (('d, 'p) session, Snapshot) io)"
  have "loadSnapshot E fs V name pr w = bind_io (store_get V (snapshot_path name) (TempFileStream_new fs) pr) (\<lambda>t. with_input t k) w"
    by (simp add: loadSnapshot_def k_def)
  then obtain p b where b: "loadSnapshot E fs V name pr w = k b (w\<lparr>w_prog := p\<rparr>)" "base_inv b" "base_rest b = y" "base_whole b = y"
    using get_input_ok [OF assms(1) snapshot_path_valid [OF assms(6)] assms(2,9,10), of k] by auto
  obtain b' t where t: "decompressDecryptHMAC E LZMA2 (mEncKey ?R) (mMacKey ?R) base_methods TempFileStream_write (b, TempFileStream_new fs)
      = Some (Inr (), (b', t))" "tmp_written t = snapshot_bytes s" "tmp_room t 0"
    using base_tmp.decompress_ok [OF b(2) _ assms(7,8), of LZMA2 "mMacKey ?R" "snapshot_bytes s" "TempFileStream_new fs" 0]
      assms(3) b(3,4) tmp_room_free [OF assms(10)] by (auto simp: sealed_snapshot_def)
  obtain b2 t' where b2: "TempFileStream_inputStream t = Some (Inr (Some b2), t')" "base_inv b2"
    "base_rest b2 = snapshot_bytes s @ []" using inputStream_ok [OF t(3)] t(2) by auto
  obtain b3 s' where s': "Snapshot_load (is_read base_methods) (b2, Snapshot_new) = Some (Inr (), (b3, s'))"
    "mFiles s' = mFiles s" "mStringBuffer s' = mStringBuffer s" "mObjectIDs s' = mObjectIDs s" "snap_inv s'"
    using Snapshot_load_snapshot [OF b2(2,3) assms(4,5)] by blast
  have "loadSnapshot E fs V name pr w = Some (Inr s', w\<lparr>w_prog := p\<rparr>)"
    using b(1) t(1) by (simp add: k_def with_input_def b2(1) s'(1))
  with s' show ?thesis by blast
qed

lemma loadSnapshot_missing:
  assumes "ok (w_store w)" and "objects (w_store w) (snapshot_path name) = None" and "plain_name (cstr name)"
  shows "\<exists>p. loadSnapshot E fs V name pr w = Some (Inl FileNotFoundException, w\<lparr>w_prog := p\<rparr>)"
  using store_get_missing [OF assms(1) snapshot_path_valid [OF assms(3)] assms(2), of "TempFileStream_new fs" pr]
  by (auto simp: loadSnapshot_def)

lemma loadSnapshot_tampered:
  fixes E :: "('e, 'dc, 'h, 'm, 'l, 'z) env"
  assumes "ok (w_store w)" and "objects (w_store w) (snapshot_path name) = Some y" and "plain_name (cstr name)" and "hmac_ok E H"
    and "32 \<le> length y" and "take 32 y \<noteq> H (take 32 (mMacKey (w_repo w))) (drop 32 y)" and "quiet pr" and "disk_free fs"
  shows "\<exists>p. loadSnapshot E fs V name pr w = Some (Inl VerificationFailedException, w\<lparr>w_prog := p\<rparr>)"
proof -
  let ?R = "w_repo w"
  have bad: "\<exists>b'. decompressDecryptHMAC E LZMA2 (mEncKey ?R) (mMacKey ?R) base_methods TempFileStream_write (b, TempFileStream_new fs)
      = Some (Inl VerificationFailedException, b')" if "base_inv b" "base_rest b = y" for b
    using base_tmp.decompress_tampered [OF that(1) assms(4), of "mMacKey ?R" LZMA2 "mEncKey ?R"] that(2) assms(5,6) by blast
  obtain p b where b: "loadSnapshot E fs V name pr w = bind_io (gets_io w_repo) (\<lambda>R.
     with_local (decompressDecryptHMAC E LZMA2 (mEncKey R) (mMacKey R) base_methods TempFileStream_write) (b, TempFileStream_new fs)
       (\<lambda>_ (b', t').
     with_input t' (\<lambda>b2.
     with_local (Snapshot_load (is_read base_methods)) (b2, Snapshot_new) (\<lambda>_ (b3, snapshot). return_io snapshot)))) (w\<lparr>w_prog := p\<rparr>)"
    "base_inv b" "base_rest b = y"
    unfolding loadSnapshot_def using get_input_ok [OF assms(1) snapshot_path_valid [OF assms(3)] assms(2,7,8)] by blast
  with bad [OF b(2,3)] show ?thesis by auto
qed

end

section \<open>Listing\<close>

context data_store
begin

lemma listSnapshots_ok:
  assumes "ok (w_store w)" and "plain_name n" and "objects (w_store w) (''/snapshot/'' @ n) \<noteq> None"
  shows "\<exists>p ns. listSnapshots V (\<lambda>a. modify_io (\<lambda>l. l @ [a])) pr (w, l) = Some (Inr (), (w\<lparr>w_prog := p\<rparr>, l @ map Some ns @ [None]))
     \<and> distinct ns \<and> set ns = {n. plain_name n \<and> objects (w_store w) (''/snapshot/'' @ n) \<noteq> None}"
proof -
  obtain p ns where ns: "ds_list V ''/snapshot'' pr (w_store w, w_prog w) = Some (Inr (map Some ns @ [None]), (w_store w, p))"
    "distinct ns" "set ns = {n. plain_name n \<and> objects (w_store w) (''/snapshot/'' @ n) \<noteq> None}"
    using list_law [OF assms] by blast
  have "feed (\<lambda>a. modify_io (\<lambda>l. l @ [a])) as l = Some (Inr (), l @ as)" for as :: "string option list" and l
    by (induction as arbitrary: l) simp_all
  with ns show ?thesis
    by (intro exI [of _ p] exI [of _ ns]) (simp add: listSnapshots_def store_list_def)
qed

end

section \<open>Properties\<close>



text \<open>C28. A snapshot object that is missing or has been changed is not loaded: \<^verbatim>\<open>loadSnapshot\<close> throws \<^verbatim>\<open>FileNotFoundException\<close>
  when there is no such object, and \<^verbatim>\<open>VerificationFailedException\<close> when its tag does not verify.\<close>

theorem load_snapshot_rejects:
  fixes E :: "('e, 'dc, 'h, 'm, 'l, 'z) env"
  assumes "file_store_ok root (w_store w)" and "plain_name (cstr name)" and "hmac_ok E H" and "quiet pr" and "disk_free fs"
    and "case file_objects root (w_store w) (snapshot_path name) of None \<Rightarrow> True
         | Some y \<Rightarrow> 32 \<le> length y \<and> take 32 y \<noteq> H (take 32 (mMacKey (w_repo w))) (drop 32 y)"
  shows "\<exists>p. loadSnapshot E fs (FileDataStore root) name pr w = Some (Inl (if file_objects root (w_store w) (snapshot_path name) = None
     then FileNotFoundException else VerificationFailedException), w\<lparr>w_prog := p\<rparr>)"
proof (cases "file_objects root (w_store w) (snapshot_path name)")
  case None
  then show ?thesis using file_store.loadSnapshot_missing [OF assms(1) None assms(2), of E fs pr] by simp
next
  case (Some y)
  with assms(6) have "32 \<le> length y" "take 32 y \<noteq> H (take 32 (mMacKey (w_repo w))) (drop 32 y)" by simp_all
  from file_store.loadSnapshot_tampered [OF assms(1) Some assms(2,3) this assms(4,5)] Some show ?thesis by simp
qed

theorem load_snapshot_rejects_witness:
  "\<exists>p. loadSnapshot plain_env empty_disk (FileDataStore ''/s'') ''monday'' DefaultProgressFunction (sample_session store_disk)
     = Some (Inl FileNotFoundException, (sample_session store_disk)\<lparr>w_prog := p\<rparr>)"
proof -
  have n: "plain_name (cstr ''monday'')" by (simp add: plain_name_def cstr_def NUL_def)
  have ok: "file_store_ok ''/s'' (w_store (sample_session store_disk))" by (simp add: store_disk_ok)
  from load_snapshot_rejects [OF ok n plain_hmac_ok quiet_default empty_disk_free] show ?thesis by (simp add: store_disk_objects)
qed

end
