(* ===== verification/Download.thy ===== *)
theory Download
  imports Upload Repository_Snapshots
begin

text \<open>
  \<^verbatim>\<open>Repository::downloadFile\<close>: every object of an entry is fetched into a temporary stream, and the object, or the part of
  it that the entry names when the object is a pack, is verified, decrypted and decompressed into the output stream.
  An entry whose object count exceeds the ids of the snapshot makes the code read outside an array.
\<close>

section \<open>Operations\<close>

definition on_session :: "(('d, 'p) session, 'a) io \<Rightarrow> (('d, 'p) session \<times> 'o, 'a) io" where
  "on_session = zoom_io fst (\<lambda>w (_, t). (w, t))"

text \<open>A call of \<^verbatim>\<open>StreamUtils::decompressDecryptHMAC\<close> on a local stream.\<close>

definition unseal_io ::
    "('e, 'dc, 'h, 'm, 'l, 'z) env \<Rightarrow> CompressionType \<Rightarrow> 's instream \<Rightarrow> (bytes \<Rightarrow> ('o, unit) io) \<Rightarrow> 's \<Rightarrow>
     (('d, 'p) session \<times> 'o, unit) io" where
  "unseal_io E ct M wr s = (\<lambda>(w, t).
     map_option (\<lambda>(x, (s', t')). (x, (w, t')))
       (decompressDecryptHMAC E ct (mEncKey (w_repo w)) (mMacKey (w_repo w)) M wr (s, t)))"

definition unpack_object ::
    "('e, 'dc, 'h, 'm, 'l, 'z) env \<Rightarrow> FileEntry \<Rightarrow> (bytes \<Rightarrow> ('o, unit) io) \<Rightarrow> base_in \<Rightarrow> (('d, 'p) session \<times> 'o, unit) io" where
  "unpack_object E fe wr downloadedStream =
     (if 0 < fe_packLength fe then
        (case InputRangeStream_new base_methods (uint (fe_offset fe)) (uint (fe_packLength fe)) downloadedStream of
           None \<Rightarrow> (\<lambda>_. None)
         | Some (Inl e, _) \<Rightarrow> throw_io e
         | Some (Inr _, rangeStream) \<Rightarrow>
             unseal_io E (compression_of_byte (fe_compression fe)) (InputRangeStream_methods base_methods) wr rangeStream)
      else unseal_io E (compression_of_byte (fe_compression fe)) base_methods wr downloadedStream)"

definition download_object ::
    "('e, 'dc, 'h, 'm, 'l, 'z) env \<Rightarrow> filesys \<Rightarrow> ('d, 'p) DataStore \<Rightarrow> FileEntry \<Rightarrow> (bytes \<Rightarrow> ('o, unit) io) \<Rightarrow> bytes \<Rightarrow> 'p progress \<Rightarrow>
     (('d, 'p) session \<times> 'o, unit) io" where
  "download_object E fs V fe wr oid pr =
     bind_io (lift_sum (objectIdToString oid)) (\<lambda>idStr.
     bind_io (on_session (store_get V (''/data/'' @ idStr) (TempFileStream_new fs) pr)) (\<lambda>tmpStream.
     with_input tmpStream (unpack_object E fe wr)))"

text \<open>The loop: \<open>n\<close> objects are left, \<open>i\<close> is the index of the next one, and \<open>oids\<close> are the ids from there on.\<close>

fun download_objects ::
    "('e, 'dc, 'h, 'm, 'l, 'z) env \<Rightarrow> filesys \<Rightarrow> ('d, 'p) DataStore \<Rightarrow> FileEntry \<Rightarrow> (bytes \<Rightarrow> ('o, unit) io) \<Rightarrow> 'p transfer_progress \<Rightarrow>
     nat \<Rightarrow> int \<Rightarrow> bytes list \<Rightarrow> (('d, 'p) session \<times> 'o, unit) io" where
  "download_objects E fs V fe wr tpr 0 i oids = return_io ()"
| "download_objects E fs V fe wr tpr (Suc n) i oids =
     (case oids of
        [] \<Rightarrow> throw_io UndefinedBehaviour
      | oid # oids' \<Rightarrow>
          seq_io (download_object E fs V fe wr oid (tpr i (uint (fe_objectCount fe))))
            (download_objects E fs V fe wr tpr n (i + 1) oids'))"

definition downloadFile ::
    "('e, 'dc, 'h, 'm, 'l, 'z) env \<Rightarrow> filesys \<Rightarrow> ('d, 'p) DataStore \<Rightarrow> Snapshot \<Rightarrow> string \<Rightarrow> (bytes \<Rightarrow> ('o, unit) io) \<Rightarrow>
     'p transfer_progress \<Rightarrow> (('d, 'p) session \<times> 'o, bool) io" where
  "downloadFile E fs V snapshot srcPath wr tpr =
     (case getFileEntry srcPath snapshot of
        None \<Rightarrow> return_io False
      | Some fe \<Rightarrow>
          bind_io (lift_sum (indexToObjectID snapshot (sint (fe_objectIdIndex fe)))) (\<lambda>objectIds.
          seq_io (download_objects E fs V fe wr tpr (unat (fe_objectCount fe)) 0 objectIds) (return_io True)))"

section \<open>What an entry stands for\<close>

text \<open>The bytes of a stored object that belong to an entry.\<close>

definition stored_part :: "FileEntry \<Rightarrow> bytes \<Rightarrow> bytes" where
  "stored_part fe y = (if fe_packLength fe = 0 then y else take (unat (fe_packLength fe)) (drop (unat (fe_offset fe)) y))"

definition part_fits :: "FileEntry \<Rightarrow> bytes \<Rightarrow> bool" where
  "part_fits fe y \<longleftrightarrow> fe_packLength fe = 0 \<or> unat (fe_offset fe) + unat (fe_packLength fe) \<le> length y"

text \<open>The object under the id \<open>oid\<close> holds the bytes \<open>x\<close> of the entry.\<close>

definition object_holds ::
    "('e, 'dc, 'h, 'm, 'l, 'z) env \<Rightarrow> (bytes \<Rightarrow> bytes \<Rightarrow> bytes) \<Rightarrow> Repository \<Rightarrow> (string \<rightharpoonup> bytes) \<Rightarrow> FileEntry \<Rightarrow> bytes \<Rightarrow> bytes \<Rightarrow> bool" where
  "object_holds E H R objs fe oid x \<longleftrightarrow> length oid = 32 \<and> (\<exists>y. objs (object_name oid) = Some y \<and> part_fits fe y
     \<and> sealed E H (compression_of_byte (fe_compression fe)) (mEncKey R) (mMacKey R) x (stored_part fe y))"

text \<open>The object under the id is missing, or the tag of the entry's part of it does not verify.\<close>

definition object_bad ::
    "(bytes \<Rightarrow> bytes \<Rightarrow> bytes) \<Rightarrow> Repository \<Rightarrow> (string \<rightharpoonup> bytes) \<Rightarrow> FileEntry \<Rightarrow> bytes \<Rightarrow> exn \<Rightarrow> bool" where
  "object_bad H R objs fe oid e \<longleftrightarrow> length oid = 32 \<and> (case objs (object_name oid) of
       None \<Rightarrow> e = FileNotFoundException
     | Some y \<Rightarrow> e = VerificationFailedException \<and> part_fits fe y \<and> 32 \<le> length (stored_part fe y)
         \<and> take 32 (stored_part fe y) \<noteq> H (take 32 (mMacKey R)) (drop 32 (stored_part fe y)))"

text \<open>The range of a pack an entry names.\<close>

lemma part_range:
  assumes "base_inv b" and "base_rest b = y" and "base_whole b = y" and "part_fits fe y" and "fe_packLength fe \<noteq> 0"
  shows "\<exists>r. InputRangeStream_new base_methods (uint (fe_offset fe)) (uint (fe_packLength fe)) b = Some (Inr (), r)
     \<and> range_inv base_rest base_inv base_whole r \<and> range_rest base_rest r = stored_part fe y \<and> range_whole base_whole r = stored_part fe y"
proof -
  have u32: "unat (v :: u32) < 2 ^ 32" for v using unsigned_less [of v, where 'a = nat] by simp
  have "unat (fe_offset fe) + unat (fe_packLength fe) < 2 ^ 63" using u32 [of "fe_packLength fe"] u32 [of "fe_offset fe"] by simp
  then show ?thesis
    using base_range.range_new_ok [OF assms(1), of "unat (fe_offset fe)" "unat (fe_packLength fe)"] assms(2-5)
    by (auto simp: part_fits_def stored_part_def)
qed

lemma unpack_object_ok:
  assumes "output_stream emit written room" and "hmac_ok E H" and "cipher_ok E (take 32 (mEncKey (w_repo w)))"
    and "base_inv b" and "base_rest b = y" and "base_whole b = y" and "part_fits fe y"
    and "sealed E H (compression_of_byte (fe_compression fe)) (mEncKey (w_repo w)) (mMacKey (w_repo w)) x (stored_part fe y)"
    and "room t (length x + k)"
  shows "\<exists>t'. unpack_object E fe emit b (w, t) = Some (Inr (), (w, t')) \<and> written t' = written t @ x \<and> room t' k"
proof (cases "fe_packLength fe = 0")
  case True
  have un: "unsealing base_methods base_rest base_inv base_whole emit written room"
    by (rule unsealing.intro [OF base.rewindable_stream_axioms assms(1)])
  from unsealing.decompress_ok [OF un assms(4) _ assms(2,3), of "compression_of_byte (fe_compression fe)" "mMacKey (w_repo w)" x t k]
    assms(5,6,8,9) True show ?thesis
    by (auto simp: unpack_object_def unseal_io_def stored_part_def)
next
  case False
  have un: "unsealing (InputRangeStream_methods base_methods) (range_rest base_rest) (range_inv base_rest base_inv base_whole)
      (range_whole base_whole) emit written room"
    by (rule unsealing.intro [OF base_range.ranged.rewindable_stream_axioms assms(1)])
  obtain r where r: "InputRangeStream_new base_methods (uint (fe_offset fe)) (uint (fe_packLength fe)) b = Some (Inr (), r)"
    "range_inv base_rest base_inv base_whole r" "range_rest base_rest r = stored_part fe y" "range_whole base_whole r = stored_part fe y"
    using part_range [OF assms(4-7) False] by blast
  have "0 < fe_packLength fe" using False by (simp add: word_gt_0)
  with unsealing.decompress_ok [OF un r(2) _ assms(2,3), of "compression_of_byte (fe_compression fe)" "mMacKey (w_repo w)" x t k]
    r(1,3,4) assms(8,9) show ?thesis
    by (auto simp: unpack_object_def unseal_io_def)
qed

lemma unpack_object_bad:
  assumes "output_stream emit written room" and "hmac_ok E H" and "base_inv b" and "base_rest b = y" and "base_whole b = y"
    and "part_fits fe y" and "32 \<le> length (stored_part fe y)"
    and "take 32 (stored_part fe y) \<noteq> H (take 32 (mMacKey (w_repo w))) (drop 32 (stored_part fe y))"
  shows "unpack_object E fe emit b (w, t) = Some (Inl VerificationFailedException, (w, t))"
proof (cases "fe_packLength fe = 0")
  case True
  have un: "unsealing base_methods base_rest base_inv base_whole emit written room"
    by (rule unsealing.intro [OF base.rewindable_stream_axioms assms(1)])
  from unsealing.decompress_tampered [OF un assms(3,2), of "mMacKey (w_repo w)" "compression_of_byte (fe_compression fe)" "mEncKey (w_repo w)" t]
    assms(4,7,8) True show ?thesis
    by (auto simp: unpack_object_def unseal_io_def stored_part_def)
next
  case False
  have un: "unsealing (InputRangeStream_methods base_methods) (range_rest base_rest) (range_inv base_rest base_inv base_whole)
      (range_whole base_whole) emit written room"
    by (rule unsealing.intro [OF base_range.ranged.rewindable_stream_axioms assms(1)])
  obtain r where r: "InputRangeStream_new base_methods (uint (fe_offset fe)) (uint (fe_packLength fe)) b = Some (Inr (), r)"
    "range_inv base_rest base_inv base_whole r" "range_rest base_rest r = stored_part fe y"
    using part_range [OF assms(3-6) False] by blast
  have "0 < fe_packLength fe" using False by (simp add: word_gt_0)
  with unsealing.decompress_tampered [OF un r(2) assms(2), of "mMacKey (w_repo w)" "compression_of_byte (fe_compression fe)" "mEncKey (w_repo w)" t]
    r(1,3) assms(7,8) show ?thesis
    by (auto simp: unpack_object_def unseal_io_def)
qed

lemma download_object_path:
  assumes "length oid = 32"
  shows "download_object E fs V fe wr oid pr = bind_io (on_session (store_get V (object_name oid) (TempFileStream_new fs) pr)) (\<lambda>t.
     with_input t (unpack_object E fe wr))"
proof -
  have "''/data/'' @ drop 6 (object_name oid) = object_name oid" by (simp add: object_name_def)
  then show ?thesis
    unfolding download_object_def objectIdToString_ok [OF assms] lift_sum_simps bind_io_return by (simp only:)
qed

section \<open>Files and snapshots that can be uploaded\<close>

lemma map_le_Some: "m \<subseteq>\<^sub>m m' \<Longrightarrow> m x = Some y \<Longrightarrow> m' x = Some y"
  unfolding map_le_def by (metis domI)

text \<open>A file open for reading at its start, whose length is the one the file system reports, and small enough for
  65535 blocks.\<close>

definition file_ready :: "(string \<Rightarrow> FileInfo) \<Rightarrow> FileStream \<Rightarrow> bytes \<Rightarrow> bool" where
  "file_ready info f bs \<longleftrightarrow> file_inv f \<and> file_rest f = bs \<and> FileInfo_exists (info (mPath f))
     \<and> unat (mLength (info (mPath f))) = length bs \<and> length bs < 65535 * 2 ^ 31 - 65535"

text \<open>A snapshot with room for one more entry of \<open>n\<close> objects.\<close>

definition snap_room :: "Snapshot \<Rightarrow> string \<Rightarrow> FileInfo \<Rightarrow> nat \<Rightarrow> bool" where
  "snap_room s path fi n \<longleftrightarrow>
     length (mStringBuffer s) + 2 * length path + length (mUserName fi) + length (mGroupName fi) + 20 < 2 ^ 31
     \<and> length (mObjectIDs s) + n < 2 ^ 31 \<and> length (mFiles s) < 2 ^ 32 - 1"

context data_store
begin

lemma download_object_ok:
  fixes E :: "('e, 'dc, 'h, 'm, 'l, 'z) env"
  assumes "output_stream emit written room" and "ok (w_store w)" and "env_ok E H (w_repo w)"
    and "object_holds E H (w_repo w) (objects (w_store w)) fe oid x" and "quiet pr" and "disk_free fs" and "room t (length x + k)"
  shows "\<exists>p t'. download_object E fs V fe emit oid pr (w, t) = Some (Inr (), (w\<lparr>w_prog := p\<rparr>, t'))
     \<and> written t' = written t @ x \<and> room t' k"
proof -
  obtain y where y: "length oid = 32" "objects (w_store w) (object_name oid) = Some y" "part_fits fe y"
    "sealed E H (compression_of_byte (fe_compression fe)) (mEncKey (w_repo w)) (mMacKey (w_repo w)) x (stored_part fe y)"
    using assms(4) by (auto simp: object_holds_def)
  obtain p tmp where tmp: "store_get V (object_name oid) (TempFileStream_new fs) pr w = Some (Inr tmp, w\<lparr>w_prog := p\<rparr>)"
    "tmp_written tmp = y" "tmp_room tmp 0"
    using store_get_ok [OF assms(2) object_name_valid [OF y(1)] y(2) assms(5) tmp_room_free [OF assms(6), of "length y + 0"]] by auto
  obtain b tmp' where b: "TempFileStream_inputStream tmp = Some (Inr (Some b), tmp')" "base_inv b" "base_rest b = y" "base_whole b = y"
    using inputStream_ok [OF tmp(3)] tmp(2) by auto
  obtain t' where t': "unpack_object E fe emit b (w\<lparr>w_prog := p\<rparr>, t) = Some (Inr (), (w\<lparr>w_prog := p\<rparr>, t'))"
    "written t' = written t @ x" "room t' k"
    using unpack_object_ok [OF assms(1) env_okD(1) [OF assms(3)] _ b(2-4) y(3), of "w\<lparr>w_prog := p\<rparr>" x t k]
      env_okD(2) [OF assms(3)] y(4) assms(7) by auto
  have "download_object E fs V fe emit oid pr (w, t) = Some (Inr (), (w\<lparr>w_prog := p\<rparr>, t'))"
    using tmp(1) b(1) t'(1) by (simp add: download_object_path [OF y(1)] on_session_def with_input_def)
  with t'(2,3) show ?thesis by blast
qed

lemma download_objects_ok:
  fixes E :: "('e, 'dc, 'h, 'm, 'l, 'z) env"
  assumes "output_stream emit written room" and "quiet_transfer tpr" and "disk_free fs"
  shows "\<lbrakk>ok (w_store w); env_ok E H (w_repo w); list_all2 (object_holds E H (w_repo w) (objects (w_store w)) fe) oids xs;
      room t (length (concat xs) + k)\<rbrakk> \<Longrightarrow>
    \<exists>p t'. download_objects E fs V fe emit tpr (length xs) i (oids @ tail) (w, t) = Some (Inr (), (w\<lparr>w_prog := p\<rparr>, t'))
     \<and> written t' = written t @ concat xs \<and> room t' k"
proof (induction xs arbitrary: oids i w t)
  case Nil
  then show ?case by (intro exI [of _ "w_prog w"] exI [of _ t]) simp
next
  case (Cons x xs)
  obtain oid oids' where o: "oids = oid # oids'" "object_holds E H (w_repo w) (objects (w_store w)) fe oid x"
    "list_all2 (object_holds E H (w_repo w) (objects (w_store w)) fe) oids' xs"
    using Cons.prems(3) by (auto simp: list_all2_Cons2)
  have q: "quiet (tpr i (uint (fe_objectCount fe)))" using assms(2) by (simp add: quiet_transfer_def)
  obtain p t1 where t1: "download_object E fs V fe emit oid (tpr i (uint (fe_objectCount fe))) (w, t) = Some (Inr (), (w\<lparr>w_prog := p\<rparr>, t1))"
    "written t1 = written t @ x" "room t1 (length (concat xs) + k)"
    using download_object_ok [OF assms(1) Cons.prems(1,2) o(2) q assms(3), of t "length (concat xs) + k"] Cons.prems(4)
    by (auto simp: add.assoc)
  obtain p' t' where t': "download_objects E fs V fe emit tpr (length xs) (i + 1) (oids' @ tail) (w\<lparr>w_prog := p\<rparr>, t1)
       = Some (Inr (), (w\<lparr>w_prog := p, w_prog := p'\<rparr>, t'))" "written t' = written t1 @ concat xs" "room t' k"
    using Cons.IH [of "w\<lparr>w_prog := p\<rparr>" oids' t1 "i + 1"] Cons.prems(1,2) o(3) t1(3) by auto
  have "download_objects E fs V fe emit tpr (length (x # xs)) i (oids @ tail) (w, t) = Some (Inr (), (w\<lparr>w_prog := p'\<rparr>, t'))"
    using t1(1) t'(1) o(1) by simp
  with t' t1(2) show ?case by auto
qed

lemma download_object_bad:
  fixes E :: "('e, 'dc, 'h, 'm, 'l, 'z) env"
  assumes "output_stream emit written room" and "ok (w_store w)" and "hmac_ok E H"
    and "object_bad H (w_repo w) (objects (w_store w)) fe oid e" and "quiet pr" and "disk_free fs"
  shows "\<exists>p. download_object E fs V fe emit oid pr (w, t) = Some (Inl e, (w\<lparr>w_prog := p\<rparr>, t))"
proof (cases "objects (w_store w) (object_name oid)")
  case None
  have oid: "length oid = 32" "e = FileNotFoundException" using assms(4) None by (simp_all add: object_bad_def)
  from store_get_missing [OF assms(2) object_name_valid [OF oid(1)] None, of "TempFileStream_new fs" pr] oid(2)
  show ?thesis by (auto simp: download_object_path [OF oid(1)] on_session_def)
next
  case (Some y)
  have y: "length oid = 32" "e = VerificationFailedException" "part_fits fe y" "32 \<le> length (stored_part fe y)"
    "take 32 (stored_part fe y) \<noteq> H (take 32 (mMacKey (w_repo w))) (drop 32 (stored_part fe y))"
    using assms(4) Some by (simp_all add: object_bad_def)
  obtain p tmp where tmp: "store_get V (object_name oid) (TempFileStream_new fs) pr w = Some (Inr tmp, w\<lparr>w_prog := p\<rparr>)"
    "tmp_written tmp = y" "tmp_room tmp 0"
    using store_get_ok [OF assms(2) object_name_valid [OF y(1)] Some assms(5) tmp_room_free [OF assms(6), of "length y + 0"]] by auto
  obtain b tmp' where b: "TempFileStream_inputStream tmp = Some (Inr (Some b), tmp')" "base_inv b" "base_rest b = y" "base_whole b = y"
    using inputStream_ok [OF tmp(3)] tmp(2) by auto
  have "unpack_object E fe emit b (w\<lparr>w_prog := p\<rparr>, t) = Some (Inl VerificationFailedException, (w\<lparr>w_prog := p\<rparr>, t))"
    using unpack_object_bad [OF assms(1,3) b(2-4) y(3,4), of "w\<lparr>w_prog := p\<rparr>"] y(5) by simp
  then have "download_object E fs V fe emit oid pr (w, t) = Some (Inl e, (w\<lparr>w_prog := p\<rparr>, t))"
    using tmp(1) b(1) y(2) by (simp add: download_object_path [OF y(1)] on_session_def with_input_def)
  then show ?thesis by blast
qed

lemma download_objects_append:
  "download_objects E fs V fe emit tpr (length xs + n) i (oids @ oids') (w, t)
   = seq_io (download_objects E fs V fe emit tpr (length xs) i (oids @ oids'))
       (download_objects E fs V fe emit tpr n (i + int (length xs)) oids') (w, t)"
  if "length oids = length xs"
  using that
proof (induction xs arbitrary: oids i w t)
  case (Cons x xs)
  then obtain oid os where o: "oids = oid # os" "length os = length xs" by (cases oids) auto
  have "download_objects E fs V fe emit tpr (length xs + n) (i + 1) (os @ oids')
      = seq_io (download_objects E fs V fe emit tpr (length xs) (i + 1) (os @ oids'))
          (download_objects E fs V fe emit tpr n (i + 1 + int (length xs)) oids')"
    by (rule ext) (simp add: Cons.IH [OF o(2)] split_paired_all)
  then show ?case by (simp add: o(1) seq_io_def bind_io_assoc add.assoc)
qed simp

text \<open>The ids of an entry are where \<^verbatim>\<open>indexToObjectID\<close> says.\<close>

lemma downloadFile_ids:
  assumes "snap_inv s" and "getFileEntry path s = Some fe" and "entry_ids s fe \<noteq> []"
  shows "\<exists>tail. downloadFile E fs V s path emit tpr (w, t)
     = seq_io (download_objects E fs V fe emit tpr (length (entry_ids s fe)) 0 (entry_ids s fe @ tail)) (return_io True) (w, t)"
proof -
  let ?i = "unat (fe_objectIdIndex fe)" and ?n = "unat (fe_objectCount fe)"
  have "(cstr path, fe) \<in> set (mFiles s)" using assms(2) by (auto simp: getFileEntry_def smap_find_def dest: map_of_SomeD)
  then have le: "?i + ?n \<le> length (mObjectIDs s)" "length (mObjectIDs s) < 2 ^ 31"
    using assms(1) by (auto simp: snap_inv_def entry_inv_def)
  then have n: "length (entry_ids s fe) = ?n" by (simp add: entry_ids_def)
  moreover have "0 < length (entry_ids s fe)" using assms(3) by simp
  ultimately have i: "?i < length (mObjectIDs s)" "?i < 2 ^ 31" using le by linarith+
  have sint: "sint (fe_objectIdIndex fe) = int ?i" by (rule sint_u32 [OF i(2)])
  have "\<not> (int ?i < 0 \<or> int (length (mObjectIDs s)) \<le> int ?i)" using i(1) by linarith
  then have ids: "indexToObjectID s (sint (fe_objectIdIndex fe)) = Inr (drop ?i (mObjectIDs s))"
    unfolding sint indexToObjectID_def by (simp only: if_False nat_int)
  have split: "entry_ids s fe @ drop ?n (drop ?i (mObjectIDs s)) = drop ?i (mObjectIDs s)"
    by (simp only: entry_ids_def append_take_drop_id)
  show ?thesis
    by (rule exI [of _ "drop ?n (drop ?i (mObjectIDs s))"]) (simp only: split n, simp add: downloadFile_def assms(2) ids)
qed

text \<open>\<^verbatim>\<open>downloadFile\<close> writes what the objects of the entry hold, up to the first that is missing or damaged.\<close>

lemma downloadFile_ok:
  fixes E :: "('e, 'dc, 'h, 'm, 'l, 'z) env"
  assumes "output_stream emit written room" and "ok (w_store w)" and "env_ok E H (w_repo w)"
    and "quiet_transfer tpr" and "disk_free fs" and "snap_inv s" and "getFileEntry path s = Some fe"
    and "list_all2 (object_holds E H (w_repo w) (objects (w_store w)) fe) (entry_ids s fe) xs" and "xs \<noteq> []"
    and "room t (length (concat xs) + k)"
  shows "\<exists>p t'. downloadFile E fs V s path emit tpr (w, t) = Some (Inr True, (w\<lparr>w_prog := p\<rparr>, t'))
     \<and> written t' = written t @ concat xs \<and> room t' k"
proof -
  have len: "length (entry_ids s fe) = length xs" using list_all2_lengthD [OF assms(8)] by simp
  then obtain tail where d: "downloadFile E fs V s path emit tpr (w, t)
     = seq_io (download_objects E fs V fe emit tpr (length xs) 0 (entry_ids s fe @ tail)) (return_io True) (w, t)"
    using downloadFile_ids [OF assms(6,7)] assms(9) by force
  obtain p t' where "download_objects E fs V fe emit tpr (length xs) 0 (entry_ids s fe @ tail) (w, t)
       = Some (Inr (), (w\<lparr>w_prog := p\<rparr>, t'))" "written t' = written t @ concat xs" "room t' k"
    using download_objects_ok [OF assms(1,4,5,2,3,8,10)] by blast
  then show ?thesis by (auto simp: d)
qed

lemma downloadFile_bad:
  fixes E :: "('e, 'dc, 'h, 'm, 'l, 'z) env"
  assumes "output_stream emit written room" and "ok (w_store w)" and "env_ok E H (w_repo w)"
    and "quiet_transfer tpr" and "disk_free fs" and "snap_inv s" and "getFileEntry path s = Some fe"
    and "entry_ids s fe = oids @ oid # oids'" and "list_all2 (object_holds E H (w_repo w) (objects (w_store w)) fe) oids xs"
    and "object_bad H (w_repo w) (objects (w_store w)) fe oid e" and "room t (length (concat xs) + k)"
  shows "\<exists>p t'. downloadFile E fs V s path emit tpr (w, t) = Some (Inl e, (w\<lparr>w_prog := p\<rparr>, t')) \<and> written t' = written t @ concat xs"
proof -
  have len: "length oids = length xs" using list_all2_lengthD [OF assms(9)] .
  obtain tail where d: "downloadFile E fs V s path emit tpr (w, t)
     = seq_io (download_objects E fs V fe emit tpr (length xs + Suc (length oids')) 0 (oids @ oid # oids' @ tail)) (return_io True) (w, t)"
    using downloadFile_ids [OF assms(6,7), of E fs emit tpr w t] by (auto simp: assms(8) len)
  obtain p t' where t': "download_objects E fs V fe emit tpr (length xs) 0 (oids @ oid # oids' @ tail) (w, t)
       = Some (Inr (), (w\<lparr>w_prog := p\<rparr>, t'))" "written t' = written t @ concat xs" "room t' k"
    using download_objects_ok [OF assms(1,4,5,2,3,9,11)] by blast
  have q: "quiet (tpr (int (length xs)) (uint (fe_objectCount fe)))" using assms(4) by (simp add: quiet_transfer_def)
  obtain p' where p': "download_object E fs V fe emit oid (tpr (int (length xs)) (uint (fe_objectCount fe))) (w\<lparr>w_prog := p\<rparr>, t')
      = Some (Inl e, (w\<lparr>w_prog := p, w_prog := p'\<rparr>, t'))"
    using download_object_bad [OF assms(1) _ env_okD(1) [OF assms(3)] _ q assms(5), of "w\<lparr>w_prog := p\<rparr>" fe oid e t'] assms(2,10) by auto
  have "download_objects E fs V fe emit tpr (length xs + Suc (length oids')) 0 (oids @ oid # oids' @ tail) (w, t)
      = Some (Inl e, (w\<lparr>w_prog := p'\<rparr>, t'))"
    unfolding download_objects_append [OF len] using t'(1) p' by simp
  with t'(2) show ?thesis by (auto simp: d)
qed

text \<open>An uploaded file has an entry, and the objects of the entry hold its bytes.\<close>

lemma uploadFile_entry_ok:
  fixes E :: "('e, 'dc, 'h, 'm, 'l, 'z) env"
  assumes arch: "archive E H B ok objects (up_sess u)" and "digest_ok E D"
    and fil: "file_ready info (up_file u) bs" and up: "quiet_transfer tpr" "disk_free fs" "up_pack u = None"
    and opt: "R = w_repo (up_sess u)" "options_ok (mOptions R)" and rh: "RollingHash_new E (mRollKey R) 8192 = Inr rh"
    and blks: "blks = file_blocks (mOptions R) lg rh bs" "\<And>blk. blk \<in> set blks \<Longrightarrow> (ct, blk) \<in> B"
    and fi: "fi = info (mPath (up_file u))" "ct = compression_for fi"
    and snap: "snap_inv (up_snap u)" "path = normalized_path dest" "NUL \<notin> set path" "snap_room (up_snap u) path fi (length blks)"
  shows "\<exists>u' fe. uploadFile E fs V lg info dest tpr u = Some (Inr (), u')
     \<and> archive E H B ok objects (up_sess u') \<and> archived H ct objects (up_sess u) blks (up_sess u')
     \<and> snap_inv (up_snap u') \<and> mFiles (up_snap u') = smap_insert path fe (mFiles (up_snap u))
     \<and> (\<exists>x. mStringBuffer (up_snap u') = mStringBuffer (up_snap u) @ x)
     \<and> entry_strings (up_snap u') fe (filename path) (parent_path path) (cstr (mUserName fi)) (cstr (mGroupName fi))
     \<and> entry_ids (up_snap u') fe = map (block_id H R ct) blks \<and> fe_packLength fe = 0 \<and> fe_compression fe = byte_of_compression ct
     \<and> fe_md5 fe = D bs \<and> fe_size fe = mLength fi"
proof -
  have f: "FileInfo_exists fi" "unat (mLength fi) = length bs" "file_inv (up_file u)" "file_rest (up_file u) = bs"
    "length bs < 2 ^ 63" and len: "length bs < 65535 * 2 ^ 31 - 65535"
    using fil fi(1) by (simp_all add: file_ready_def)
  have ct: "uploads (compression_for fi) tpr fs" using up(1,2) by (simp add: uploads_def compression_for_def)
  obtain f' w bits where w: "uploadFile E fs V lg info dest tpr u = on_snap (add_uploaded fi path ct bits (D bs) (map (block_id H R ct) blks))
      (u\<lparr>up_file := f', up_sess := w\<rparr>)" "archive E H B ok objects w" "archived H ct objects (up_sess u) blks w"
    using uploadFile_ok [of E H B u D fi info bs tpr fs R rh blks lg dest, OF arch assms(2) fi(1) f ct up(3) opt rh blks(1) blks(2) [unfolded fi(2)]] unfolding fi(2) snap(2) by blast
  have ids: "length (map (block_id H R ct) blks) \<le> 65535" "\<forall>oid \<in> set (map (block_id H R ct) blks). length oid = 32"
    using length_file_blocks [OF len] blks(1) block_id_length [of E H] arch by (auto simp: archive_def env_ok_def)
  then have cnt: "to_int (length blks) = int (length blks)" by (intro to_int_small) simp
  have md5: "length (D bs) = 16" using assms(2) unfolding digest_ok_def by (metis append_Nil2 concat.simps)
  have room: "length (mStringBuffer (up_snap u)) + 2 * length path + length (mUserName fi) + length (mGroupName fi) + 20 < 2 ^ 31"
    "length (mObjectIDs (up_snap u)) + length (map (block_id H R ct) blks) < 2 ^ 31" "length (mFiles (up_snap u)) < 2 ^ 32 - 1"
    using snap(4) by (simp_all add: snap_room_def)
  from addFileEntry_ok [OF snap(1,3) ids room md5, of "mType fi" "ucast (mMode fi)" ct "mLength fi" "mLastModifyTime fi" "word_of_int bits" 0 0]
  obtain s' fe where s': "add_uploaded fi path ct bits (D bs) (map (block_id H R ct) blks) (up_snap u) = Some (Inr (), s')" "snap_inv s'"
    "mFiles s' = smap_insert path fe (mFiles (up_snap u))" "\<exists>x. mStringBuffer s' = mStringBuffer (up_snap u) @ x"
    "entry_strings s' fe (filename path) (parent_path path) (cstr (mUserName fi)) (cstr (mGroupName fi))"
    "entry_ids s' fe = map (block_id H R ct) blks" "fe_packLength fe = 0" "fe_compression fe = byte_of_compression ct"
    "fe_md5 fe = D bs" "fe_size fe = mLength fi"
    by (auto simp: add_uploaded_def cnt)
  have "uploadFile E fs V lg info dest tpr u = Some (Inr (), u\<lparr>up_file := f', up_sess := w, up_snap := s'\<rparr>)"
    using w(1) s'(1) by (simp add: on_snap_def)
  with w(2,3) s'(2-) show ?thesis
    by (intro exI [of _ "u\<lparr>up_file := f', up_sess := w, up_snap := s'\<rparr>"] exI [of _ fe]) simp
qed

lemma archived_holds:
  assumes "archive E H B ok objects w'" and "archived H ct objects w blks w'" and "\<And>blk. blk \<in> set blks \<Longrightarrow> (ct, blk) \<in> B"
    and "mEncKey (w_repo v) = mEncKey (w_repo w)" "mMacKey (w_repo v) = mMacKey (w_repo w)"
    and "\<And>oid y. objects (w_store w') (object_name oid) = Some y \<Longrightarrow> objects (w_store v) (object_name oid) = Some y"
    and "fe_packLength fe = 0" and "fe_compression fe = byte_of_compression ct" and "\<And>b. ct \<noteq> InvalidCompression b"
  shows "list_all2 (object_holds E H (w_repo v) (objects (w_store v)) fe) (map (block_id H (w_repo w) ct) blks) blks"
proof -
  have ct: "compression_of_byte (byte_of_compression ct) = ct"
    using assms(9) by (cases ct) (auto simp: compression_of_byte_def)
  have repo: "w_repo w' = w_repo w" using assms(2) by (simp add: archived_def)
  have "object_holds E H (w_repo v) (objects (w_store v)) fe (block_id H (w_repo w) ct blk) blk" if "blk \<in> set blks" for blk
  proof -
    obtain y where y: "objects (w_store w') (block_path H (w_repo w) ct blk) = Some y"
      using assms(2) \<open>blk \<in> set blks\<close> by (auto simp: archived_def)
    then have "sealed E H ct (mEncKey (w_repo w)) (mMacKey (w_repo w)) blk y"
      using assms(1) assms(3) [OF \<open>blk \<in> set blks\<close>] repo unfolding archive_def archive_ok_def by auto
    moreover have "objects (w_store v) (object_name (block_id H (w_repo w) ct blk)) = Some y"
      using assms(6) y unfolding block_path_def by blast
    moreover have "length (block_id H (w_repo w) ct blk) = 32"
      using assms(1) by (intro block_id_length [of E]) (simp add: archive_def env_ok_def)
    ultimately show ?thesis
      by (simp add: object_holds_def part_fits_def stored_part_def assms(4,5,7,8) ct)
  qed
  then show ?thesis by (simp add: list_all2_conv_all_nth)
qed

end

section \<open>Properties\<close>

text \<open>C5. What is uploaded can be downloaded again: \<^verbatim>\<open>uploadFile\<close> without a pack, for a small file as well as for a file that is
  cut into blocks, terminates normally; it replaces or removes no object of the store, adds only objects under the ids
  of the file's blocks, and keeps the invariants of the archive and of the snapshot; and \<^verbatim>\<open>downloadFile\<close> of the path from the
  snapshot, in every later session with the same keys whose store still has the objects, terminates normally with
  exactly the bytes of the file. The blocks in the archive are supposed to have different ids, which is what HMAC-SHA256 is
  relied on for.\<close>

theorem upload_download:
  fixes E :: "('e, 'dc, 'h, 'm, 'l, 'z) env" and u :: "('h, filesys, 'p) uploading"
  assumes "archive E H B (file_store_ok root) (file_objects root) (up_sess u)" and "digest_ok E D" and "file_ready info (up_file u) bs"
    and "quiet_transfer tpr" and "disk_free fs" and "up_pack u = None" and "R = w_repo (up_sess u)" and "options_ok (mOptions R)"
    and "RollingHash_new E (mRollKey R) 8192 = Inr rh" and "fi = info (mPath (up_file u))" and "ct = compression_for fi"
    and "blks = file_blocks (mOptions R) lg rh bs" and "\<forall>blk \<in> set blks. (ct, blk) \<in> B"
    and "snap_inv (up_snap u)" and "path = normalized_path dest" and "NUL \<notin> set path" and "snap_room (up_snap u) path fi (length blks)"
    and "getFileEntry path (up_snap u) = None"
  shows "\<exists>u'. uploadFile E fs (FileDataStore root) lg info dest tpr u = Some (Inr (), u')
     \<and> archive E H B (file_store_ok root) (file_objects root) (up_sess u')
     \<and> archived H ct (file_objects root) (up_sess u) blks (up_sess u') \<and> snap_inv (up_snap u')
     \<and> (\<forall>w2. w_repo w2 = R \<and> file_store_ok root (w_store w2)
            \<and> file_objects root (w_store (up_sess u')) \<subseteq>\<^sub>m file_objects root (w_store w2) \<longrightarrow>
          (\<exists>p t'. downloadFile E fs (FileDataStore root) (up_snap u') path TempFileStream_write tpr (w2, TempFileStream_new fs)
             = Some (Inr True, (w2\<lparr>w_prog := p\<rparr>, t')) \<and> tmp_written t' = bs))"
proof -
  obtain u' fe where u': "uploadFile E fs (FileDataStore root) lg info dest tpr u = Some (Inr (), u')"
    "archive E H B (file_store_ok root) (file_objects root) (up_sess u')" "archived H ct (file_objects root) (up_sess u) blks (up_sess u')"
    "snap_inv (up_snap u')" "mFiles (up_snap u') = smap_insert path fe (mFiles (up_snap u))"
    "entry_ids (up_snap u') fe = map (block_id H R ct) blks" "fe_packLength fe = 0" "fe_compression fe = byte_of_compression ct"
    using file_store.uploadFile_entry_ok [where info = info and blks = blks and lg = lg and ct = ct and dest = dest,
        OF assms(1-9,12) bspec [OF assms(13)] assms(10,11,14-17)] by blast
  have ct: "\<And>b. ct \<noteq> InvalidCompression b" using assms(11) by (simp add: compression_for_def)
  have found: "getFileEntry path (up_snap u') = Some fe"
    using smap.find_ins [of "mFiles (up_snap u)" path path fe] assms(14,16,18) by (simp add: getFileEntry_def u'(5) snap_inv_def)
  have blks: "concat blks = bs" "blks \<noteq> []" using concat_file_blocks file_blocks_not_Nil [OF assms(8)] assms(12) by simp_all
  have "\<exists>p t'. downloadFile E fs (FileDataStore root) (up_snap u') path TempFileStream_write tpr (w2, TempFileStream_new fs)
       = Some (Inr True, (w2\<lparr>w_prog := p\<rparr>, t')) \<and> tmp_written t' = bs"
    if w2: "w_repo w2 = R" "file_store_ok root (w_store w2)" "file_objects root (w_store (up_sess u')) \<subseteq>\<^sub>m file_objects root (w_store w2)"
    for w2 :: "(filesys, 'p) session"
  proof -
    have env: "env_ok E H (w_repo w2)" using assms(1,7) w2(1) by (simp add: archive_def)
    have "list_all2 (object_holds E H (w_repo w2) (file_objects root (w_store w2)) fe) (entry_ids (up_snap u') fe) blks"
      using file_store.archived_holds [OF u'(2,3) bspec [OF assms(13)] _ _ map_le_Some [OF w2(3)] u'(7,8) ct] assms(7) w2(1) u'(6) by simp
    from file_store.downloadFile_ok [OF tmp_out.output_stream_axioms w2(2) env assms(4,5) u'(4) found this blks(2)
        tmp_room_free [OF assms(5)], of 0] blks(1) show ?thesis by auto
  qed
  with u' show ?thesis by blast
qed

text \<open>A file of three bytes, open for reading, in a session with an empty store and an empty snapshot.\<close>

definition sample_file :: FileStream where
  "sample_file = \<lparr>mFp = Some \<lparr>cf_data = [7, 8, 9], cf_pos = 0, cf_mode = FileMode_Read, cf_error = False, cf_bad = None, cf_limit = None\<rparr>,
     mPath = ''/home/x.txt''\<rparr>"

definition sample_info :: "string \<Rightarrow> FileInfo" where
  "sample_info p = \<lparr>mType = RegularFile, mMode = 420, mUid = 0, mGid = 0, mExtension = ''.txt'', mUserName = ''me'', mGroupName = ''us'',
     mLength = 3, mLastModifyTime = 7\<rparr>"

definition sample_upload :: "(bytes \<times> bytes, filesys, unit) uploading" where
  "sample_upload = \<lparr>up_file = sample_file, up_pack = None, up_snap = Snapshot_new, up_sess = sample_session store_disk\<rparr>"

lemma sample_upload_sel [simp]:
  "up_file sample_upload = sample_file" "up_pack sample_upload = None" "up_snap sample_upload = Snapshot_new"
  "up_sess sample_upload = sample_session store_disk"
  by (simp_all add: sample_upload_def)

lemma sample_file_ready: "file_ready sample_info sample_file [7, 8, 9]"
  by (simp add: file_ready_def file_inv_def file_rest_def sample_file_def sample_info_def FileInfo_exists_def)

lemma sample_compression: "compression_for (sample_info p) = LZMA2"
  by (simp add: compression_for_def sample_info_def) code_simp

lemma sample_archive:
  "archive plain_env plain_hmac {(LZMA2, [7, 8, 9])} (file_store_ok ''/s'') (file_objects ''/s'') (sample_session store_disk)"
  by (simp add: archive_def env_ok_def archive_ok_def plain_hmac_ok plain_cipher_ok plain_lzma_ok store_disk_ok store_disk_objects)

lemma sample_options: "options_ok (mOptions (w_repo (sample_session d)))" "smallFileSize (mOptions (w_repo (sample_session d))) = 512000"
  by (simp_all add: sample_session_def Repository_new_def options_ok_def Options_new_def)

lemma sample_path: "normalized_path ''docs/x'' = ''docs/x''" "NUL \<notin> set ''docs/x''"
  by code_simp+

lemma sample_room: "snap_room Snapshot_new ''docs/x'' (sample_info p) 1"
  by (simp add: snap_room_def Snapshot_new_def sample_info_def)

lemma sample_blocks:
  "[[7, 8, 9]] = file_blocks (mOptions (w_repo (up_sess sample_upload))) (\<lambda>_. 18) rh [7, 8, 9]"
  "\<forall>blk \<in> set [[7, 8, 9]]. (LZMA2, blk) \<in> {(LZMA2, [7, 8, 9 :: byte])}"
  by (simp_all add: file_blocks_def sample_options)

lemma sample_snap:
  "snap_inv (up_snap sample_upload)" "snap_room (up_snap sample_upload) ''docs/x'' (sample_info p) (length [[7, 8, 9 :: byte]])"
  "getFileEntry q (up_snap sample_upload) = None"
  using sample_room by simp_all (simp add: getFileEntry_def smap_find_def Snapshot_new_def)

lemma sample_sess:
  "archive plain_env plain_hmac {(LZMA2, [7, 8, 9])} (file_store_ok ''/s'') (file_objects ''/s'') (up_sess sample_upload)"
  "options_ok (mOptions (w_repo (up_sess sample_upload)))" "file_ready sample_info (up_file sample_upload) [7, 8, 9]"
  using sample_archive sample_file_ready sample_options by simp_all

theorem upload_download_witness:
  "\<exists>u' p t'. uploadFile plain_env empty_disk (FileDataStore ''/s'') (\<lambda>_. 18) sample_info ''docs/x'' DefaultFileTransferProgressFunction sample_upload
       = Some (Inr (), u')
     \<and> downloadFile plain_env empty_disk (FileDataStore ''/s'') (up_snap u') ''docs/x'' TempFileStream_write DefaultFileTransferProgressFunction
         (up_sess u', TempFileStream_new empty_disk) = Some (Inr True, ((up_sess u')\<lparr>w_prog := p\<rparr>, t')) \<and> tmp_written t' = [7, 8, 9]"
proof -
  let ?R = "w_repo (up_sess sample_upload)"
  obtain rh where rh: "RollingHash_new plain_env (mRollKey ?R) 8192 = Inr rh" using RollingHash_new_ok [OF plain_cipher_ok] by blast
  note up = upload_download [OF sample_sess(1) plain_digest_ok sample_sess(3) quiet_transfer_default empty_disk_free sample_upload_sel(2) refl
      sample_sess(2) rh refl sample_compression [symmetric] sample_blocks sample_snap(1) sample_path(1) [symmetric] sample_path(2)
      sample_snap(2,3)]
  from up obtain u' where u': "uploadFile plain_env empty_disk (FileDataStore ''/s'') (\<lambda>_. 18) sample_info ''docs/x''
       DefaultFileTransferProgressFunction sample_upload = Some (Inr (), u')"
     "file_store_ok ''/s'' (w_store (up_sess u'))" "w_repo (up_sess u') = ?R"
     "\<And>w2 :: (filesys, unit) session. w_repo w2 = ?R \<and> file_store_ok ''/s'' (w_store w2)
            \<and> file_objects ''/s'' (w_store (up_sess u')) \<subseteq>\<^sub>m file_objects ''/s'' (w_store w2) \<Longrightarrow>
          (\<exists>p t'. downloadFile plain_env empty_disk (FileDataStore ''/s'') (up_snap u') ''docs/x'' TempFileStream_write
             DefaultFileTransferProgressFunction (w2, TempFileStream_new empty_disk)
             = Some (Inr True, (w2\<lparr>w_prog := p\<rparr>, t')) \<and> tmp_written t' = [7, 8, 9])"
    unfolding archive_def archived_def by meson
  from u'(1) u'(4) [of "up_sess u'"] u'(2,3) show ?thesis by auto
qed

text \<open>C12. A file that is already in the archive costs nothing: when every block of it is in the store, \<^verbatim>\<open>uploadFile\<close> still adds its
  entry, with the digest of the whole file and the ids of its blocks, and leaves every object of the store as it was.\<close>

theorem upload_deduplicates:
  fixes E :: "('e, 'dc, 'h, 'm, 'l, 'z) env" and u :: "('h, filesys, 'p) uploading"
  assumes "archive E H B (file_store_ok root) (file_objects root) (up_sess u)" and "digest_ok E D" and "file_ready info (up_file u) bs"
    and "quiet_transfer tpr" and "disk_free fs" and "up_pack u = None" and "R = w_repo (up_sess u)" and "options_ok (mOptions R)"
    and "RollingHash_new E (mRollKey R) 8192 = Inr rh" and "fi = info (mPath (up_file u))" and "ct = compression_for fi"
    and "blks = file_blocks (mOptions R) lg rh bs" and "\<forall>blk \<in> set blks. (ct, blk) \<in> B"
    and "snap_inv (up_snap u)" and "path = normalized_path dest" and "NUL \<notin> set path" and "snap_room (up_snap u) path fi (length blks)"
    and "\<forall>blk \<in> set blks. file_objects root (w_store (up_sess u)) (block_path H R ct blk) \<noteq> None"
  shows "\<exists>u' fe. uploadFile E fs (FileDataStore root) lg info dest tpr u = Some (Inr (), u')
     \<and> file_objects root (w_store (up_sess u')) = file_objects root (w_store (up_sess u))
     \<and> mFiles (up_snap u') = smap_insert path fe (mFiles (up_snap u)) \<and> fe_md5 fe = D bs
     \<and> entry_ids (up_snap u') fe = map (block_id H R ct) blks"
proof -
  obtain u' fe where u': "uploadFile E fs (FileDataStore root) lg info dest tpr u = Some (Inr (), u')"
    "archived H ct (file_objects root) (up_sess u) blks (up_sess u')" "mFiles (up_snap u') = smap_insert path fe (mFiles (up_snap u))"
    "entry_ids (up_snap u') fe = map (block_id H R ct) blks" "fe_md5 fe = D bs"
    using file_store.uploadFile_entry_ok [where info = info and blks = blks and lg = lg and ct = ct and dest = dest,
        OF assms(1-9,12) bspec [OF assms(13)] assms(10,11,14-17)] by blast
  have "file_objects root (w_store (up_sess u')) = file_objects root (w_store (up_sess u))"
    using archived_same [OF u'(2)] assms(7,18) by blast
  with u' show ?thesis by blast
qed

text \<open>The store that has the one block of the sample file already.\<close>

definition sample_blob :: string where
  "sample_blob = block_path plain_hmac (w_repo (sample_session store_disk)) LZMA2 [7, 8, 9]"

theorem upload_deduplicates_witness:
  "\<exists>u1 u2 fe. uploadFile plain_env empty_disk (FileDataStore ''/s'') (\<lambda>_. 18) sample_info ''docs/x'' DefaultFileTransferProgressFunction sample_upload
       = Some (Inr (), u1)
     \<and> uploadFile plain_env empty_disk (FileDataStore ''/s'') (\<lambda>_. 18) sample_info ''docs/x'' DefaultFileTransferProgressFunction
         (sample_upload\<lparr>up_sess := up_sess u1\<rparr>) = Some (Inr (), u2)
     \<and> file_objects ''/s'' (w_store (up_sess u2)) = file_objects ''/s'' (w_store (up_sess u1))
     \<and> file_objects ''/s'' (w_store (up_sess u1)) sample_blob \<noteq> None \<and> mFiles (up_snap u2) = [(''docs/x'', fe)]"
proof -
  let ?R = "w_repo (up_sess sample_upload)"
  obtain rh where rh: "RollingHash_new plain_env (mRollKey ?R) 8192 = Inr rh" using RollingHash_new_ok [OF plain_cipher_ok] by blast
  obtain u1 fe1 where u1: "uploadFile plain_env empty_disk (FileDataStore ''/s'') (\<lambda>_. 18) sample_info ''docs/x''
       DefaultFileTransferProgressFunction sample_upload = Some (Inr (), u1)"
    "archive plain_env plain_hmac {(LZMA2, [7, 8, 9])} (file_store_ok ''/s'') (file_objects ''/s'') (up_sess u1)"
    "archived plain_hmac LZMA2 (file_objects ''/s'') (up_sess sample_upload) [[7, 8, 9]] (up_sess u1)"
    using file_store.uploadFile_entry_ok [where info = sample_info and lg = "\<lambda>_. 18" and ct = LZMA2 and dest = "''docs/x''",
        OF sample_sess(1) plain_digest_ok sample_sess(3) quiet_transfer_default empty_disk_free sample_upload_sel(2) refl
        sample_sess(2) rh sample_blocks(1) bspec [OF sample_blocks(2)] refl sample_compression [symmetric] sample_snap(1)
        sample_path(1) [symmetric] sample_path(2) sample_snap(2)] by blast
  have repo: "w_repo (up_sess u1) = ?R" using u1(3) by (simp add: archived_def)
  let ?u = "sample_upload\<lparr>up_sess := up_sess u1\<rparr>"
  have there: "file_objects ''/s'' (w_store (up_sess u1)) (block_path plain_hmac ?R LZMA2 [7, 8, 9]) \<noteq> None"
    using u1(3) by (simp add: archived_def)
  have a: "archive plain_env plain_hmac {(LZMA2, [7, 8, 9])} (file_store_ok ''/s'') (file_objects ''/s'') (up_sess ?u)"
    "file_ready sample_info (up_file ?u) [7, 8, 9]" "up_pack ?u = None" "?R = w_repo (up_sess ?u)" "snap_inv (up_snap ?u)"
    "snap_room (up_snap ?u) ''docs/x'' (sample_info (mPath (up_file ?u))) (length [[7, 8, 9 :: byte]])"
    "\<forall>blk \<in> set [[7, 8, 9]]. file_objects ''/s'' (w_store (up_sess ?u)) (block_path plain_hmac ?R LZMA2 blk) \<noteq> None"
    using u1(2) sample_sess(3) sample_snap repo there by simp_all
  from upload_deduplicates [OF a(1) plain_digest_ok a(2) quiet_transfer_default empty_disk_free a(3,4)
      sample_sess(2) rh refl sample_compression [symmetric] sample_blocks a(5) sample_path(1) [symmetric] sample_path(2) a(6,7)]
  obtain u2 fe where "uploadFile plain_env empty_disk (FileDataStore ''/s'') (\<lambda>_. 18) sample_info ''docs/x'' DefaultFileTransferProgressFunction ?u
       = Some (Inr (), u2)" "file_objects ''/s'' (w_store (up_sess u2)) = file_objects ''/s'' (w_store (up_sess ?u))"
    "mFiles (up_snap u2) = smap_insert ''docs/x'' fe (mFiles (up_snap ?u))" by blast
  with u1(1) there show ?thesis
    by (intro exI [of _ u1] exI [of _ u2] exI [of _ fe]) (simp add: sample_blob_def Snapshot_new_def)
qed

text \<open>C7. No wrong byte is restored: when an object of the entry is missing, \<^verbatim>\<open>downloadFile\<close> throws \<^verbatim>\<open>FileNotFoundException\<close>, and when
  the tag of an object, or of the entry's part of a pack, does not verify, \<^verbatim>\<open>VerificationFailedException\<close>; the output then has the
  bytes of the objects before it and nothing of the damaged one. A path that is not in the snapshot gives \<^verbatim>\<open>false\<close> and writes nothing.\<close>

theorem download_rejects:
  fixes E :: "('e, 'dc, 'h, 'm, 'l, 'z) env" and w :: "(filesys, 'p) session"
  assumes "file_store_ok root (w_store w)" and "env_ok E H (w_repo w)" and "quiet_transfer tpr" and "disk_free fs" and "snap_inv s"
    and "case getFileEntry path s of None \<Rightarrow> True
         | Some fe \<Rightarrow> entry_ids s fe = oids @ oid # oids'
             \<and> list_all2 (object_holds E H (w_repo w) (file_objects root (w_store w)) fe) oids xs
             \<and> object_bad H (w_repo w) (file_objects root (w_store w)) fe oid e"
  shows "\<exists>p t'. downloadFile E fs (FileDataStore root) s path TempFileStream_write tpr (w, TempFileStream_new fs)
       = Some (if getFileEntry path s = None then Inr False else Inl e, (w\<lparr>w_prog := p\<rparr>, t'))
     \<and> tmp_written t' = (if getFileEntry path s = None then [] else concat xs)"
proof (cases "getFileEntry path s")
  case None
  then show ?thesis by (intro exI [of _ "w_prog w"] exI [of _ "TempFileStream_new fs"]) (simp add: downloadFile_def)
next
  case (Some fe)
  with assms(6) have bad: "entry_ids s fe = oids @ oid # oids'"
    "list_all2 (object_holds E H (w_repo w) (file_objects root (w_store w)) fe) oids xs"
    "object_bad H (w_repo w) (file_objects root (w_store w)) fe oid e" by simp_all
  from file_store.downloadFile_bad [OF tmp_out.output_stream_axioms assms(1-5) Some bad tmp_room_free [OF assms(4)]] Some
  show ?thesis by auto
qed

lemma sample_entry: "getFileEntry ''a/b'' sample_snapshot = Some (snd (hd (mFiles sample_snapshot)))"
  "entry_ids sample_snapshot (snd (hd (mFiles sample_snapshot))) = [replicate 32 9]"
  by code_simp+

theorem download_rejects_witness:
  "\<exists>p t'. downloadFile plain_env empty_disk (FileDataStore ''/s'') sample_snapshot ''a/b'' TempFileStream_write DefaultFileTransferProgressFunction
       (sample_session store_disk, TempFileStream_new empty_disk)
     = Some (Inl FileNotFoundException, ((sample_session store_disk)\<lparr>w_prog := p\<rparr>, t')) \<and> tmp_written t' = []"
proof -
  have ok: "file_store_ok ''/s'' (w_store (sample_session store_disk))" by (simp add: store_disk_ok)
  have env: "env_ok plain_env plain_hmac (w_repo (sample_session store_disk))"
    by (simp add: env_ok_def plain_hmac_ok plain_cipher_ok plain_lzma_ok)
  have s: "snap_inv sample_snapshot" using sample_snapshot_ok by auto
  from download_rejects [OF ok env quiet_transfer_default empty_disk_free s,
      where path = "''a/b''" and oids = "[]" and oid = "replicate 32 9" and oids' = "[]" and xs = "[]" and e = FileNotFoundException]
  show ?thesis by (simp add: sample_entry object_bad_def store_disk_objects)
qed

end
