(* ===== verification/Packs.thy ===== *)
theory Packs
  imports Download
begin

text \<open>
  What \<^verbatim>\<open>Repository::finalizePack\<close> does with a pack of small files (the operations are in \<^verbatim>\<open>Upload\<close>): the object it stores is the
  sealed files one after the other, and every file gets an entry that names its part of the object. When an object of that
  name is in the store already, the entries are made from offsets and lengths that were never computed.
\<close>

section \<open>Placing the files of a pack\<close>

text \<open>A snapshot with room for the entries of the pack, and file infos that can become entries.\<close>

definition pack_room :: "Snapshot \<Rightarrow> PackFileInfo list \<Rightarrow> bool" where
  "pack_room s fis \<longleftrightarrow>
     length (mStringBuffer s) + (\<Sum>fi \<leftarrow> fis. 2 * length (pi_path fi) + length (pi_user fi) + length (pi_group fi) + 20) < 2 ^ 31
     \<and> length (mObjectIDs s) + length fis < 2 ^ 31 \<and> length (mFiles s) + length fis < 2 ^ 32"

definition info_ok :: "PackFileInfo \<Rightarrow> bool" where
  "info_ok fi \<longleftrightarrow> NUL \<notin> set (pi_path fi) \<and> length (pi_md5 fi) = 16 \<and> (\<forall>b. pi_compression fi \<noteq> InvalidCompression b)"

text \<open>The file infos with the offsets and lengths of the sealed files \<open>ys\<close>.\<close>

fun place :: "u32 \<Rightarrow> PackFileInfo list \<Rightarrow> bytes list \<Rightarrow> PackFileInfo list" where
  "place off (fi # fis) (y # ys) =
     fi\<lparr>pi_offset := off, pi_packLength := of_nat (length y)\<rparr> # place (off + of_nat (length y)) fis ys"
| "place off fis ys = []"

lemma length_place [simp]: "length (place off fis ys) = min (length fis) (length ys)"
  by (induction off fis ys rule: place.induct) simp_all

lemma place_keeps:
  "i < length fis \<Longrightarrow> i < length ys \<Longrightarrow> place off fis ys ! i
     = (fis ! i)\<lparr>pi_offset := off + of_nat (length (concat (take i ys))), pi_packLength := of_nat (length (ys ! i))\<rparr>"
proof (induction off fis ys arbitrary: i rule: place.induct)
  case (1 off fi fis y ys)
  then show ?case by (cases i) (simp_all add: add.assoc)
qed simp_all

lemma map_place:
  assumes "length ys = length fis" and "\<And>fi a b. g (fi\<lparr>pi_offset := a, pi_packLength := b\<rparr>) = g fi"
  shows "map g (place off fis ys) = map g fis"
  using assms by (induction off fis ys rule: place.induct) simp_all

lemma place_same:
  assumes "length ys = length fis"
  shows "map pi_path (place off fis ys) = map pi_path fis" and "(\<forall>fi \<in> set (place off fis ys). info_ok fi) \<longleftrightarrow> (\<forall>fi \<in> set fis. info_ok fi)"
    and "pack_room s (place off fis ys) \<longleftrightarrow> pack_room s fis"
proof -
  show "map pi_path (place off fis ys) = map pi_path fis" by (rule map_place [OF assms]) simp
  have "map info_ok (place off fis ys) = map info_ok fis" by (rule map_place [OF assms]) (simp add: info_ok_def)
  from arg_cong [OF this, of "\<lambda>l. \<forall>x \<in> set l. x"]
  show "(\<forall>fi \<in> set (place off fis ys). info_ok fi) \<longleftrightarrow> (\<forall>fi \<in> set fis. info_ok fi)" by simp
  have "map (\<lambda>fi. 2 * length (pi_path fi) + length (pi_user fi) + length (pi_group fi) + 20) (place off fis ys)
      = map (\<lambda>fi. 2 * length (pi_path fi) + length (pi_user fi) + length (pi_group fi) + 20) fis"
    by (rule map_place [OF assms]) simp
  then show "pack_room s (place off fis ys) \<longleftrightarrow> pack_room s fis" using assms by (simp only: pack_room_def length_place min.idem)
qed

text \<open>The part of the whole pack that a placed file names is the sealed file.\<close>

lemma take_drop_concat: "i < length ys \<Longrightarrow> take (length (ys ! i)) (drop (length (concat (take i ys))) (concat ys)) = ys ! i"
proof -
  assume i: "i < length ys"
  have "concat ys = concat (take i ys) @ ys ! i @ concat (drop (Suc i) ys)"
    by (metis (no_types) Cons_nth_drop_Suc append_take_drop_id concat.simps(2) concat_append i)
  then show ?thesis by simp
qed

lemma concat_take_le: "i < length ys \<Longrightarrow> length (concat (take i ys)) + length (ys ! i) \<le> length (concat ys)"
proof -
  assume i: "i < length ys"
  have "concat ys = concat (take i ys) @ ys ! i @ concat (drop (Suc i) ys)"
    by (metis (no_types) Cons_nth_drop_Suc append_take_drop_id concat.simps(2) concat_append i)
  then show ?thesis by (metis length_append add.assoc le_add1)
qed

section \<open>Sealing the files\<close>

text \<open>One file of the pack is sealed and placed.\<close>

definition sealed_files ::
    "('e, 'dc, 'h, 'm, 'l, 'z) env \<Rightarrow> (bytes \<Rightarrow> bytes \<Rightarrow> bytes) \<Rightarrow> Repository \<Rightarrow> PackFileInfo list \<Rightarrow> bytes list \<Rightarrow> bytes list \<Rightarrow> bool" where
  "sealed_files E H R fis ds ys \<longleftrightarrow> length ds = length fis \<and> length ys = length fis
     \<and> (\<forall>i < length fis. sealed E H (pi_compression (fis ! i)) (mEncKey R) (mMacKey R) (ds ! i) (ys ! i))"

lemma pack_one_ok:
  fixes E :: "('e, 'dc, 'h, 'm, 'l, 'z) env"
  assumes "env_ok E H (w_repo (up_sess u))" and "disk_free fs" and "up_pack u = Some ps"
    and "ps_fileInfos ps = prev @ fi # fis" and "ps_packData ps = old @ d # ds" and "length old = length prev"
    and "\<And>b. pi_compression fi \<noteq> InvalidCompression b"
  shows "\<exists>m r. pack_one E fs (length prev) off u = Some (Inr (m, off + of_nat (length (enc_rest m))),
       u\<lparr>up_sess := (up_sess u)\<lparr>w_rng := r\<rparr>,
         up_pack := Some (ps\<lparr>ps_fileInfos := prev @ fi\<lparr>pi_offset := off, pi_packLength := of_nat (length (enc_rest m))\<rparr> # fis\<rparr>)\<rparr>)
     \<and> enc_inv m \<and> sealed E H (pi_compression fi) (mEncKey (w_repo (up_sess u))) (mMacKey (w_repo (up_sess u))) d (enc_rest m)"
proof -
  note env = env_okD [OF assms(1)]
  have rest: "mem_rest (MemoryInputStream_new d) = d" by simp
  obtain m r where m: "seal_io E fs (pi_compression fi) MemoryInputStream_read (MemoryInputStream_new d) (up_sess u)
      = Some (Inr m, (up_sess u)\<lparr>w_rng := r\<rparr>)" "enc_inv m" "enc_whole m = enc_rest m"
    "sealed E H (pi_compression fi) (mEncKey (w_repo (up_sess u))) (mMacKey (w_repo (up_sess u))) d (enc_rest m)"
    using seal_io_ok [OF mem_input mem_new(1) env(1,2,4) assms(7,2), of d] rest by auto
  have sz: "is_size EncryptedHMACStream_methods m = Some (Inr (int (length (enc_rest m))), m)"
    using enc_in.joined.size_law [OF m(2)] m(3) by simp
  have at: "ps_fileInfos ps ! length prev = fi" "ps_packData ps ! length prev = d"
    using assms(4-6) by (simp_all add: nth_append)
  have "pack_one E fs (length prev) off u = Some (Inr (m, off + of_nat (length (enc_rest m))),
       u\<lparr>up_sess := (up_sess u)\<lparr>w_rng := r\<rparr>,
         up_pack := Some (ps\<lparr>ps_fileInfos := prev @ fi\<lparr>pi_offset := off, pi_packLength := of_nat (length (enc_rest m))\<rparr> # fis\<rparr>)\<rparr>)"
    using assms(3) m(1) sz at by (simp add: pack_one_def on_pack_def on_sess_def assms(4))
  with m(2,4) show ?thesis by blast
qed

lemma pack_files_ok:
  fixes E :: "('e, 'dc, 'h, 'm, 'l, 'z) env"
  assumes "disk_free fs"
  shows "\<lbrakk>env_ok E H (w_repo (up_sess u)); up_pack u = Some ps; ps_fileInfos ps = prev @ fis; ps_packData ps = old @ ds;
      length old = length prev; length ds = length fis; \<And>fi b. fi \<in> set fis \<Longrightarrow> pi_compression fi \<noteq> InvalidCompression b\<rbrakk> \<Longrightarrow>
    \<exists>ms r. pack_files E fs (length fis) (length prev) off ins u = Some (Inr (ins @ ms),
       u\<lparr>up_sess := (up_sess u)\<lparr>w_rng := r\<rparr>, up_pack := Some (ps\<lparr>ps_fileInfos := prev @ place off fis (map enc_rest ms)\<rparr>)\<rparr>)
     \<and> (\<forall>m \<in> set ms. enc_inv m) \<and> sealed_files E H (w_repo (up_sess u)) fis ds (map enc_rest ms)"
proof (induction fis arbitrary: u ps prev old ds off ins)
  case Nil
  then show ?case
    by (intro exI [of _ "[]"] exI [of _ "w_rng (up_sess u)"]) (simp add: sealed_files_def)
next
  case (Cons fi fis)
  obtain d ds' where ds: "ds = d # ds'" "length ds' = length fis" using Cons.prems(6) by (cases ds) auto
  have ct: "\<And>b. pi_compression fi \<noteq> InvalidCompression b" using Cons.prems(7) by simp
  let ?R = "w_repo (up_sess u)"
  obtain m r where m: "pack_one E fs (length prev) off u = Some (Inr (m, off + of_nat (length (enc_rest m))),
       u\<lparr>up_sess := (up_sess u)\<lparr>w_rng := r\<rparr>,
         up_pack := Some (ps\<lparr>ps_fileInfos := prev @ fi\<lparr>pi_offset := off, pi_packLength := of_nat (length (enc_rest m))\<rparr> # fis\<rparr>)\<rparr>)"
    "enc_inv m" "sealed E H (pi_compression fi) (mEncKey ?R) (mMacKey ?R) d (enc_rest m)"
    using pack_one_ok [OF Cons.prems(1) assms Cons.prems(2,3) Cons.prems(4) [unfolded ds(1)] Cons.prems(5) ct] by blast
  define fi' where "fi' = fi\<lparr>pi_offset := off, pi_packLength := of_nat (length (enc_rest m))\<rparr>"
  define ps1 where "ps1 = ps\<lparr>ps_fileInfos := prev @ fi' # fis\<rparr>"
  define u1 where "u1 = u\<lparr>up_sess := (up_sess u)\<lparr>w_rng := r\<rparr>, up_pack := Some ps1\<rparr>"
  have one: "pack_one E fs (length prev) off u = Some (Inr (m, off + of_nat (length (enc_rest m))), u1)"
    using m(1) by (simp add: u1_def ps1_def fi'_def)
  have u1: "env_ok E H (w_repo (up_sess u1))" "up_pack u1 = Some ps1" "ps_fileInfos ps1 = (prev @ [fi']) @ fis"
    "ps_packData ps1 = (old @ [d]) @ ds'" "length (old @ [d]) = length (prev @ [fi'])"
    using Cons.prems(1,4,5) ds(1) by (simp_all add: u1_def ps1_def)
  obtain ms r' where ms: "pack_files E fs (length fis) (length (prev @ [fi'])) (off + of_nat (length (enc_rest m))) (ins @ [m]) u1
      = Some (Inr ((ins @ [m]) @ ms), u1\<lparr>up_sess := (up_sess u1)\<lparr>w_rng := r'\<rparr>,
          up_pack := Some (ps1\<lparr>ps_fileInfos := (prev @ [fi']) @ place (off + of_nat (length (enc_rest m))) fis (map enc_rest ms)\<rparr>)\<rparr>)"
    "\<forall>m \<in> set ms. enc_inv m" "sealed_files E H (w_repo (up_sess u1)) fis ds' (map enc_rest ms)"
    using Cons.IH [OF u1 ds(2), of "off + of_nat (length (enc_rest m))" "ins @ [m]"] Cons.prems(7) by auto
  have "pack_files E fs (length (fi # fis)) (length prev) off ins u = Some (Inr (ins @ m # ms), u\<lparr>up_sess := (up_sess u)\<lparr>w_rng := r'\<rparr>,
       up_pack := Some (ps\<lparr>ps_fileInfos := prev @ place off (fi # fis) (map enc_rest (m # ms))\<rparr>)\<rparr>)"
    using one ms(1) by (simp add: u1_def ps1_def fi'_def)
  moreover have "sealed_files E H ?R (fi # fis) ds (map enc_rest (m # ms))"
    using ms(3) m(3) ds by (auto simp: sealed_files_def u1_def nth_Cons split: nat.splits)
  ultimately show ?case using m(2) ms(2) by (intro exI [of _ "m # ms"] exI [of _ r']) simp
qed

section \<open>The entries of a pack\<close>

text \<open>The entry a file of the pack has.\<close>

definition packed_entry :: "Snapshot \<Rightarrow> bytes \<Rightarrow> PackFileInfo \<Rightarrow> FileEntry \<Rightarrow> bool" where
  "packed_entry s oid fi fe \<longleftrightarrow> getFileEntry (pi_path fi) s = Some fe \<and> entry_ids s fe = [oid]
     \<and> (fe_mode fe, fe_compression fe, fe_size fe, fe_mtime fe, fe_type fe, fe_md5 fe, fe_offset fe, fe_packLength fe)
       = (pi_mode fi, byte_of_compression (pi_compression fi), pi_size fi, pi_mtime fi, byte_of_filetype (pi_type fi), pi_md5 fi,
          pi_offset fi, pi_packLength fi)"

lemma entry_ids_append:
  assumes "snap_inv s" and "getFileEntry p s = Some fe" and "mObjectIDs s' = mObjectIDs s @ x"
  shows "entry_ids s' fe = entry_ids s fe"
proof -
  have "(cstr p, fe) \<in> set (mFiles s)" using assms(2) by (auto simp: getFileEntry_def smap_find_def dest: map_of_SomeD)
  then have "unat (fe_objectIdIndex fe) + unat (fe_objectCount fe) \<le> length (mObjectIDs s)"
    using assms(1) by (auto simp: snap_inv_def entry_inv_def)
  then show ?thesis by (simp add: entry_ids_def assms(3))
qed

lemma pack_entry_ok:
  assumes "snap_inv s" and "info_ok fi" and "pack_room s (fi # fis)" and "length oid = 32"
  shows "\<exists>s'. pack_entry oid fi s = Some (Inr (), s') \<and> snap_inv s' \<and> pack_room s' fis \<and> mObjectIDs s' = mObjectIDs s @ [oid]
     \<and> (\<forall>p fe. getFileEntry p s = Some fe \<longrightarrow> getFileEntry p s' = Some fe)
     \<and> (\<forall>p. cstr p \<noteq> pi_path fi \<longrightarrow> getFileEntry p s' = getFileEntry p s)
     \<and> (getFileEntry (pi_path fi) s = None \<longrightarrow> (\<exists>fe. packed_entry s' oid fi fe)) \<and> (\<exists>fe. mFiles s' = smap_insert (pi_path fi) fe (mFiles s))
     \<and> (canonical s \<and> pi_path fi = parent_path (pi_path fi) @ ''/'' @ filename (pi_path fi) \<longrightarrow> canonical s')"
proof -
  have fi: "NUL \<notin> set (pi_path fi)" "length (pi_md5 fi) = 16" using assms(2) by (simp_all add: info_ok_def)
  have ids: "length [oid] \<le> 65535" "\<forall>oid \<in> set [oid]. length oid = 32" using assms(4) by simp_all
  have room: "length (mStringBuffer s) + 2 * length (pi_path fi) + length (pi_user fi) + length (pi_group fi) + 20 < 2 ^ 31"
    "length (mObjectIDs s) + length [oid] < 2 ^ 31" "length (mFiles s) < 2 ^ 32 - 1" using assms(3) by (auto simp: pack_room_def)
  obtain s' fe where s': "pack_entry oid fi s = Some (Inr (), s')" "snap_inv s'" "mFiles s' = smap_insert (pi_path fi) fe (mFiles s)"
    "entry_ids s' fe = [oid]" "mObjectIDs s' = mObjectIDs s @ [oid]"
    "(fe_mode fe, fe_compression fe, fe_size fe, fe_mtime fe, fe_type fe, fe_rollingHashBits fe, fe_md5 fe, fe_offset fe, fe_packLength fe)
       = (pi_mode fi, byte_of_compression (pi_compression fi), pi_size fi, pi_mtime fi, byte_of_filetype (pi_type fi), pi_rollingHashBits fi,
          pi_md5 fi, pi_offset fi, pi_packLength fi)"
    "entry_strings s' fe (filename (pi_path fi)) (parent_path (pi_path fi)) (cstr (pi_user fi)) (cstr (pi_group fi))"
    "\<exists>x. mStringBuffer s' = mStringBuffer s @ x"
    "length (mStringBuffer s') \<le> length (mStringBuffer s) + 2 * length (pi_path fi) + length (pi_user fi) + length (pi_group fi) + 20"
    using addFileEntry_ok [OF assms(1) fi(1) ids room fi(2), of "pi_type fi" "pi_mode fi" "pi_compression fi" "pi_size fi" "pi_mtime fi"
        "pi_rollingHashBits fi" "pi_offset fi" "pi_packLength fi"] by (auto simp: pack_entry_def)
  have ok: "smap_ok (mFiles s)" using assms(1) by (simp add: snap_inv_def)
  have get: "getFileEntry p s' = (if cstr p = pi_path fi \<and> getFileEntry (pi_path fi) s = None then Some fe else getFileEntry p s)" for p
    using smap.find_ins [OF ok, of "cstr p" "pi_path fi" fe] fi(1) by (simp add: getFileEntry_def s'(3))
  have "pack_room s' fis"
    using assms(3) s'(3,5,9) length_smap_insert [of "pi_path fi" fe "mFiles s"] by (auto simp: pack_room_def)
  moreover have "packed_entry s' oid fi fe" if "getFileEntry (pi_path fi) s = None"
    using get [of "pi_path fi"] that s'(4,6) fi(1) by (simp add: packed_entry_def)
  moreover have "getFileEntry p s' = Some f" if "getFileEntry p s = Some f" for p f
  proof -
    have "getFileEntry (pi_path fi) s \<noteq> None" if "cstr p = pi_path fi"
      using that \<open>getFileEntry p s = Some f\<close> fi(1) by (simp add: getFileEntry_def)
    then show ?thesis using get [of p] \<open>getFileEntry p s = Some f\<close> by (cases "cstr p = pi_path fi") auto
  qed
  moreover have "getFileEntry p s' = getFileEntry p s" if "cstr p \<noteq> pi_path fi" for p using get [of p] that by simp
  moreover have "canonical s'" if "canonical s" "pi_path fi = parent_path (pi_path fi) @ ''/'' @ filename (pi_path fi)"
    by (rule canonical_insert [OF assms(1) that(1) s'(3,7,8) that(2)])
  ultimately show ?thesis using s'(1,2,3,5) by (intro exI [of _ s']) blast
qed

lemma packed_entry_later:
  assumes "packed_entry s oid fi fe" and "snap_inv s" and "mObjectIDs s' = mObjectIDs s @ x"
    and "\<And>p f. getFileEntry p s = Some f \<Longrightarrow> getFileEntry p s' = Some f"
  shows "packed_entry s' oid fi fe"
proof -
  have "getFileEntry (pi_path fi) s = Some fe" using assms(1) by (simp add: packed_entry_def)
  from assms(4) [OF this] entry_ids_append [OF assms(2) this assms(3)] assms(1) show ?thesis by (simp add: packed_entry_def)
qed

lemma pack_entries_ok:
  assumes "length oid = 32"
  shows "\<lbrakk>snap_inv s; \<And>fi. fi \<in> set fis \<Longrightarrow> info_ok fi; pack_room s fis\<rbrakk> \<Longrightarrow>
    \<exists>s' x. feed (pack_entry oid) fis s = Some (Inr (), s') \<and> snap_inv s' \<and> mObjectIDs s' = mObjectIDs s @ x
     \<and> (\<forall>p fe. getFileEntry p s = Some fe \<longrightarrow> getFileEntry p s' = Some fe)
     \<and> (distinct (map pi_path fis) \<longrightarrow>
          (\<forall>fi \<in> set fis. getFileEntry (pi_path fi) s = None \<longrightarrow> (\<exists>fe. packed_entry s' oid fi fe)))"
proof (induction fis arbitrary: s)
  case Nil
  then show ?case by simp
next
  case (Cons fi fis)
  obtain s1 where s1: "pack_entry oid fi s = Some (Inr (), s1)" "snap_inv s1" "pack_room s1 fis" "mObjectIDs s1 = mObjectIDs s @ [oid]"
    "\<And>p fe. getFileEntry p s = Some fe \<Longrightarrow> getFileEntry p s1 = Some fe"
    "\<And>p. cstr p \<noteq> pi_path fi \<Longrightarrow> getFileEntry p s1 = getFileEntry p s"
    "getFileEntry (pi_path fi) s = None \<Longrightarrow> \<exists>fe. packed_entry s1 oid fi fe"
    using pack_entry_ok [OF Cons.prems(1) _ Cons.prems(3) assms] Cons.prems(2) by force
  obtain s' x where s': "feed (pack_entry oid) fis s1 = Some (Inr (), s')" "snap_inv s'" "mObjectIDs s' = mObjectIDs s1 @ x"
    "\<And>p fe. getFileEntry p s1 = Some fe \<Longrightarrow> getFileEntry p s' = Some fe"
    "distinct (map pi_path fis) \<Longrightarrow> \<forall>f \<in> set fis. getFileEntry (pi_path f) s1 = None \<longrightarrow> (\<exists>fe. packed_entry s' oid f fe)"
    using Cons.IH [OF s1(2) _ s1(3)] Cons.prems(2) by force
  have "\<exists>fe. packed_entry s' oid f fe"
    if d: "distinct (map pi_path (fi # fis))" and f: "f \<in> set (fi # fis)" "getFileEntry (pi_path f) s = None" for f
  proof (cases "f = fi")
    case True
    then show ?thesis using s1(7) f(2) packed_entry_later [OF _ s1(2) s'(3,4)] by blast
  next
    case False
    then have f': "f \<in> set fis" using f(1) by simp
    then have "pi_path f \<in> pi_path ` set fis" by (rule imageI)
    then have "pi_path f \<noteq> pi_path fi" using d by auto
    moreover have "cstr (pi_path f) = pi_path f" using Cons.prems(2) [of f] f' by (simp add: info_ok_def)
    ultimately have "getFileEntry (pi_path f) s1 = None" using s1(6) [of "pi_path f"] f(2) by simp
    then show ?thesis using s'(5) d f' by simp
  qed
  moreover have "feed (pack_entry oid) (fi # fis) s = Some (Inr (), s')" using s1(1) s'(1) by simp
  moreover have "mObjectIDs s' = mObjectIDs s @ oid # x" using s1(4) s'(3) by simp
  ultimately show ?case using s'(2,4) s1(5) by (intro exI [of _ s'] exI [of _ "oid # x"]) blast
qed

section \<open>Finalizing\<close>

text \<open>A pack that has been started: its id will be \<open>oid\<close>.\<close>

definition pack_ready :: "('e, 'dc, 'h, 'm, 'l, 'z) env \<Rightarrow> 'h PackUploadState \<Rightarrow> bytes \<Rightarrow> bool" where
  "pack_ready E ps oid \<longleftrightarrow> ps_rollingHash ps \<noteq> None \<and> (\<exists>ctx. ps_hmac ps = Some ctx \<and> HMAC_Final E ctx = Some oid) \<and> length oid = 32
     \<and> length (ps_packData ps) = length (ps_fileInfos ps) \<and> (\<forall>fi \<in> set (ps_fileInfos ps). info_ok fi)"

definition pack_cleared :: "'h PackUploadState \<Rightarrow> 'h PackUploadState" where
  "pack_cleared ps = ps\<lparr>ps_hmac := None, ps_fileInfos := [], ps_packData := [], ps_rollingHash := None\<rparr>"

lemma feed_on_snap:
  "feed f xs (up_snap u) = Some (Inr (), s') \<Longrightarrow> feed (\<lambda>x. on_snap (f x)) xs u = Some (Inr (), u\<lparr>up_snap := s'\<rparr>)"
proof (induction xs arbitrary: u)
  case (Cons x xs)
  then obtain s1 where s1: "f x (up_snap u) = Some (Inr (), s1)" "feed f xs s1 = Some (Inr (), s')"
    by (auto simp: bind_io_eq_Inr)
  from Cons.IH [of "u\<lparr>up_snap := s1\<rparr>"] s1 show ?case by (simp add: on_snap_def)
qed simp

text \<open>The part of \<^verbatim>\<open>finalizePack\<close> after the object is in the store.\<close>

lemma finalizePack_run:
  assumes "up_pack u = Some ps" and "pack_ready E ps oid"
  shows "finalizePack E fs V tpr u = bind_io (on_sess (store_exist V (object_name oid) DefaultProgressFunction)) (\<lambda>there.
       seq_io
         (if there then return_io ()
          else bind_io (pack_files E fs (length (ps_fileInfos ps)) 0 0 []) (\<lambda>inStreams.
               on_sess (store_put V (object_name oid) (PackIn (MultiInputStream_new inStreams)) DefaultProgressFunction)))
       (bind_io (on_pack (gets_io ps_fileInfos)) (\<lambda>fileInfos.
       seq_io (feed (\<lambda>fi. on_snap (pack_entry oid fi)) fileInfos)
         (on_pack (modify_io (\<lambda>ps. ps\<lparr>ps_fileInfos := [], ps_packData := [], ps_rollingHash := None\<rparr>))))))
     (u\<lparr>up_pack := Some (ps\<lparr>ps_hmac := None\<rparr>)\<rparr>)"
proof -
  obtain ctx where ctx: "ps_hmac ps = Some ctx" "HMAC_Final E ctx = Some oid" "length oid = 32" "ps_rollingHash ps \<noteq> None"
    using assms(2) by (auto simp: pack_ready_def)
  have name: "''/data/'' @ drop 6 (object_name oid) = object_name oid" by (simp add: object_name_def)
  have 1: "on_pack (gets_io ps_rollingHash) u = Some (Inr (ps_rollingHash ps), u)" using assms(1) by (simp add: on_pack_def)
  have 2: "on_pack (pack_final E) u = Some (Inr oid, u\<lparr>up_pack := Some (ps\<lparr>ps_hmac := None\<rparr>)\<rparr>)"
    using assms(1) ctx by (simp add: on_pack_def pack_final_def)
  have 3: "on_pack (gets_io (\<lambda>ps. length (ps_fileInfos ps))) (u\<lparr>up_pack := Some (ps\<lparr>ps_hmac := None\<rparr>)\<rparr>)
      = Some (Inr (length (ps_fileInfos ps)), u\<lparr>up_pack := Some (ps\<lparr>ps_hmac := None\<rparr>)\<rparr>)" by (simp add: on_pack_def)
  show ?thesis
    unfolding finalizePack_def bind_io_Inr [of "on_pack (gets_io ps_rollingHash)" u, OF 1] if_not_P [OF ctx(4)]
      bind_io_Inr [of "on_pack (pack_final E)" u, OF 2]
      bind_io_Inr [of "on_pack (gets_io (\<lambda>ps. length (ps_fileInfos ps)))" "u\<lparr>up_pack := Some (ps\<lparr>ps_hmac := None\<rparr>)\<rparr>", OF 3]
      objectIdToString_ok [OF ctx(3)] lift_sum_simps bind_io_return Let_def name ..
qed

text \<open>The entries, once the file infos are final.\<close>

lemma finalizePack_entries:
  assumes "up_pack u = Some ps" and "length oid = 32" and "snap_inv (up_snap u)" and "\<forall>fi \<in> set (ps_fileInfos ps). info_ok fi"
    and "pack_room (up_snap u) (ps_fileInfos ps)"
  shows "\<exists>s'. bind_io (on_pack (gets_io ps_fileInfos)) (\<lambda>fileInfos.
       seq_io (feed (\<lambda>fi. on_snap (pack_entry oid fi)) fileInfos)
         (on_pack (modify_io (\<lambda>ps. ps\<lparr>ps_fileInfos := [], ps_packData := [], ps_rollingHash := None\<rparr>)))) u
       = Some (Inr (), u\<lparr>up_snap := s', up_pack := Some (ps\<lparr>ps_fileInfos := [], ps_packData := [], ps_rollingHash := None\<rparr>)\<rparr>)
     \<and> feed (pack_entry oid) (ps_fileInfos ps) (up_snap u) = Some (Inr (), s')
     \<and> snap_inv s' \<and> (\<forall>p fe. getFileEntry p (up_snap u) = Some fe \<longrightarrow> getFileEntry p s' = Some fe)
     \<and> (distinct (map pi_path (ps_fileInfos ps)) \<longrightarrow> (\<forall>fi \<in> set (ps_fileInfos ps).
          getFileEntry (pi_path fi) (up_snap u) = None \<longrightarrow> (\<exists>fe. packed_entry s' oid fi fe)))"
proof -
  obtain s' where s': "feed (pack_entry oid) (ps_fileInfos ps) (up_snap u) = Some (Inr (), s')" "snap_inv s'"
    "\<forall>p fe. getFileEntry p (up_snap u) = Some fe \<longrightarrow> getFileEntry p s' = Some fe"
    "distinct (map pi_path (ps_fileInfos ps)) \<longrightarrow> (\<forall>fi \<in> set (ps_fileInfos ps).
       getFileEntry (pi_path fi) (up_snap u) = None \<longrightarrow> (\<exists>fe. packed_entry s' oid fi fe))"
    using pack_entries_ok [OF assms(2,3) bspec [OF assms(4)] assms(5)] by blast
  have get: "on_pack (gets_io ps_fileInfos) u = Some (Inr (ps_fileInfos ps), u)" using assms(1) by (simp add: on_pack_def)
  have clear: "on_pack (modify_io (\<lambda>ps. ps\<lparr>ps_fileInfos := [], ps_packData := [], ps_rollingHash := None\<rparr>)) (u\<lparr>up_snap := s'\<rparr>)
      = Some (Inr (), u\<lparr>up_snap := s', up_pack := Some (ps\<lparr>ps_fileInfos := [], ps_packData := [], ps_rollingHash := None\<rparr>)\<rparr>)"
    using assms(1) by (simp add: on_pack_def)
  have "bind_io (on_pack (gets_io ps_fileInfos)) (\<lambda>fileInfos.
       seq_io (feed (\<lambda>fi. on_snap (pack_entry oid fi)) fileInfos)
         (on_pack (modify_io (\<lambda>ps. ps\<lparr>ps_fileInfos := [], ps_packData := [], ps_rollingHash := None\<rparr>)))) u
       = Some (Inr (), u\<lparr>up_snap := s', up_pack := Some (ps\<lparr>ps_fileInfos := [], ps_packData := [], ps_rollingHash := None\<rparr>)\<rparr>)"
    using feed_on_snap [of "pack_entry oid" "ps_fileInfos ps" u s'] s'(1) get clear by simp
  with s' show ?thesis by blast
qed

context data_store
begin

text \<open>A pack whose object is new: the object is the sealed files, and the entries name their parts.\<close>

lemma finalizePack_ok:
  fixes E :: "('e, 'dc, 'h, 'm, 'l, 'z) env"
  assumes ok: "ok (w_store (up_sess u))" and env: "env_ok E H (w_repo (up_sess u))" and "up_pack u = Some ps" and ready: "pack_ready E ps oid"
    and new: "objects (w_store (up_sess u)) (object_name oid) = None" and "snap_inv (up_snap u)" and "pack_room (up_snap u) (ps_fileInfos ps)"
    and "disk_free fs"
  shows "\<exists>u' ys. finalizePack E fs V tpr u = Some (Inr (), u') \<and> up_pack u' = Some (pack_cleared ps)
     \<and> w_repo (up_sess u') = w_repo (up_sess u) \<and> ok (w_store (up_sess u'))
     \<and> objects (w_store (up_sess u')) = (objects (w_store (up_sess u)))(object_name oid \<mapsto> concat ys)
     \<and> sealed_files E H (w_repo (up_sess u)) (ps_fileInfos ps) (ps_packData ps) ys \<and> snap_inv (up_snap u')
     \<and> feed (pack_entry oid) (place 0 (ps_fileInfos ps) ys) (up_snap u) = Some (Inr (), up_snap u')
     \<and> (\<forall>p fe. getFileEntry p (up_snap u) = Some fe \<longrightarrow> getFileEntry p (up_snap u') = Some fe)
     \<and> (distinct (map pi_path (ps_fileInfos ps)) \<longrightarrow> (\<forall>fi \<in> set (place 0 (ps_fileInfos ps) ys).
          getFileEntry (pi_path fi) (up_snap u) = None \<longrightarrow> (\<exists>fe. packed_entry (up_snap u') oid fi fe)))"
proof -
  let ?R = "w_repo (up_sess u)" and ?fis = "ps_fileInfos ps"
  have oid: "length oid = 32" and infos: "length (ps_packData ps) = length ?fis" "\<forall>fi \<in> set ?fis. info_ok fi"
    using ready by (simp_all add: pack_ready_def)
  have n: "valid_name (object_name oid)" by (rule object_name_valid [OF oid])
  define u0 where "u0 = u\<lparr>up_pack := Some (ps\<lparr>ps_hmac := None\<rparr>)\<rparr>"
  obtain p where ex: "store_exist V (object_name oid) DefaultProgressFunction (up_sess u0) = Some (Inr False, (up_sess u0)\<lparr>w_prog := p\<rparr>)"
    using store_exist_ok [OF _ n, of "up_sess u0"] ok new by (auto simp: u0_def)
  define u1 where "u1 = u0\<lparr>up_sess := (up_sess u0)\<lparr>w_prog := p\<rparr>\<rparr>"
  have u1: "env_ok E H (w_repo (up_sess u1))" "up_pack u1 = Some (ps\<lparr>ps_hmac := None\<rparr>)" "ok (w_store (up_sess u1))"
    using env ok by (simp_all add: u1_def u0_def)
  obtain ms r where ms: "pack_files E fs (length ?fis) 0 0 [] u1 = Some (Inr ms, u1\<lparr>up_sess := (up_sess u1)\<lparr>w_rng := r\<rparr>,
       up_pack := Some (ps\<lparr>ps_hmac := None, ps_fileInfos := place 0 ?fis (map enc_rest ms)\<rparr>)\<rparr>)"
    "\<forall>m \<in> set ms. enc_inv m" "sealed_files E H ?R ?fis (ps_packData ps) (map enc_rest ms)"
    using pack_files_ok [OF assms(8) u1(1,2), of "[]" ?fis "[]" "ps_packData ps" 0 "[]"] infos
    by (auto simp: info_ok_def u1_def u0_def)
  let ?ps2 = "ps\<lparr>ps_hmac := None, ps_fileInfos := place 0 ?fis (map enc_rest ms)\<rparr>"
  define u2 where "u2 = u1\<lparr>up_sess := (up_sess u1)\<lparr>w_rng := r\<rparr>, up_pack := Some ?ps2\<rparr>"
  have st: "w_store (up_sess u2) = w_store (up_sess u)" "ok (w_store (up_sess u2))" using ok by (simp_all add: u2_def u1_def u0_def)
  have inv: "any_inv (PackIn (MultiInputStream_new ms))" using ms(2) by simp
  obtain d p' where d: "store_put V (object_name oid) (PackIn (MultiInputStream_new ms)) DefaultProgressFunction (up_sess u2)
      = Some (Inr (), (up_sess u2)\<lparr>w_store := d, w_prog := p'\<rparr>)" "ok d"
    "objects d = (objects (w_store (up_sess u)))(object_name oid \<mapsto> concat (map enc_rest ms))"
    using store_put_ok [OF st(2) n quiet_default inv] unfolding st(1) by auto
  define u3 where "u3 = u2\<lparr>up_sess := (up_sess u2)\<lparr>w_store := d, w_prog := p'\<rparr>\<rparr>"
  have place: "map pi_path (place 0 ?fis (map enc_rest ms)) = map pi_path ?fis" "\<forall>fi \<in> set (place 0 ?fis (map enc_rest ms)). info_ok fi"
    "pack_room (up_snap u) (place 0 ?fis (map enc_rest ms))"
    using place_same [where ys = "map enc_rest ms" and fis = ?fis and off = 0] ms(3) infos(2) assms(7) by (simp_all add: sealed_files_def)
  have u3: "up_pack u3 = Some ?ps2" "snap_inv (up_snap u3)" "pack_room (up_snap u3) (ps_fileInfos ?ps2)" "up_snap u3 = up_snap u"
    using assms(6) place(3) by (simp_all add: u3_def u2_def u1_def u0_def)
  obtain s' where s': "bind_io (on_pack (gets_io ps_fileInfos)) (\<lambda>fileInfos.
       seq_io (feed (\<lambda>fi. on_snap (pack_entry oid fi)) fileInfos)
         (on_pack (modify_io (\<lambda>ps. ps\<lparr>ps_fileInfos := [], ps_packData := [], ps_rollingHash := None\<rparr>)))) u3
       = Some (Inr (), u3\<lparr>up_snap := s', up_pack := Some (pack_cleared ps)\<rparr>)" "snap_inv s'"
    "\<forall>p fe. getFileEntry p (up_snap u) = Some fe \<longrightarrow> getFileEntry p s' = Some fe"
    "distinct (map pi_path ?fis) \<longrightarrow> (\<forall>fi \<in> set (place 0 ?fis (map enc_rest ms)).
       getFileEntry (pi_path fi) (up_snap u) = None \<longrightarrow> (\<exists>fe. packed_entry s' oid fi fe))"
    "feed (pack_entry oid) (place 0 ?fis (map enc_rest ms)) (up_snap u) = Some (Inr (), s')"
    using finalizePack_entries [OF u3(1) oid u3(2) _ u3(3)] place u3(4) by (auto simp: pack_cleared_def)
  have "finalizePack E fs V tpr u = Some (Inr (), u3\<lparr>up_snap := s', up_pack := Some (pack_cleared ps)\<rparr>)"
  proof -
    have 1: "on_sess (store_exist V (object_name oid) DefaultProgressFunction) u0 = Some (Inr False, u1)"
      using ex by (simp add: on_sess_def u1_def)
    have 2: "pack_files E fs (length ?fis) 0 0 [] u1 = Some (Inr ms, u2)" using ms(1) by (simp add: u2_def)
    have 3: "on_sess (store_put V (object_name oid) (PackIn (MultiInputStream_new ms)) DefaultProgressFunction) u2 = Some (Inr (), u3)"
      using d(1) by (simp add: on_sess_def u3_def)
    show ?thesis unfolding finalizePack_run [OF assms(3) ready] u0_def [symmetric] using 1 2 3 s'(1) by simp
  qed
  then show ?thesis using s' d ms(3)
    by (intro exI [of _ "u3\<lparr>up_snap := s', up_pack := Some (pack_cleared ps)\<rparr>"] exI [of _ "map enc_rest ms"])
       (simp add: u3_def u2_def u1_def u0_def)
qed

text \<open>A pack whose object is there already: the store stays as it is, and the entries are made from the file infos as they are.\<close>

lemma finalizePack_there:
  fixes E :: "('e, 'dc, 'h, 'm, 'l, 'z) env"
  assumes ok: "ok (w_store (up_sess u))" and "up_pack u = Some ps" and ready: "pack_ready E ps oid"
    and there: "objects (w_store (up_sess u)) (object_name oid) \<noteq> None" and "snap_inv (up_snap u)"
    and "pack_room (up_snap u) (ps_fileInfos ps)"
  shows "\<exists>u'. finalizePack E fs V tpr u = Some (Inr (), u') \<and> up_pack u' = Some (pack_cleared ps)
     \<and> w_repo (up_sess u') = w_repo (up_sess u) \<and> w_store (up_sess u') = w_store (up_sess u) \<and> snap_inv (up_snap u')
     \<and> (\<forall>p fe. getFileEntry p (up_snap u) = Some fe \<longrightarrow> getFileEntry p (up_snap u') = Some fe)
     \<and> (distinct (map pi_path (ps_fileInfos ps)) \<longrightarrow> (\<forall>fi \<in> set (ps_fileInfos ps).
          getFileEntry (pi_path fi) (up_snap u) = None \<longrightarrow> (\<exists>fe. packed_entry (up_snap u') oid fi fe)))"
proof -
  have oid: "length oid = 32" and infos: "\<forall>fi \<in> set (ps_fileInfos ps). info_ok fi" using ready by (simp_all add: pack_ready_def)
  define u0 where "u0 = u\<lparr>up_pack := Some (ps\<lparr>ps_hmac := None\<rparr>)\<rparr>"
  obtain p where ex: "store_exist V (object_name oid) DefaultProgressFunction (up_sess u0) = Some (Inr True, (up_sess u0)\<lparr>w_prog := p\<rparr>)"
    using store_exist_ok [OF _ object_name_valid [OF oid], of "up_sess u0"] ok there by (auto simp: u0_def)
  define u1 where "u1 = u0\<lparr>up_sess := (up_sess u0)\<lparr>w_prog := p\<rparr>\<rparr>"
  have u1: "up_pack u1 = Some (ps\<lparr>ps_hmac := None\<rparr>)" "snap_inv (up_snap u1)" "pack_room (up_snap u1) (ps_fileInfos (ps\<lparr>ps_hmac := None\<rparr>))"
    "\<forall>fi \<in> set (ps_fileInfos (ps\<lparr>ps_hmac := None\<rparr>)). info_ok fi" "up_snap u1 = up_snap u"
    using assms(5,6) infos by (simp_all add: u1_def u0_def)
  obtain s' where s': "bind_io (on_pack (gets_io ps_fileInfos)) (\<lambda>fileInfos.
       seq_io (feed (\<lambda>fi. on_snap (pack_entry oid fi)) fileInfos)
         (on_pack (modify_io (\<lambda>ps. ps\<lparr>ps_fileInfos := [], ps_packData := [], ps_rollingHash := None\<rparr>)))) u1
       = Some (Inr (), u1\<lparr>up_snap := s', up_pack := Some (pack_cleared ps)\<rparr>)" "snap_inv s'"
    "\<forall>p fe. getFileEntry p (up_snap u) = Some fe \<longrightarrow> getFileEntry p s' = Some fe"
    "distinct (map pi_path (ps_fileInfos ps)) \<longrightarrow> (\<forall>fi \<in> set (ps_fileInfos ps).
       getFileEntry (pi_path fi) (up_snap u) = None \<longrightarrow> (\<exists>fe. packed_entry s' oid fi fe))"
    using finalizePack_entries [OF u1(1) oid u1(2,4,3)] u1(5) by (auto simp: pack_cleared_def)
  have "on_sess (store_exist V (object_name oid) DefaultProgressFunction) u0 = Some (Inr True, u1)"
    using ex by (simp add: on_sess_def u1_def)
  then have "finalizePack E fs V tpr u = Some (Inr (), u1\<lparr>up_snap := s', up_pack := Some (pack_cleared ps)\<rparr>)"
    unfolding finalizePack_run [OF assms(2) ready] u0_def [symmetric] using s'(1) by simp
  then show ?thesis using s'(2-4)
    by (intro exI [of _ "u1\<lparr>up_snap := s', up_pack := Some (pack_cleared ps)\<rparr>"]) (simp add: u1_def u0_def)
qed

end

section \<open>Packed files are restored\<close>

lemma sealed_length: "hmac_ok E H \<Longrightarrow> sealed E H ct k1 k2 x y \<Longrightarrow> 0 < length y"
  by (auto simp: sealed_def)

text \<open>The entry of a placed file holds its data.\<close>

lemma placed_holds:
  assumes "hmac_ok E H" and "sealed_files E H R fis ds ys" and "i < length fis" and "length (concat ys) < 2 ^ 32"
    and "packed_entry s oid (place 0 fis ys ! i) fe" and "objs (object_name oid) = Some (concat ys)" and "length oid = 32"
    and "info_ok (fis ! i)"
  shows "object_holds E H R objs fe oid (ds ! i)"
proof -
  let ?off = "length (concat (take i ys))" and ?n = "length (ys ! i)"
  have y: "sealed E H (pi_compression (fis ! i)) (mEncKey R) (mMacKey R) (ds ! i) (ys ! i)" "i < length ys"
    using assms(2,3) by (simp_all add: sealed_files_def)
  have le: "?off + ?n \<le> length (concat ys)" by (rule concat_take_le [OF y(2)])
  have fe: "fe_compression fe = byte_of_compression (pi_compression (fis ! i))" "fe_offset fe = of_nat ?off" "fe_packLength fe = of_nat ?n"
    using assms(5) by (simp_all add: packed_entry_def place_keeps [OF assms(3) y(2)])
  have u: "unat (fe_offset fe) = ?off" "unat (fe_packLength fe) = ?n" using le assms(4) by (simp_all add: fe unat_of_nat)
  then have "fe_packLength fe \<noteq> 0" using sealed_length [OF assms(1) y(1)] by auto
  then have "stored_part fe (concat ys) = ys ! i" "part_fits fe (concat ys)"
    using take_drop_concat [OF y(2)] le by (simp_all add: stored_part_def part_fits_def u)
  moreover have "compression_of_byte (fe_compression fe) = pi_compression (fis ! i)"
    using assms(8) by (cases "pi_compression (fis ! i)") (auto simp: fe info_ok_def compression_of_byte_def)
  ultimately show ?thesis using y(1) assms(6,7) by (simp add: object_holds_def)
qed

section \<open>Properties\<close>

text \<open>C13. A pack of small files is restored file by file: \<^verbatim>\<open>finalizePack\<close>, when its object is not in the store yet, stores one object
  and touches no other, empties the pack, and gives every file an entry; and when the object is smaller than 4 GiB, \<^verbatim>\<open>downloadFile\<close> of
  each path reads the part of the object that belongs to the file and writes exactly its bytes.\<close>

theorem pack_restores:
  fixes E :: "('e, 'dc, 'h, 'm, 'l, 'z) env" and u :: "('h, filesys, 'p) uploading"
  assumes "file_store_ok root (w_store (up_sess u))" and "env_ok E H (w_repo (up_sess u))" and "up_pack u = Some ps" and "pack_ready E ps oid"
    and "file_objects root (w_store (up_sess u)) (object_name oid) = None" and "snap_inv (up_snap u)"
    and "pack_room (up_snap u) (ps_fileInfos ps)" and "disk_free fs" and "quiet_transfer tpr"
    and "distinct (map pi_path (ps_fileInfos ps))" and "\<forall>fi \<in> set (ps_fileInfos ps). getFileEntry (pi_path fi) (up_snap u) = None"
  shows "\<exists>u' ys. finalizePack E fs (FileDataStore root) tpr u = Some (Inr (), u') \<and> up_pack u' = Some (pack_cleared ps)
     \<and> sealed_files E H (w_repo (up_sess u)) (ps_fileInfos ps) (ps_packData ps) ys
     \<and> file_objects root (w_store (up_sess u')) = (file_objects root (w_store (up_sess u)))(object_name oid \<mapsto> concat ys)
     \<and> snap_inv (up_snap u')
     \<and> (length (concat ys) < 2 ^ 32 \<longrightarrow> (\<forall>i < length (ps_fileInfos ps).
          \<exists>p t. downloadFile E fs (FileDataStore root) (up_snap u') (pi_path (ps_fileInfos ps ! i)) TempFileStream_write tpr
                 (up_sess u', TempFileStream_new fs) = Some (Inr True, ((up_sess u')\<lparr>w_prog := p\<rparr>, t))
             \<and> tmp_written t = ps_packData ps ! i))"
proof -
  let ?R = "w_repo (up_sess u)" and ?fis = "ps_fileInfos ps"
  obtain u' ys where u': "finalizePack E fs (FileDataStore root) tpr u = Some (Inr (), u')" "up_pack u' = Some (pack_cleared ps)"
    "w_repo (up_sess u') = ?R" "file_store_ok root (w_store (up_sess u'))"
    "file_objects root (w_store (up_sess u')) = (file_objects root (w_store (up_sess u)))(object_name oid \<mapsto> concat ys)"
    "sealed_files E H ?R ?fis (ps_packData ps) ys" "snap_inv (up_snap u')"
    "\<forall>fi \<in> set (place 0 ?fis ys). getFileEntry (pi_path fi) (up_snap u) = None \<longrightarrow> (\<exists>fe. packed_entry (up_snap u') oid fi fe)"
    using file_store.finalizePack_ok [OF assms(1-8)] assms(10) by blast
  have ready: "length oid = 32" "\<forall>fi \<in> set ?fis. info_ok fi" using assms(4) by (simp_all add: pack_ready_def)
  have "\<exists>p t. downloadFile E fs (FileDataStore root) (up_snap u') (pi_path (?fis ! i)) TempFileStream_write tpr
         (up_sess u', TempFileStream_new fs) = Some (Inr True, ((up_sess u')\<lparr>w_prog := p\<rparr>, t)) \<and> tmp_written t = ps_packData ps ! i"
    if i: "i < length ?fis" and small: "length (concat ys) < 2 ^ 32" for i
  proof -
    let ?fi = "place 0 ?fis ys ! i"
    have len: "length ys = length ?fis" using u'(6) by (simp add: sealed_files_def)
    have "?fi \<in> set (place 0 ?fis ys)" using i len by (intro nth_mem) simp
    moreover have path: "pi_path ?fi = pi_path (?fis ! i)" using place_keeps [OF i, of ys] i len by simp
    ultimately obtain fe where fe: "packed_entry (up_snap u') oid ?fi fe" using u'(8) assms(11) i by auto
    have "object_holds E H ?R (file_objects root (w_store (up_sess u'))) fe oid (ps_packData ps ! i)"
      using placed_holds [OF env_okD(1) [OF assms(2)] u'(6) i small fe _ ready(1)] ready(2) i u'(5) by simp
    moreover have "entry_ids (up_snap u') fe = [oid]" "getFileEntry (pi_path (?fis ! i)) (up_snap u') = Some fe"
      using fe path by (simp_all add: packed_entry_def)
    ultimately show ?thesis
      using file_store.downloadFile_ok [OF tmp_out.output_stream_axioms u'(4) _ assms(9,8) u'(7) _ _ _ tmp_room_free [OF assms(8)],
          of E H "pi_path (?fis ! i)" fe "[ps_packData ps ! i]" 0] assms(2) u'(3) by auto
  qed
  with u'(1,2,5,6,7) show ?thesis by blast
qed

text \<open>A pack of two files in the empty repository.\<close>

definition sample_pack_info :: "string \<Rightarrow> u32 \<Rightarrow> PackFileInfo" where
  "sample_pack_info path off = \<lparr>pi_path = path, pi_user = ''me'', pi_group = ''us'', pi_type = RegularFile, pi_mode = 420, pi_compression = NoCompression,
     pi_size = 2, pi_mtime = 7, pi_rollingHashBits = 0, pi_md5 = replicate 16 0, pi_offset = off, pi_packLength = 0\<rparr>"

definition sample_pack :: "(bytes \<times> bytes) PackUploadState" where
  "sample_pack = \<lparr>ps_hmac = Some ([], []), ps_fileInfos = [sample_pack_info ''a/x'' 0, sample_pack_info ''a/y'' 1], ps_packData = [[7, 8], [9]],
     ps_rollingHash = Some sample_hash\<rparr>"

lemma sample_pack_ready: "pack_ready plain_env sample_pack (plain_hmac [] [])"
  by (simp add: pack_ready_def sample_pack_def length_plain_hmac info_ok_def sample_pack_info_def NUL_def)

lemma sample_pack_room: "pack_room Snapshot_new (ps_fileInfos sample_pack)"
  by (simp add: pack_room_def sample_pack_def sample_pack_info_def Snapshot_new_def)

lemma plain_sealed_length: "sealed plain_env plain_hmac NoCompression k1 k2 x y \<Longrightarrow> length y = length x + 64"
  by (auto simp: sealed_def payload_ok_def evp_encrypt_def plain_enc_updates length_plain_hmac)

lemma sample_pack_names: "distinct (map pi_path (ps_fileInfos sample_pack))" "getFileEntry q (up_snap sample_upload) = None"
  by (simp_all add: sample_pack_def sample_pack_info_def getFileEntry_def smap_find_def Snapshot_new_def)

lemma sample_pack_upload:
  "env_ok plain_env plain_hmac (w_repo (sample_session d))" "up_pack (sample_upload\<lparr>up_pack := Some sample_pack\<rparr>) = Some sample_pack"
  "snap_inv (up_snap sample_upload)" "pack_room (up_snap sample_upload) (ps_fileInfos sample_pack)"
  using sample_pack_room by (simp_all add: env_ok_def plain_hmac_ok plain_cipher_ok plain_lzma_ok)

theorem pack_restores_witness:
  "\<exists>u' p t. finalizePack plain_env empty_disk (FileDataStore ''/s'') DefaultFileTransferProgressFunction (sample_upload\<lparr>up_pack := Some sample_pack\<rparr>)
       = Some (Inr (), u')
     \<and> downloadFile plain_env empty_disk (FileDataStore ''/s'') (up_snap u') ''a/y'' TempFileStream_write DefaultFileTransferProgressFunction
         (up_sess u', TempFileStream_new empty_disk) = Some (Inr True, ((up_sess u')\<lparr>w_prog := p\<rparr>, t)) \<and> tmp_written t = [9]"
proof -
  let ?u = "sample_upload\<lparr>up_pack := Some sample_pack\<rparr>"
  have a: "file_store_ok ''/s'' (w_store (up_sess ?u))" "env_ok plain_env plain_hmac (w_repo (up_sess ?u))"
    "file_objects ''/s'' (w_store (up_sess ?u)) (object_name (plain_hmac [] [])) = None" "snap_inv (up_snap ?u)"
    "pack_room (up_snap ?u) (ps_fileInfos sample_pack)" "\<forall>fi \<in> set (ps_fileInfos sample_pack). getFileEntry (pi_path fi) (up_snap ?u) = None"
    using sample_pack_upload sample_pack_names by (simp_all add: store_disk_ok store_disk_objects)
  obtain u' ys where u': "finalizePack plain_env empty_disk (FileDataStore ''/s'') DefaultFileTransferProgressFunction ?u = Some (Inr (), u')"
    "sealed_files plain_env plain_hmac (w_repo (up_sess ?u)) (ps_fileInfos sample_pack) (ps_packData sample_pack) ys"
    "length (concat ys) < 2 ^ 32 \<Longrightarrow> \<forall>i < length (ps_fileInfos sample_pack). \<exists>p t. downloadFile plain_env empty_disk (FileDataStore ''/s'')
       (up_snap u') (pi_path (ps_fileInfos sample_pack ! i)) TempFileStream_write DefaultFileTransferProgressFunction
       (up_sess u', TempFileStream_new empty_disk) = Some (Inr True, ((up_sess u')\<lparr>w_prog := p\<rparr>, t)) \<and> tmp_written t = ps_packData sample_pack ! i"
    using pack_restores [OF a(1,2) sample_pack_upload(2) sample_pack_ready a(3-5) empty_disk_free quiet_transfer_default sample_pack_names(1) a(6)] by meson
  obtain y1 y2 where ys: "ys = [y1, y2]" using u'(2) by (auto simp: sealed_files_def sample_pack_def length_Suc_conv)
  have "length y1 = 66" "length y2 = 65"
    using u'(2) plain_sealed_length by (force simp: sealed_files_def sample_pack_def sample_pack_info_def ys All_less_Suc)+
  then have "length (concat ys) < 2 ^ 32" by (simp add: ys)
  from spec [OF u'(3) [OF this], of 1] u'(1) show ?thesis by (auto simp: sample_pack_def sample_pack_info_def)
qed

text \<open>C15. When an object of the pack's name is in the store already, as after backing up the same small files twice, \<^verbatim>\<open>finalizePack\<close> leaves the
  store alone and makes the entries from the file infos as \<^verbatim>\<open>addFile\<close> left them: the offset of an entry is the index of the file in the
  pack, not where its part of the object begins, and its length was never set.\<close>

theorem existing_pack_not_placed:
  fixes E :: "('e, 'dc, 'h, 'm, 'l, 'z) env" and u :: "('h, filesys, 'p) uploading"
  assumes "file_store_ok root (w_store (up_sess u))" and "up_pack u = Some ps" and "pack_ready E ps oid"
    and "file_objects root (w_store (up_sess u)) (object_name oid) \<noteq> None" and "snap_inv (up_snap u)"
    and "pack_room (up_snap u) (ps_fileInfos ps)" and "distinct (map pi_path (ps_fileInfos ps))"
    and "\<forall>i < length (ps_fileInfos ps). pi_offset (ps_fileInfos ps ! i) = of_nat i \<and> getFileEntry (pi_path (ps_fileInfos ps ! i)) (up_snap u) = None"
  shows "\<exists>u'. finalizePack E fs (FileDataStore root) tpr u = Some (Inr (), u') \<and> w_store (up_sess u') = w_store (up_sess u)
     \<and> (\<forall>i < length (ps_fileInfos ps). \<exists>fe. getFileEntry (pi_path (ps_fileInfos ps ! i)) (up_snap u') = Some fe
          \<and> fe_offset fe = of_nat i \<and> fe_packLength fe = pi_packLength (ps_fileInfos ps ! i) \<and> entry_ids (up_snap u') fe = [oid])"
proof -
  obtain u' where u': "finalizePack E fs (FileDataStore root) tpr u = Some (Inr (), u')" "w_store (up_sess u') = w_store (up_sess u)"
    "\<forall>fi \<in> set (ps_fileInfos ps). getFileEntry (pi_path fi) (up_snap u) = None \<longrightarrow> (\<exists>fe. packed_entry (up_snap u') oid fi fe)"
    using file_store.finalizePack_there [OF assms(1-6), of fs tpr] assms(7) by blast
  have "\<exists>fe. getFileEntry (pi_path (ps_fileInfos ps ! i)) (up_snap u') = Some fe
      \<and> fe_offset fe = of_nat i \<and> fe_packLength fe = pi_packLength (ps_fileInfos ps ! i) \<and> entry_ids (up_snap u') fe = [oid]"
    if "i < length (ps_fileInfos ps)" for i
    using bspec [OF u'(3) nth_mem [OF that]] assms(8) that by (auto simp: packed_entry_def)
  with u'(1,2) show ?thesis by blast
qed

theorem existing_pack_not_placed_witness:
  "\<exists>u1 u2 fe. finalizePack plain_env empty_disk (FileDataStore ''/s'') DefaultFileTransferProgressFunction (sample_upload\<lparr>up_pack := Some sample_pack\<rparr>)
       = Some (Inr (), u1)
     \<and> finalizePack plain_env empty_disk (FileDataStore ''/s'') DefaultFileTransferProgressFunction
         (sample_upload\<lparr>up_pack := Some sample_pack, up_sess := up_sess u1\<rparr>) = Some (Inr (), u2)
     \<and> getFileEntry ''a/y'' (up_snap u2) = Some fe \<and> fe_offset fe = 1 \<and> fe_packLength fe = 0"
proof -
  let ?u = "sample_upload\<lparr>up_pack := Some sample_pack\<rparr>"
  have a: "file_store_ok ''/s'' (w_store (up_sess ?u))" "env_ok plain_env plain_hmac (w_repo (up_sess ?u))"
    "file_objects ''/s'' (w_store (up_sess ?u)) (object_name (plain_hmac [] [])) = None" "snap_inv (up_snap ?u)"
    "pack_room (up_snap ?u) (ps_fileInfos sample_pack)"
    using sample_pack_upload by (simp_all add: store_disk_ok store_disk_objects)
  obtain u1 ys where u1: "finalizePack plain_env empty_disk (FileDataStore ''/s'') DefaultFileTransferProgressFunction ?u = Some (Inr (), u1)"
    "file_store_ok ''/s'' (w_store (up_sess u1))"
    "file_objects ''/s'' (w_store (up_sess u1)) = (file_objects ''/s'' (w_store (up_sess ?u)))(object_name (plain_hmac [] []) \<mapsto> concat ys)"
    using file_store.finalizePack_ok [OF a(1,2) sample_pack_upload(2) sample_pack_ready a(3-5) empty_disk_free] by blast
  let ?u2 = "sample_upload\<lparr>up_pack := Some sample_pack, up_sess := up_sess u1\<rparr>"
  have b: "file_store_ok ''/s'' (w_store (up_sess ?u2))" "up_pack ?u2 = Some sample_pack"
    "file_objects ''/s'' (w_store (up_sess ?u2)) (object_name (plain_hmac [] [])) \<noteq> None" "snap_inv (up_snap ?u2)"
    "pack_room (up_snap ?u2) (ps_fileInfos sample_pack)"
    "\<forall>i < length (ps_fileInfos sample_pack). pi_offset (ps_fileInfos sample_pack ! i) = of_nat i
       \<and> getFileEntry (pi_path (ps_fileInfos sample_pack ! i)) (up_snap ?u2) = None"
    using u1(2,3) sample_pack_upload sample_pack_names(2)
    by (simp_all add: sample_pack_def sample_pack_info_def All_less_Suc)
  obtain u2 where u2: "finalizePack plain_env empty_disk (FileDataStore ''/s'') DefaultFileTransferProgressFunction ?u2 = Some (Inr (), u2)"
    "\<forall>i < length (ps_fileInfos sample_pack). \<exists>fe. getFileEntry (pi_path (ps_fileInfos sample_pack ! i)) (up_snap u2) = Some fe
       \<and> fe_offset fe = of_nat i \<and> fe_packLength fe = pi_packLength (ps_fileInfos sample_pack ! i) \<and> entry_ids (up_snap u2) fe = [plain_hmac [] []]"
    using existing_pack_not_placed [OF b(1,2) sample_pack_ready b(3-5) sample_pack_names(1) b(6)] by blast
  from spec [OF u2(2), of 1] u1(1) u2(1) show ?thesis by (auto simp: sample_pack_def sample_pack_info_def)
qed

section \<open>Files on their way into a pack\<close>

text \<open>The invariant of the pack state between two uploads: every file has its data and its index, and the id is that of the data,
  each file's twice, since both \<^verbatim>\<open>uploadFile\<close> and \<^verbatim>\<open>addFile\<close> put it into the hash.\<close>

definition pack_inv ::
    "('e, 'dc, 'h, 'm, 'l, 'z) env \<Rightarrow> Repository \<Rightarrow> 'h PackUploadState \<Rightarrow> bool" where
  "pack_inv E R ps \<longleftrightarrow> length (ps_packData ps) = length (ps_fileInfos ps)
     \<and> (\<forall>i < length (ps_fileInfos ps). pi_offset (ps_fileInfos ps ! i) = of_nat i \<and> info_ok (ps_fileInfos ps ! i))
     \<and> (case ps_rollingHash ps of None \<Rightarrow> ps_fileInfos ps = []
        | Some _ \<Rightarrow> \<exists>c ctx. HMAC_Init E (take 32 (mHashKey R)) = Some c
            \<and> hmac_updates E c (concat (map (\<lambda>d. [d, d]) (ps_packData ps))) = Some ctx \<and> ps_hmac ps = Some ctx)"

definition pack_id :: "(bytes \<Rightarrow> bytes \<Rightarrow> bytes) \<Rightarrow> Repository \<Rightarrow> bytes list \<Rightarrow> bytes" where
  "pack_id H R ds = H (take 32 (mHashKey R)) (concat (map (\<lambda>d. d @ d) ds))"

lemma pack_inv_new: "pack_inv E R createPackState"
  by (simp add: pack_inv_def createPackState_def PackUploadState_new_def)

lemma pack_inv_ready:
  assumes "pack_inv E R ps" and "hmac_ok E H" and "ps_rollingHash ps \<noteq> None"
  shows "pack_ready E ps (pack_id H R (ps_packData ps))"
proof -
  obtain c ctx where c: "HMAC_Init E (take 32 (mHashKey R)) = Some c" "hmac_updates E c (concat (map (\<lambda>d. [d, d]) (ps_packData ps))) = Some ctx"
    "ps_hmac ps = Some ctx" using assms(1,3) by (auto simp: pack_inv_def)
  have twice: "concat (concat (map (\<lambda>d. [d, d]) ds)) = concat (map (\<lambda>d. d @ d) ds)" for ds :: "bytes list"
    by (induction ds) simp_all
  have "HMAC_Final E ctx = Some (pack_id H R (ps_packData ps))"
    using hmac_okD [OF assms(2), of "take 32 (mHashKey R)" "concat (map (\<lambda>d. [d, d]) (ps_packData ps))"] c(1,2)
    by (simp add: hmac_of_def twice pack_id_def)
  then show ?thesis
    using assms(1,3) c(3) hmac_ok_length [OF assms(2)] by (auto simp: pack_ready_def pack_inv_def pack_id_def in_set_conv_nth)
qed

lemma pack_inv_cleared: "pack_inv E R (pack_cleared ps)"
  by (simp add: pack_inv_def pack_cleared_def)

lemma start_pack_ok:
  assumes "pack_inv E R ps" and "hmac_ok E H" and "cipher_ok E (take 32 (mRollKey R))"
  shows "\<exists>ps0. start_pack E R ps = Some (Inr (), ps0) \<and> pack_inv E R ps0 \<and> ps_rollingHash ps0 \<noteq> None
     \<and> ps_packData ps0 = ps_packData ps \<and> ps_fileInfos ps0 = ps_fileInfos ps"
proof (cases "ps_rollingHash ps")
  case None
  then have empty: "ps_fileInfos ps = []" "ps_packData ps = []" using assms(1) by (auto simp: pack_inv_def)
  obtain rh where "RollingHash_new E (mRollKey R) 8192 = Inr rh" using RollingHash_new_ok [OF assms(3)] by blast
  moreover obtain c where "HMAC_Init E (take 32 (mHashKey R)) = Some c" by (rule hmac_of_Some [OF assms(2)])
  ultimately show ?thesis using None empty
    by (simp add: start_pack_def SHA256_DIGEST_LENGTH_def pack_inv_def)
next
  case (Some rh)
  then show ?thesis using assms(1) by (simp add: start_pack_def)
qed

lemma hmac_update_twice:
  assumes "hmac_ok E H" and "HMAC_Init E key = Some c" and "hmac_updates E c xs = Some ctx"
  obtains c1 c2 where "HMAC_Update E ctx d = Some c1" "HMAC_Update E c1 d = Some c2" "hmac_updates E c (xs @ [d, d]) = Some c2"
proof -
  obtain c' c2 where "HMAC_Init E key = Some c'" "hmac_updates E c' (xs @ [d, d]) = Some c2" by (rule hmac_of_Some [OF assms(1)])
  then have "hmac_updates E c (xs @ [d, d]) = Some c2" using assms(2) by simp
  moreover from this obtain c1 where "HMAC_Update E ctx d = Some c1" "HMAC_Update E c1 d = Some c2"
    using assms(3) by (auto simp: hmac_updates_append split: option.splits)
  ultimately show thesis using that by blast
qed

text \<open>The file info \<^verbatim>\<open>addFile\<close> makes.\<close>

definition pack_info ::
    "('e, 'dc, 'h, 'm, 'l, 'z) env \<Rightarrow> FileInfo \<Rightarrow> string \<Rightarrow> CompressionType \<Rightarrow> bytes \<Rightarrow> nat \<Rightarrow> PackFileInfo" where
  "pack_info E fi path ct md5 n =
     \<lparr>pi_path = path, pi_user = mUserName fi, pi_group = mGroupName fi, pi_type = mType fi, pi_mode = ucast (mMode fi), pi_compression = ct,
      pi_size = mLength fi, pi_mtime = mLastModifyTime fi, pi_rollingHashBits = 0, pi_md5 = md5, pi_offset = of_nat n,
      pi_packLength = word_of_le (local_buf E 4)\<rparr>"

lemma upload_packed_step:
  fixes E :: "('e, 'dc, 'h, 'm, 'l, 'z) env"
  assumes "pack_inv E R ps" and "hmac_ok E H" and "cipher_ok E (take 32 (mRollKey R))" and "digest_ok E D" and "R = w_repo (up_sess u)"
    and "up_pack u = Some ps" and "NUL \<notin> set path" and "\<And>b. ct \<noteq> InvalidCompression b"
  shows "\<exists>ps1 writePack. upload_packed E fs V fi path ct bs tpr u = (if writePack then finalizePack E fs V tpr
         else bind_io (on_sess (progress_io (tpr 0 1) 0 0)) (\<lambda>go. guard_io go CancelledException)) (u\<lparr>up_pack := Some ps1\<rparr>)
     \<and> pack_inv E R ps1 \<and> ps_rollingHash ps1 \<noteq> None \<and> ps_packData ps1 = ps_packData ps @ [bs]
     \<and> ps_fileInfos ps1 = ps_fileInfos ps @ [pack_info E fi path ct (D bs) (length (ps_packData ps))]"
proof -
  obtain ps0 where ps0: "start_pack E R ps = Some (Inr (), ps0)" "pack_inv E R ps0" "ps_rollingHash ps0 \<noteq> None"
    "ps_packData ps0 = ps_packData ps" "ps_fileInfos ps0 = ps_fileInfos ps" using start_pack_ok [OF assms(1-3)] by blast
  obtain rh where rh: "ps_rollingHash ps0 = Some rh" using ps0(3) by blast
  obtain c ctx where c: "HMAC_Init E (take 32 (mHashKey R)) = Some c" "ps_hmac ps0 = Some ctx"
    "hmac_updates E c (concat (map (\<lambda>d. [d, d]) (ps_packData ps))) = Some ctx"
    using ps0(2,4) rh by (auto simp: pack_inv_def)
  obtain c1 c2 where c2: "HMAC_Update E ctx bs = Some c1" "HMAC_Update E c1 bs = Some c2"
    "hmac_updates E c (concat (map (\<lambda>d. [d, d]) (ps_packData ps)) @ [bs, bs]) = Some c2" by (rule hmac_update_twice [OF assms(2) c(1,3)])
  obtain rh' writePack where roll: "roll_file bs rh False = (rh', writePack)" by force
  have md5: "digest_of E [bs] = Some (D bs)" "length (D bs) = 16"
    using assms(4) unfolding digest_ok_def by (metis append_Nil2 concat.simps)+
  let ?new = "pack_info E fi path ct (D bs) (length (ps_packData ps))"
  let ?psr = "ps0\<lparr>ps_hmac := Some c1, ps_rollingHash := Some rh'\<rparr>"
  define ps1 where "ps1 = ps0\<lparr>ps_hmac := Some c2, ps_rollingHash := Some rh', ps_fileInfos := ps_fileInfos ps @ [?new], ps_packData := ps_packData ps @ [bs]\<rparr>"
  have r: "roll_pack E bs ps0 = Some (Inr writePack, ?psr)" using rh c(2) c2(1) roll by (simp add: roll_pack_def)
  have a: "addFile E bs path (mUserName fi) (mGroupName fi) (mType fi) (ucast (mMode fi)) ct (mLength fi) (mLastModifyTime fi) 0 (D bs) ?psr
      = Some (Inr (), ps1)"
    using c2(2) ps0(4,5) md5(2) by (simp add: addFile_def ps1_def pack_info_def MD5_DIGEST_LENGTH_def)
  have len: "length (ps_packData ps) = length (ps_fileInfos ps)" using assms(1) by (simp add: pack_inv_def)
  have inv: "pack_inv E R ps1"
    using ps0(2,5) c(1) c2(3) assms(7,8) md5(2) len
    by (auto simp: pack_inv_def ps1_def nth_append pack_info_def info_ok_def less_Suc_eq)
  have "upload_packed E fs V fi path ct bs tpr u = (if writePack then finalizePack E fs V tpr
         else bind_io (on_sess (progress_io (tpr 0 1) 0 0)) (\<lambda>go. guard_io go CancelledException)) (u\<lparr>up_pack := Some ps1\<rparr>)"
    using assms(5,6) ps0(1) r a md5(1) by (simp add: upload_packed_def on_pack_def on_sess_def)
  with inv show ?thesis by (intro exI [of _ ps1] exI [of _ writePack]) (simp add: ps1_def)
qed

context data_store
begin

text \<open>Either way \<^verbatim>\<open>finalizePack\<close> returns: the pack is empty, nothing is lost, and every file of it has an entry.\<close>

lemma finalizePack_returns:
  fixes E :: "('e, 'dc, 'h, 'm, 'l, 'z) env"
  assumes "ok (w_store (up_sess u))" and "env_ok E H (w_repo (up_sess u))" and "up_pack u = Some ps" and "pack_ready E ps oid"
    and "snap_inv (up_snap u)" and "pack_room (up_snap u) (ps_fileInfos ps)" and "disk_free fs" and "distinct (map pi_path (ps_fileInfos ps))"
    and "\<forall>p \<in> pi_path ` set (ps_fileInfos ps). getFileEntry p (up_snap u) = None"
  shows "\<exists>u'. finalizePack E fs V tpr u = Some (Inr (), u') \<and> up_pack u' = Some (pack_cleared ps) \<and> w_repo (up_sess u') = w_repo (up_sess u)
     \<and> ok (w_store (up_sess u')) \<and> objects (w_store (up_sess u)) \<subseteq>\<^sub>m objects (w_store (up_sess u')) \<and> snap_inv (up_snap u')
     \<and> (\<forall>p \<in> pi_path ` set (ps_fileInfos ps). getFileEntry p (up_snap u') \<noteq> None)"
proof (cases "objects (w_store (up_sess u)) (object_name oid)")
  case None
  obtain u' ys where u': "finalizePack E fs V tpr u = Some (Inr (), u')" "up_pack u' = Some (pack_cleared ps)" "w_repo (up_sess u') = w_repo (up_sess u)"
    "ok (w_store (up_sess u'))" "objects (w_store (up_sess u')) = (objects (w_store (up_sess u)))(object_name oid \<mapsto> concat ys)"
    "sealed_files E H (w_repo (up_sess u)) (ps_fileInfos ps) (ps_packData ps) ys" "snap_inv (up_snap u')"
    "\<forall>fi \<in> set (place 0 (ps_fileInfos ps) ys). getFileEntry (pi_path fi) (up_snap u) = None \<longrightarrow> (\<exists>fe. packed_entry (up_snap u') oid fi fe)"
    using finalizePack_ok [OF assms(1-4) None assms(5-7), of tpr] assms(8) by blast
  have "length ys = length (ps_fileInfos ps)" using u'(6) by (simp add: sealed_files_def)
  from arg_cong [OF place_same(1) [OF this, of 0], of set]
  have paths: "pi_path ` set (place 0 (ps_fileInfos ps) ys) = pi_path ` set (ps_fileInfos ps)" by simp
  have "getFileEntry p (up_snap u') \<noteq> None" if "p \<in> pi_path ` set (ps_fileInfos ps)" for p
    using that u'(8) assms(9) unfolding paths [symmetric] packed_entry_def by force
  moreover have "objects (w_store (up_sess u)) \<subseteq>\<^sub>m objects (w_store (up_sess u'))" using u'(5) None by (auto simp: map_le_def)
  ultimately show ?thesis using u'(1-4,7) by blast
next
  case (Some y)
  then have there: "objects (w_store (up_sess u)) (object_name oid) \<noteq> None" by simp
  obtain u' where u': "finalizePack E fs V tpr u = Some (Inr (), u')" "up_pack u' = Some (pack_cleared ps)" "w_repo (up_sess u') = w_repo (up_sess u)"
    "w_store (up_sess u') = w_store (up_sess u)" "snap_inv (up_snap u')"
    "\<forall>fi \<in> set (ps_fileInfos ps). getFileEntry (pi_path fi) (up_snap u) = None \<longrightarrow> (\<exists>fe. packed_entry (up_snap u') oid fi fe)"
    using finalizePack_there [OF assms(1,3,4) there assms(5,6), of fs tpr] assms(8) by blast
  have "getFileEntry p (up_snap u') \<noteq> None" if "p \<in> pi_path ` set (ps_fileInfos ps)" for p
    using that u'(6) assms(9) unfolding packed_entry_def by force
  then show ?thesis using u'(1-5) assms(1) by simp
qed

end

text \<open>\<^verbatim>\<open>uploadFile\<close> of a small file with a pack: the file joins the pack, which may then be finalized.\<close>

lemma uploadFile_packed:
  fixes E :: "('e, 'dc, 'h, 'm, 'l, 'z) env"
  assumes "env_ok E H R" and "R = w_repo (up_sess u)" and "digest_ok E D" and "file_ready info (up_file u) bs"
    and "length bs < to_size_t (smallFileSize (mOptions R))" and "up_pack u = Some ps" and "pack_inv E R ps" and "fi = info (mPath (up_file u))"
    and "path = normalized_path dest" and "NUL \<notin> set path"
  shows "\<exists>f ps1 writePack. uploadFile E fs V lg info dest tpr u = (if writePack then finalizePack E fs V tpr
         else bind_io (on_sess (progress_io (tpr 0 1) 0 0)) (\<lambda>go. guard_io go CancelledException)) (u\<lparr>up_file := f, up_pack := Some ps1\<rparr>)
     \<and> pack_inv E R ps1 \<and> ps_rollingHash ps1 \<noteq> None \<and> ps_packData ps1 = ps_packData ps @ [bs]
     \<and> ps_fileInfos ps1 = ps_fileInfos ps @ [pack_info E fi path (compression_for fi) (D bs) (length (ps_packData ps))]"
proof -
  let ?ct = "compression_for fi"
  note env = env_okD [OF assms(1)]
  have f: "FileInfo_exists fi" "unat (mLength fi) = length bs" "file_inv (up_file u)" "file_rest (up_file u) = bs" "length bs < 2 ^ 63"
    using assms(4,8) by (simp_all add: file_ready_def)
  have ct: "\<And>b. ?ct \<noteq> InvalidCompression b" by (simp add: compression_for_def)
  obtain rh where rh: "RollingHash_new E (mRollKey R) 8192 = Inr rh" using RollingHash_new_ok [OF env(3)] by blast
  obtain md5 md5' where md5: "EVP_DigestInit E = Some md5" "digest_updates E md5 [bs] = Some md5'"
    by (rule digest_of_Some [OF assms(3)])
  then have upd: "EVP_DigestUpdate E md5 bs = Some md5'" by (simp split: option.splits)
  obtain f' where f': "readExpected FileStream_read (length bs) (up_file u) = Some (Inr bs, f')"
    using file_in.readExpected_ok [OF f(3) f(5)] f(4) by auto
  have id: "computeBlockHMAC E bs (byte_of_compression ?ct) (up_sess u) = Some (Inr (block_id H R ?ct bs), up_sess u)"
    unfolding assms(2) by (rule computeBlockHMAC_ok [OF env(1)])
  let ?u = "u\<lparr>up_file := f'\<rparr>"
  have run: "uploadFile E fs V lg info dest tpr u = upload_packed E fs V fi path ?ct bs tpr ?u"
    using assms(2,5,6,8,9) f(1,2) rh md5(1) f' upd id
    by (simp add: uploadFile_def Let_def on_file_def on_sess_def md5_update_def)
  obtain ps1 writePack where ps1: "upload_packed E fs V fi path ?ct bs tpr ?u = (if writePack then finalizePack E fs V tpr
         else bind_io (on_sess (progress_io (tpr 0 1) 0 0)) (\<lambda>go. guard_io go CancelledException)) (?u\<lparr>up_pack := Some ps1\<rparr>)"
    "pack_inv E R ps1" "ps_rollingHash ps1 \<noteq> None" "ps_packData ps1 = ps_packData ps @ [bs]"
    "ps_fileInfos ps1 = ps_fileInfos ps @ [pack_info E fi path ?ct (D bs) (length (ps_packData ps))]"
    using upload_packed_step [where u = ?u and fs = fs and V = V and fi = fi and bs = bs and tpr = tpr,
        OF assms(7) env(1,3) assms(3) _ _ assms(10) ct] assms(2,6) by auto
  then show ?thesis unfolding run by auto
qed

text \<open>C14. The invariant of a pack on its way: \<^verbatim>\<open>uploadFile\<close> of a small file with a pack state terminates normally and keeps the invariant of the pack state,
  of the snapshot and of the store, and no object of the store is lost. Afterwards the file waits in the pack after the others, and nothing
  else has changed, or the pack is empty and all its files, the new one included, have entries in the snapshot.\<close>

theorem packed_upload_invariant:
  fixes E :: "('e, 'dc, 'h, 'm, 'l, 'z) env" and u :: "('h, filesys, 'p) uploading"
  assumes "file_store_ok root (w_store (up_sess u))" and "env_ok E H R" and "R = w_repo (up_sess u)" and "digest_ok E D"
    and "file_ready info (up_file u) bs" and "length bs < to_size_t (smallFileSize (mOptions R))"
    and "up_pack u = Some ps" and "pack_inv E R ps" and "snap_inv (up_snap u)" and "fi = info (mPath (up_file u))"
    and "path = normalized_path dest" and "NUL \<notin> set path"
    and "pack_room (up_snap u) (ps_fileInfos ps @ [pack_info E fi path (compression_for fi) (D bs) (length (ps_packData ps))])"
    and "distinct (map pi_path (ps_fileInfos ps) @ [path])" and "\<forall>p \<in> set (map pi_path (ps_fileInfos ps) @ [path]). getFileEntry p (up_snap u) = None"
    and "quiet_transfer tpr" and "disk_free fs"
  shows "\<exists>u' ps'. uploadFile E fs (FileDataStore root) lg info dest tpr u = Some (Inr (), u') \<and> up_pack u' = Some ps' \<and> pack_inv E R ps'
     \<and> snap_inv (up_snap u') \<and> file_store_ok root (w_store (up_sess u')) \<and> w_repo (up_sess u') = R
     \<and> file_objects root (w_store (up_sess u)) \<subseteq>\<^sub>m file_objects root (w_store (up_sess u'))
     \<and> (ps_packData ps' = ps_packData ps @ [bs] \<and> map pi_path (ps_fileInfos ps') = map pi_path (ps_fileInfos ps) @ [path]
          \<and> up_snap u' = up_snap u \<and> w_store (up_sess u') = w_store (up_sess u)
        \<or> ps_packData ps' = [] \<and> (\<forall>p \<in> set (map pi_path (ps_fileInfos ps) @ [path]). getFileEntry p (up_snap u') \<noteq> None))"
proof -
  let ?V = "FileDataStore root"
  note env = env_okD [OF assms(2)]
  obtain f' ps1 writePack where ps1: "uploadFile E fs ?V lg info dest tpr u = (if writePack then finalizePack E fs ?V tpr
         else bind_io (on_sess (progress_io (tpr 0 1) 0 0)) (\<lambda>go. guard_io go CancelledException)) (u\<lparr>up_file := f', up_pack := Some ps1\<rparr>)"
    "pack_inv E R ps1" "ps_rollingHash ps1 \<noteq> None" "ps_packData ps1 = ps_packData ps @ [bs]"
    "ps_fileInfos ps1 = ps_fileInfos ps @ [pack_info E fi path (compression_for fi) (D bs) (length (ps_packData ps))]"
    using uploadFile_packed [where fs = fs and V = ?V and lg = lg and tpr = tpr, OF assms(2-8,10-12)] by blast
  let ?u = "u\<lparr>up_file := f'\<rparr>"
  have paths: "map pi_path (ps_fileInfos ps1) = map pi_path (ps_fileInfos ps) @ [path]" by (simp add: ps1(5) pack_info_def)
  show ?thesis
  proof (cases writePack)
    case False
    obtain p' where "tpr 0 1 0 0 (w_prog (up_sess u)) = (True, p')"
      using assms(16) unfolding quiet_transfer_def quiet_def by (metis prod.collapse)
    then have "uploadFile E fs ?V lg info dest tpr u = Some (Inr (), ?u\<lparr>up_pack := Some ps1, up_sess := (up_sess u)\<lparr>w_prog := p'\<rparr>\<rparr>)"
      using ps1(1) False by (simp add: on_sess_def progress_io_def)
    then show ?thesis using ps1(2,4) paths assms(1,3,9) by auto
  next
    case True
    let ?u1 = "?u\<lparr>up_pack := Some ps1\<rparr>"
    have a: "file_store_ok root (w_store (up_sess ?u1))" "env_ok E H (w_repo (up_sess ?u1))" "up_pack ?u1 = Some ps1" "snap_inv (up_snap ?u1)"
      "pack_room (up_snap ?u1) (ps_fileInfos ps1)" "distinct (map pi_path (ps_fileInfos ps1))"
      "\<forall>p \<in> pi_path ` set (ps_fileInfos ps1). getFileEntry p (up_snap ?u1) = None"
      using assms(1-3,9,13) ps1(5) assms(14,15) [folded paths] by simp_all
    obtain u' where u': "finalizePack E fs ?V tpr ?u1 = Some (Inr (), u')" "up_pack u' = Some (pack_cleared ps1)" "w_repo (up_sess u') = w_repo (up_sess ?u1)"
      "file_store_ok root (w_store (up_sess u'))" "file_objects root (w_store (up_sess ?u1)) \<subseteq>\<^sub>m file_objects root (w_store (up_sess u'))"
      "snap_inv (up_snap u')" "\<forall>p \<in> pi_path ` set (ps_fileInfos ps1). getFileEntry p (up_snap u') \<noteq> None"
      using file_store.finalizePack_returns [OF a(1-3) pack_inv_ready [OF ps1(2) env(1) ps1(3)] a(4,5) assms(17) a(6,7)] by blast
    have "\<forall>p \<in> set (map pi_path (ps_fileInfos ps) @ [path]). getFileEntry p (up_snap u') \<noteq> None" using u'(7) unfolding paths [symmetric] by simp
    moreover have "ps_packData (pack_cleared ps1) = []" by (simp add: pack_cleared_def)
    ultimately show ?thesis using ps1(1) True u' assms(3) pack_inv_cleared by auto
  qed
qed

theorem packed_upload_invariant_witness:
  "\<exists>u' ps'. uploadFile plain_env empty_disk (FileDataStore ''/s'') (\<lambda>_. 18) sample_info ''docs/x'' DefaultFileTransferProgressFunction
         (sample_upload\<lparr>up_pack := Some createPackState\<rparr>) = Some (Inr (), u')
     \<and> up_pack u' = Some ps' \<and> pack_inv plain_env (w_repo (up_sess u')) ps' \<and> snap_inv (up_snap u')
     \<and> (ps_packData ps' = [[7, 8, 9]] \<or> ps_packData ps' = [] \<and> getFileEntry ''docs/x'' (up_snap u') \<noteq> None)"
proof -
  let ?u = "sample_upload\<lparr>up_pack := Some createPackState\<rparr>" and ?R = "w_repo (sample_session store_disk)"
  have a: "file_store_ok ''/s'' (w_store (up_sess ?u))" "env_ok plain_env plain_hmac ?R" "?R = w_repo (up_sess ?u)"
    "file_ready sample_info (up_file ?u) [7, 8, 9]" "length [7, 8, 9 :: byte] < to_size_t (smallFileSize (mOptions ?R))"
    "up_pack ?u = Some createPackState" "snap_inv (up_snap ?u)"
    "distinct (map pi_path (ps_fileInfos (createPackState :: (bytes \<times> bytes) PackUploadState)) @ [''docs/x''])"
    "\<forall>p \<in> set (map pi_path (ps_fileInfos (createPackState :: (bytes \<times> bytes) PackUploadState)) @ [''docs/x'']). getFileEntry p (up_snap ?u) = None"
    "pack_room (up_snap ?u) (ps_fileInfos (createPackState :: (bytes \<times> bytes) PackUploadState) @ [pack_info plain_env (sample_info (mPath (up_file ?u))) ''docs/x''
       (compression_for (sample_info (mPath (up_file ?u)))) (plain_digest [7, 8, 9]) (length (ps_packData (createPackState :: (bytes \<times> bytes) PackUploadState)))])"
    using sample_sess(3) sample_snap sample_pack_upload
    by (simp_all add: store_disk_ok env_ok_def plain_hmac_ok plain_cipher_ok plain_lzma_ok sample_options to_size_t_def
        createPackState_def PackUploadState_new_def pack_room_def pack_info_def sample_info_def Snapshot_new_def)
  from packed_upload_invariant [where dest = "''docs/x''" and path = "''docs/x''" and lg = "\<lambda>_. 18",
      OF a(1-3) plain_digest_ok a(4-6) pack_inv_new a(7) refl sample_path(1) [symmetric] sample_path(2) a(10,8,9) quiet_transfer_default empty_disk_free]
  obtain u' ps' where "uploadFile plain_env empty_disk (FileDataStore ''/s'') (\<lambda>_. 18) sample_info ''docs/x'' DefaultFileTransferProgressFunction ?u = Some (Inr (), u')"
    "up_pack u' = Some ps'" "pack_inv plain_env ?R ps'" "snap_inv (up_snap u')" "w_repo (up_sess u') = ?R"
    "ps_packData ps' = ps_packData (createPackState :: (bytes \<times> bytes) PackUploadState) @ [[7, 8, 9]] \<or> ps_packData ps' = []
       \<and> (\<forall>p \<in> set (map pi_path (ps_fileInfos (createPackState :: (bytes \<times> bytes) PackUploadState)) @ [''docs/x'']). getFileEntry p (up_snap u') \<noteq> None)"
    by meson
  then show ?thesis by (auto simp: createPackState_def PackUploadState_new_def)
qed

end
