(* ===== verification/S3_Data_Store.thy ===== *)
theory S3_Data_Store
  imports Data_Store
begin

text \<open>
  \<^verbatim>\<open>backends/AwsS3DataStore\<close>: the data store in an S3 bucket. The two stream buffers that connect the program's streams to the
  library's are translated, and the operations of the interface over them. The AWS library is a record of its calls over a world \<open>'w\<close>;
  a transfer is a process that asks for one action after the other on the stream buffer it was given, reports its progress and ends with a
  status. The library runs it on threads of its own; the calling thread waits for its end, so that the actions happen one after the other.
\<close>

section \<open>The stream buffers\<close>

text \<open>\<^verbatim>\<open>IOStreamInputBuf\<close>: \<open>ib_get\<close> is the get area, from \<^verbatim>\<open>gptr()\<close> to \<^verbatim>\<open>egptr()\<close>. The end of the file is \<open>None\<close>.\<close>

record 's IOStreamInputBuf =
  ib_stream :: 's
  ib_get :: bytes
  ib_offset :: int

definition IOStreamInputBuf_new :: "'s \<Rightarrow> 's IOStreamInputBuf" where
  "IOStreamInputBuf_new s = \<lparr>ib_stream = s, ib_get = [], ib_offset = 0\<rparr>"

definition on_ib_stream :: "('s, 'a) io \<Rightarrow> ('s IOStreamInputBuf, 'a) io" where
  "on_ib_stream = zoom_io ib_stream (\<lambda>s b. b\<lparr>ib_stream := s\<rparr>)"

definition IOStreamInputBuf_underflow :: "'s instream \<Rightarrow> ('s IOStreamInputBuf, byte option) io" where
  "IOStreamInputBuf_underflow V =
     bind_io (gets_io ib_get) (\<lambda>area. case area of
       c # _ \<Rightarrow> return_io (Some c)
     | [] \<Rightarrow>
         bind_io (on_ib_stream (is_read V 8192)) (\<lambda>buf. case buf of
           [] \<Rightarrow> return_io None
         | c # _ \<Rightarrow> seq_io (modify_io (\<lambda>b. b\<lparr>ib_offset := ib_offset b + int (length buf), ib_get := buf\<rparr>)) (return_io (Some c))))"

datatype seekdir = seek_beg | seek_cur | seek_end

definition IOStreamInputBuf_seekoff :: "'s instream \<Rightarrow> int \<Rightarrow> seekdir \<Rightarrow> bool \<Rightarrow> ('s IOStreamInputBuf, int) io" where
  "IOStreamInputBuf_seekoff V off way which_in =
     (if which_in \<and> off = 0 then
        (case way of
           seek_end \<Rightarrow>
             bind_io (on_ib_stream (is_size V)) (\<lambda>n.
             seq_io (modify_io (\<lambda>b. b\<lparr>ib_offset := n, ib_get := []\<rparr>)) (return_io n))
         | seek_cur \<Rightarrow> gets_io (\<lambda>b. ib_offset b - int (length (ib_get b)))
         | seek_beg \<Rightarrow>
             bind_io (gets_io (\<lambda>b. is_canRewind V (ib_stream b))) (\<lambda>can.
             if can then
               seq_io (modify_io (\<lambda>b. b\<lparr>ib_offset := 0\<rparr>))
                 (seq_io (on_ib_stream (is_rewind V)) (seq_io (modify_io (\<lambda>b. b\<lparr>ib_get := []\<rparr>)) (return_io 0)))
             else return_io (-1)))
      else return_io (-1))"

text \<open>What \<^verbatim>\<open>std::streambuf\<close> does with it: \<^verbatim>\<open>sbumpc\<close> takes a character, \<^verbatim>\<open>xsgetn\<close> as many as there are.\<close>

definition streambuf_sbumpc :: "'s instream \<Rightarrow> ('s IOStreamInputBuf, byte option) io" where
  "streambuf_sbumpc V =
     bind_io (IOStreamInputBuf_underflow V) (\<lambda>c. seq_io (modify_io (\<lambda>b. b\<lparr>ib_get := tl (ib_get b)\<rparr>)) (return_io c))"

primrec streambuf_sgetn :: "'s instream \<Rightarrow> nat \<Rightarrow> ('s IOStreamInputBuf, bytes) io" where
  "streambuf_sgetn V 0 = return_io []"
| "streambuf_sgetn V (Suc n) =
     bind_io (streambuf_sbumpc V) (\<lambda>c. case c of
       None \<Rightarrow> return_io []
     | Some x \<Rightarrow> bind_io (streambuf_sgetn V n) (\<lambda>xs. return_io (x # xs)))"

text \<open>\<^verbatim>\<open>IOStreamOutputBuf\<close>: \<open>ob_put\<close> is the put area, from \<^verbatim>\<open>pbase()\<close> to \<^verbatim>\<open>pptr()\<close>.\<close>

record 'o IOStreamOutputBuf =
  ob_stream :: 'o
  ob_put :: bytes

definition IOStreamOutputBuf_new :: "'o \<Rightarrow> 'o IOStreamOutputBuf" where
  "IOStreamOutputBuf_new t = \<lparr>ob_stream = t, ob_put = []\<rparr>"

definition IOStreamOutputBuf_sync :: "(bytes \<Rightarrow> ('o, unit) io) \<Rightarrow> ('o IOStreamOutputBuf, int) io" where
  "IOStreamOutputBuf_sync wr =
     bind_io (gets_io ob_put) (\<lambda>area.
     if area = [] then return_io 0
     else seq_io (zoom_io ob_stream (\<lambda>t b. b\<lparr>ob_stream := t\<rparr>) (wr area)) (seq_io (modify_io (\<lambda>b. b\<lparr>ob_put := []\<rparr>)) (return_io 0)))"

definition IOStreamOutputBuf_overflow :: "(bytes \<Rightarrow> ('o, unit) io) \<Rightarrow> byte option \<Rightarrow> ('o IOStreamOutputBuf, byte option) io" where
  "IOStreamOutputBuf_overflow wr c = (case c of
       None \<Rightarrow> return_io None
     | Some x \<Rightarrow>
         bind_io (gets_io ob_put) (\<lambda>area.
         seq_io (if length area = 8192 then IOStreamOutputBuf_sync wr else return_io 0)
           (seq_io (modify_io (\<lambda>b. b\<lparr>ob_put := ob_put b @ [x]\<rparr>)) (return_io (Some x)))))"

text \<open>\<^verbatim>\<open>sputc\<close> stores a character in the put area when there is room, and calls \<^verbatim>\<open>overflow\<close> otherwise; \<^verbatim>\<open>xsputn\<close> stores one after the other.\<close>

definition streambuf_sputc :: "(bytes \<Rightarrow> ('o, unit) io) \<Rightarrow> byte \<Rightarrow> ('o IOStreamOutputBuf, unit) io" where
  "streambuf_sputc wr x =
     bind_io (gets_io ob_put) (\<lambda>area.
     if length area < 8192 then modify_io (\<lambda>b. b\<lparr>ob_put := area @ [x]\<rparr>)
     else seq_io (IOStreamOutputBuf_overflow wr (Some x)) (return_io ()))"

definition streambuf_sputn :: "(bytes \<Rightarrow> ('o, unit) io) \<Rightarrow> bytes \<Rightarrow> ('o IOStreamOutputBuf, unit) io" where
  "streambuf_sputn wr = feed (streambuf_sputc wr)"

section \<open>The library\<close>

datatype TransferStatus = NOT_STARTED | IN_PROGRESS | CANCELED | FAILED | COMPLETED | ABORTED | EXACT_OBJECT_ALREADY_EXISTS

text \<open>The actions of a transfer and the answers it gets; an exception of a stream buffer is caught by the library's stream.\<close>

datatype transfer_action = TWrite bytes | TSync | TRead nat | TSeek int seekdir | TProgress int int | TDone TransferStatus

datatype transfer_answer = Wrote bool | Synced bool | Got "bytes option" | Position int

record 'w aws =
  InitAPI :: "'w \<Rightarrow> 'w"
  MakeClient :: "string \<Rightarrow> string \<Rightarrow> 'w \<Rightarrow> 'w"
  HeadObject :: "string \<Rightarrow> string \<Rightarrow> 'w \<Rightarrow> bool \<times> 'w"
  DeleteObject :: "string \<Rightarrow> string \<Rightarrow> 'w \<Rightarrow> bool \<times> 'w"
  DownloadFile :: "string \<Rightarrow> string \<Rightarrow> 'w \<Rightarrow> 'w"
  UploadFile :: "string \<Rightarrow> string \<Rightarrow> string \<Rightarrow> (string \<rightharpoonup> string) \<Rightarrow> 'w \<Rightarrow> 'w"
  transfer_next :: "'w \<Rightarrow> transfer_action \<times> 'w"
  transfer_answered :: "transfer_answer \<Rightarrow> 'w \<Rightarrow> 'w"
  Cancel :: "'w \<Rightarrow> 'w"
  Base64Encode :: "bytes \<Rightarrow> string"

definition result_ok :: "exn + 'a \<Rightarrow> bool" where
  "result_ok r = (case r of Inl _ \<Rightarrow> False | Inr _ \<Rightarrow> True)"

lemma result_ok_simps [simp]: "\<not> result_ok (Inl e)" "result_ok (Inr a)"
  by (simp_all add: result_ok_def)

text \<open>\<^verbatim>\<open>WaitUntilFinished\<close> of a download and of an upload. A stream buffer that lacks an operation has the one of \<^verbatim>\<open>std::streambuf\<close>: no
  input, no position, no output.\<close>

partial_function (option) run_download ::
    "'w aws \<Rightarrow> (bytes \<Rightarrow> ('o, unit) io) \<Rightarrow> 'p progress \<Rightarrow> 'w \<times> 'p \<times> 'o IOStreamOutputBuf \<Rightarrow> (TransferStatus \<times> 'w \<times> 'p \<times> 'o IOStreamOutputBuf) option" where
  "run_download A wr pr st = (case st of (w, p, b) \<Rightarrow> (case transfer_next A w of (a, w') \<Rightarrow> (case a of
       TDone status \<Rightarrow> Some (status, w', p, b)
     | TProgress n m \<Rightarrow> (case pr n m p of (go, p') \<Rightarrow> run_download A wr pr (if go then w' else Cancel A w', p', b))
     | TWrite bs \<Rightarrow> (case streambuf_sputn wr bs b of
           None \<Rightarrow> None
         | Some (r, b') \<Rightarrow> run_download A wr pr (transfer_answered A (Wrote (result_ok r)) w', p, b'))
     | TSync \<Rightarrow> (case IOStreamOutputBuf_sync wr b of
           None \<Rightarrow> None
         | Some (r, b') \<Rightarrow> run_download A wr pr (transfer_answered A (Synced (result_ok r)) w', p, b'))
     | TRead n \<Rightarrow> run_download A wr pr (transfer_answered A (Got (Some [])) w', p, b)
     | TSeek off way \<Rightarrow> run_download A wr pr (transfer_answered A (Position (-1)) w', p, b))))"

partial_function (option) run_upload ::
    "'w aws \<Rightarrow> 's instream \<Rightarrow> 'p progress \<Rightarrow> 'w \<times> 'p \<times> 's IOStreamInputBuf \<Rightarrow> (TransferStatus \<times> 'w \<times> 'p \<times> 's IOStreamInputBuf) option" where
  "run_upload A V pr st = (case st of (w, p, b) \<Rightarrow> (case transfer_next A w of (a, w') \<Rightarrow> (case a of
       TDone status \<Rightarrow> Some (status, w', p, b)
     | TProgress n m \<Rightarrow> (case pr n m p of (go, p') \<Rightarrow> run_upload A V pr (if go then w' else Cancel A w', p', b))
     | TWrite bs \<Rightarrow> run_upload A V pr (transfer_answered A (Wrote False) w', p, b)
     | TSync \<Rightarrow> run_upload A V pr (transfer_answered A (Synced True) w', p, b)
     | TRead n \<Rightarrow> (case streambuf_sgetn V n b of
           None \<Rightarrow> None
         | Some (r, b') \<Rightarrow> run_upload A V pr (transfer_answered A (Got (case r of Inl _ \<Rightarrow> None | Inr bs \<Rightarrow> Some bs)) w', p, b'))
     | TSeek off way \<Rightarrow> (case IOStreamInputBuf_seekoff V off way True b of
           None \<Rightarrow> None
         | Some (r, b') \<Rightarrow> run_upload A V pr (transfer_answered A (Position (case r of Inl _ \<Rightarrow> -1 | Inr k \<Rightarrow> k)) w', p, b')))))"

section \<open>The store\<close>

text \<open>The constructor; the static member \<^verbatim>\<open>sDoOnce\<close> is part of the state.\<close>

definition AwsS3DataStore_new :: "'w aws \<Rightarrow> string \<Rightarrow> string \<Rightarrow> string \<Rightarrow> (bool \<times> 'w, string) io" where
  "AwsS3DataStore_new A bucket accessKeyId secretKey = (\<lambda>(sDoOnce, w).
     Some (Inr bucket, (False, MakeClient A accessKeyId secretKey (if sDoOnce then InitAPI A w else w))))"

definition AwsS3DataStore_exist :: "'w aws \<Rightarrow> string \<Rightarrow> string \<Rightarrow> 'p progress \<Rightarrow> ('w \<times> 'p, bool) io" where
  "AwsS3DataStore_exist A bucket path pr = (\<lambda>(w, p). case HeadObject A bucket path w of (good, w') \<Rightarrow> Some (Inr good, (w', p)))"

definition AwsS3DataStore_get :: "'w aws \<Rightarrow> string \<Rightarrow> string \<Rightarrow> 'p progress \<Rightarrow> ('w \<times> 'p \<times> TempFileStream, unit) io" where
  "AwsS3DataStore_get A bucket path pr = (\<lambda>(w, p, t).
     map_option (\<lambda>(status, w', p', b). (if status \<noteq> COMPLETED then Inl FileIOException else Inr (), (w', p', ob_stream b)))
       (run_download A TempFileStream_write pr (DownloadFile A bucket path w, p, IOStreamOutputBuf_new t)))"

text \<open>\<^verbatim>\<open>std::to_string\<close>.\<close>

fun dec_nat :: "nat \<Rightarrow> string" where
  "dec_nat n = (if n < 10 then [] else dec_nat (n div 10)) @ [char_of (48 + n mod 10)]"

declare dec_nat.simps [simp del]

definition to_string :: "int \<Rightarrow> string" where
  "to_string i = (if i < 0 then ''-'' else []) @ dec_nat (nat \<bar>i\<bar>)"

text \<open>The digest of a stream that can be rewound. The results of the digest functions are ignored: a context that could not be initialised is
  used all the same, one that could not be updated stays as it is, and a digest that could not be finished leaves the buffer as it was.\<close>

definition md5_body :: "('e, 'dc, 'h, 'm, 'l, 'z) env \<Rightarrow> bytes \<Rightarrow> ('m, unit) io" where
  "md5_body E buf = (\<lambda>ctx. Some (Inr (), case EVP_DigestUpdate E ctx buf of None \<Rightarrow> ctx | Some ctx' \<Rightarrow> ctx'))"

definition put_md5 :: "('e, 'dc, 'h, 'm, 'l, 'z) env \<Rightarrow> (any_in, bytes) io" where
  "put_md5 E =
     seq_io (is_rewind any_methods) (case EVP_DigestInit E of
       None \<Rightarrow> throw_io UndefinedBehaviour
     | Some ctx \<Rightarrow> (\<lambda>s. case read_each (is_read any_methods) 8192 (md5_body E) (s, ctx) of
           None \<Rightarrow> None
         | Some (Inl e, (s', ctx')) \<Rightarrow> Some (Inl e, s')
         | Some (Inr _, (s', ctx')) \<Rightarrow>
             seq_io (is_rewind any_methods)
               (return_io (case EVP_DigestFinal E ctx' of None \<Rightarrow> local_buf E MD5_DIGEST_LENGTH | Some md \<Rightarrow> md)) s'))"

definition put_metadata :: "'w aws \<Rightarrow> ('e, 'dc, 'h, 'm, 'l, 'z) env \<Rightarrow> (any_in, string \<rightharpoonup> string) io" where
  "put_metadata A E =
     bind_io (is_size any_methods) (\<lambda>n.
     bind_io (if 0 \<le> n then bind_io (is_size any_methods) (\<lambda>n. return_io [''Content-Length'' \<mapsto> to_string n]) else return_io Map.empty) (\<lambda>meta.
     bind_io (gets_io (is_canRewind any_methods)) (\<lambda>can.
     if can then bind_io (put_md5 E) (\<lambda>md5. return_io (meta(''Content-MD5'' \<mapsto> Base64Encode A md5))) else return_io meta)))"

definition AwsS3DataStore_put ::
    "'w aws \<Rightarrow> ('e, 'dc, 'h, 'm, 'l, 'z) env \<Rightarrow> string \<Rightarrow> string \<Rightarrow> 'p progress \<Rightarrow> ('w \<times> 'p \<times> any_in, unit) io" where
  "AwsS3DataStore_put A E bucket path pr = (\<lambda>(w, p, s). case put_metadata A E s of
       None \<Rightarrow> None
     | Some (Inl e, s') \<Rightarrow> Some (Inl e, (w, p, s'))
     | Some (Inr meta, s') \<Rightarrow>
         map_option (\<lambda>(status, w', p', b). (if status \<noteq> COMPLETED then Inl FileIOException else Inr (), (w', p', ib_stream b)))
           (run_upload A any_methods pr (UploadFile A bucket path ''application/octet-stream'' meta w, p, IOStreamInputBuf_new s')))"

definition AwsS3DataStore_list :: "string \<Rightarrow> string \<Rightarrow> 'p progress \<Rightarrow> ('w \<times> 'p, string option list) io" where
  "AwsS3DataStore_list bucket path pr = return_io []"

definition AwsS3DataStore_unlink :: "'w aws \<Rightarrow> string \<Rightarrow> string \<Rightarrow> 'p progress \<Rightarrow> ('w \<times> 'p, bool) io" where
  "AwsS3DataStore_unlink A bucket path pr = (\<lambda>(w, p). case DeleteObject A bucket path w of (good, w') \<Rightarrow>
     Some (if good then Inr True else Inl FileIOException, (w', p)))"

definition AwsS3DataStore :: "'w aws \<Rightarrow> ('e, 'dc, 'h, 'm, 'l, 'z) env \<Rightarrow> string \<Rightarrow> ('w, 'p) DataStore" where
  "AwsS3DataStore A E bucket =
     \<lparr>ds_exist = AwsS3DataStore_exist A bucket, ds_get = AwsS3DataStore_get A bucket, ds_put = AwsS3DataStore_put A E bucket,
      ds_list = AwsS3DataStore_list bucket, ds_unlink = AwsS3DataStore_unlink A bucket\<rparr>"

section \<open>Reading through the buffer\<close>

text \<open>What the buffer still delivers, and its invariant: the position it reports is the number of bytes it has delivered of the whole stream.\<close>

definition ib_rest :: "any_in IOStreamInputBuf \<Rightarrow> bytes" where
  "ib_rest b = ib_get b @ any_rest (ib_stream b)"

definition ib_inv :: "bytes \<Rightarrow> any_in IOStreamInputBuf \<Rightarrow> bool" where
  "ib_inv whole b \<longleftrightarrow> any_inv (ib_stream b) \<and> any_whole (ib_stream b) = whole
     \<and> ib_offset b + int (length (any_rest (ib_stream b))) = int (length whole)"

lemma ib_inv_new: "any_inv s \<Longrightarrow> any_rest s = any_whole s \<Longrightarrow> ib_inv (any_whole s) (IOStreamInputBuf_new s)"
  by (simp add: ib_inv_def IOStreamInputBuf_new_def)

lemma underflow_ok:
  assumes "ib_inv whole b"
  shows "\<exists>b'. IOStreamInputBuf_underflow any_methods b = Some (Inr (case ib_rest b of [] \<Rightarrow> None | c # _ \<Rightarrow> Some c), b')
     \<and> ib_rest b' = ib_rest b \<and> ib_inv whole b' \<and> (ib_rest b \<noteq> [] \<longrightarrow> ib_get b' \<noteq> [])"
proof (cases "ib_get b")
  case (Cons c cs)
  then show ?thesis using assms by (simp add: IOStreamInputBuf_underflow_def ib_rest_def)
next
  case Nil
  have inv: "any_inv (ib_stream b)" "any_whole (ib_stream b) = whole" using assms by (simp_all add: ib_inv_def)
  obtain s' where s': "is_read any_methods 8192 (ib_stream b) = Some (Inr (take 8192 (any_rest (ib_stream b))), s')"
    "any_rest s' = drop 8192 (any_rest (ib_stream b))" "any_inv s'" "any_whole s' = whole"
    using any_read_ok [OF inv(1), of 8192] inv(2) by auto
  have z: "on_ib_stream (is_read any_methods 8192) b = Some (Inr (take 8192 (any_rest (ib_stream b))), b\<lparr>ib_stream := s'\<rparr>)"
    using s'(1) by (simp add: on_ib_stream_def)
  show ?thesis
  proof (cases "any_rest (ib_stream b)")
    case Nil
    with \<open>ib_get b = []\<close> z s' assms show ?thesis
      by (intro exI [of _ "b\<lparr>ib_stream := s'\<rparr>"]) (simp add: IOStreamInputBuf_underflow_def ib_rest_def ib_inv_def)
  next
    case (Cons c cs)
    with \<open>ib_get b = []\<close> z s' assms show ?thesis
      by (intro exI [of _ "b\<lparr>ib_stream := s', ib_offset := ib_offset b + int (length (take 8192 (any_rest (ib_stream b)))),
            ib_get := take 8192 (any_rest (ib_stream b))\<rparr>"])
        (auto simp: IOStreamInputBuf_underflow_def ib_rest_def ib_inv_def min_def)
  qed
qed

lemma sgetn_ok:
  "ib_inv whole b \<Longrightarrow> \<exists>b'. streambuf_sgetn any_methods n b = Some (Inr (take n (ib_rest b)), b') \<and> ib_rest b' = drop n (ib_rest b) \<and> ib_inv whole b'"
proof (induction n arbitrary: b)
  case (Suc n)
  obtain b1 where b1: "IOStreamInputBuf_underflow any_methods b = Some (Inr (case ib_rest b of [] \<Rightarrow> None | c # _ \<Rightarrow> Some c), b1)"
    "ib_rest b1 = ib_rest b" "ib_inv whole b1" "ib_rest b \<noteq> [] \<Longrightarrow> ib_get b1 \<noteq> []" using underflow_ok [OF Suc.prems] by blast
  let ?b = "b1\<lparr>ib_get := tl (ib_get b1)\<rparr>"
  have inv: "ib_inv whole ?b" using b1(3) by (simp add: ib_inv_def)
  have bump: "streambuf_sbumpc any_methods b = Some (Inr (case ib_rest b of [] \<Rightarrow> None | c # _ \<Rightarrow> Some c), ?b)"
    using b1(1) by (simp add: streambuf_sbumpc_def)
  show ?case
  proof (cases "ib_rest b")
    case Nil
    then have "ib_rest ?b = []" using b1(2) by (simp add: ib_rest_def)
    with Nil bump inv show ?thesis by simp
  next
    case (Cons c cs)
    then have rest: "ib_rest ?b = cs" using b1(2,4) by (cases "ib_get b1") (simp_all add: ib_rest_def)
    from Suc.IH [OF inv] obtain b2 where "streambuf_sgetn any_methods n ?b = Some (Inr (take n cs), b2)" "ib_rest b2 = drop n cs" "ib_inv whole b2"
      unfolding rest by blast
    then show ?thesis using bump Cons by simp
  qed
qed simp

lemma seek_cur_ok: "ib_inv whole b \<Longrightarrow>
   IOStreamInputBuf_seekoff any_methods 0 seek_cur True b = Some (Inr (int (length whole) - int (length (ib_rest b))), b)"
  by (simp add: IOStreamInputBuf_seekoff_def ib_inv_def ib_rest_def)

lemma seek_end_ok:
  assumes "any_inv (ib_stream b)"
  shows "IOStreamInputBuf_seekoff any_methods 0 seek_end True b =
     Some (Inr (int (length (any_whole (ib_stream b)))), b\<lparr>ib_offset := int (length (any_whole (ib_stream b))), ib_get := []\<rparr>)"
  using any_size_ok [OF assms] by (simp add: IOStreamInputBuf_seekoff_def on_ib_stream_def)

lemma seek_beg_ok:
  assumes "any_inv (ib_stream b)" and "any_whole (ib_stream b) = whole"
  shows "\<exists>b'. IOStreamInputBuf_seekoff any_methods 0 seek_beg True b = Some (Inr 0, b') \<and> ib_rest b' = whole \<and> ib_inv whole b'"
proof -
  obtain s' where "is_rewind any_methods (ib_stream b) = Some (Inr (), s')" "any_rest s' = whole" "any_whole s' = whole" "any_inv s'"
    using any_rewind_ok(2) [OF assms(1)] assms(2) by blast
  with any_rewind_ok(1) [OF assms(1)] show ?thesis
    by (intro exI [of _ "b\<lparr>ib_offset := 0, ib_stream := s', ib_get := []\<rparr>"])
      (simp add: IOStreamInputBuf_seekoff_def on_ib_stream_def zoom_io_def ib_rest_def ib_inv_def seq_io_def bind_io_def)
qed

section \<open>Writing through the buffer\<close>

definition ob_written :: "TempFileStream IOStreamOutputBuf \<Rightarrow> bytes" where
  "ob_written b = tmp_written (ob_stream b) @ ob_put b"

definition ob_inv :: "nat \<Rightarrow> TempFileStream IOStreamOutputBuf \<Rightarrow> bool" where
  "ob_inv k b \<longleftrightarrow> length (ob_put b) \<le> 8192 \<and> tmp_room (ob_stream b) (length (ob_put b) + k)"

lemma sync_ok:
  assumes "ob_inv k b"
  shows "\<exists>b'. IOStreamOutputBuf_sync TempFileStream_write b = Some (Inr 0, b') \<and> ob_written b' = ob_written b \<and> ob_put b' = [] \<and> ob_inv k b'"
proof (cases "ob_put b = []")
  case True
  then show ?thesis using assms by (simp add: IOStreamOutputBuf_sync_def)
next
  case False
  have room: "tmp_room (ob_stream b) (length (ob_put b) + k)" using assms by (simp add: ob_inv_def)
  then have "tmp_room (ob_stream b) (length (ob_put b))" by (rule tmp_out.room_mono) simp
  then obtain t' where "TempFileStream_write (ob_put b) (ob_stream b) = Some (Inr (), t')" "tmp_written t' = tmp_written (ob_stream b) @ ob_put b" "tmp_room t' k"
    using tmp_out.write_ok [of "ob_stream b" "ob_put b"] room by blast
  with False show ?thesis
    by (intro exI [of _ "b\<lparr>ob_stream := t', ob_put := []\<rparr>"]) (simp add: IOStreamOutputBuf_sync_def ob_written_def ob_inv_def)
qed

lemma sputc_ok:
  assumes "ob_inv (Suc k) b"
  shows "\<exists>b'. streambuf_sputc TempFileStream_write x b = Some (Inr (), b') \<and> ob_written b' = ob_written b @ [x] \<and> ob_inv k b'"
proof (cases "length (ob_put b) < 8192")
  case True
  then show ?thesis using assms by (simp add: streambuf_sputc_def ob_written_def ob_inv_def)
next
  case False
  then have full: "length (ob_put b) = 8192" using assms by (simp add: ob_inv_def)
  obtain b1 where b1: "IOStreamOutputBuf_sync TempFileStream_write b = Some (Inr 0, b1)" "ob_written b1 = ob_written b" "ob_put b1 = []" "ob_inv (Suc k) b1"
    using sync_ok [OF assms] by blast
  with full show ?thesis
    by (intro exI [of _ "b1\<lparr>ob_put := [x]\<rparr>"])
      (simp add: streambuf_sputc_def IOStreamOutputBuf_overflow_def ob_written_def ob_inv_def)
qed

lemma sputn_ok:
  "ob_inv (length bs + k) b \<Longrightarrow>
   \<exists>b'. streambuf_sputn TempFileStream_write bs b = Some (Inr (), b') \<and> ob_written b' = ob_written b @ bs \<and> ob_inv k b'"
proof (induction bs arbitrary: b)
  case (Cons x bs)
  have "ob_inv (Suc (length bs + k)) b" using Cons.prems by simp
  then obtain b1 where b1: "streambuf_sputc TempFileStream_write x b = Some (Inr (), b1)" "ob_written b1 = ob_written b @ [x]" "ob_inv (length bs + k) b1"
    using sputc_ok by blast
  from Cons.IH [OF b1(3)] b1(1,2) show ?case by (auto simp: streambuf_sputn_def)
qed (simp add: streambuf_sputn_def)

lemma sputn_small:
  "length (ob_put b) + length bs \<le> 8192 \<Longrightarrow> streambuf_sputn wr bs b = Some (Inr (), b\<lparr>ob_put := ob_put b @ bs\<rparr>)"
proof (induction bs arbitrary: b)
  case (Cons x bs)
  have "streambuf_sputc wr x b = Some (Inr (), b\<lparr>ob_put := ob_put b @ [x]\<rparr>)" using Cons.prems by (simp add: streambuf_sputc_def)
  with Cons.IH [of "b\<lparr>ob_put := ob_put b @ [x]\<rparr>"] Cons.prems show ?case by (simp add: streambuf_sputn_def)
qed (simp add: streambuf_sputn_def)

section \<open>Transfers\<close>

text \<open>A download from the library's side, as long as nobody cancels it: the writes and flushes on the stream buffer, in order, and the status it
  ends with.\<close>

inductive download_run :: "'w aws \<Rightarrow> 'w \<Rightarrow> transfer_action list \<Rightarrow> TransferStatus \<Rightarrow> 'w \<Rightarrow> bool" for A where
  d_done: "transfer_next A w = (TDone status, w') \<Longrightarrow> download_run A w [] status w'"
| d_progress: "transfer_next A w = (TProgress n m, w1) \<Longrightarrow> download_run A w1 acts status w' \<Longrightarrow> download_run A w acts status w'"
| d_write: "transfer_next A w = (TWrite bs, w1) \<Longrightarrow> download_run A (transfer_answered A (Wrote True) w1) acts status w' \<Longrightarrow>
    download_run A w (TWrite bs # acts) status w'"
| d_sync: "transfer_next A w = (TSync, w1) \<Longrightarrow> download_run A (transfer_answered A (Synced True) w1) acts status w' \<Longrightarrow>
    download_run A w (TSync # acts) status w'"

fun sent :: "transfer_action list \<Rightarrow> bytes" where
  "sent [] = []"
| "sent (TWrite bs # acts) = bs @ sent acts"
| "sent (_ # acts) = sent acts"

text \<open>Whether something was written after the last flush.\<close>

fun pending :: "bool \<Rightarrow> transfer_action list \<Rightarrow> bool" where
  "pending d [] = d"
| "pending d (TWrite _ # acts) = pending True acts"
| "pending d (TSync # acts) = pending False acts"
| "pending d (_ # acts) = pending d acts"

lemma pending_mono: "\<not> pending True acts \<Longrightarrow> \<not> pending d acts"
  by (induction d acts rule: pending.induct) (auto split: if_splits)

lemma run_download_ok:
  assumes "quiet pr"
  shows "download_run A w acts status w' \<Longrightarrow> ob_inv (length (sent acts) + k) b \<Longrightarrow>
    \<exists>p' b'. run_download A TempFileStream_write pr (w, p, b) = Some (status, w', p', b') \<and> ob_written b' = ob_written b @ sent acts \<and> ob_inv k b'
      \<and> (\<not> pending (ob_put b \<noteq> []) acts \<longrightarrow> ob_put b' = [])
      \<and> (TSync \<notin> set acts \<and> length (ob_put b) + length (sent acts) \<le> 8192 \<longrightarrow> ob_put b' = ob_put b @ sent acts)"
proof (induction arbitrary: b p rule: download_run.induct)
  case (d_done w status w')
  then show ?case by (simp add: run_download.simps [of A])
next
  case (d_progress w n m w1 acts status w')
  obtain p1 where p1: "pr n m p = (True, p1)" using assms unfolding quiet_def by (metis prod.collapse)
  from d_progress.IH [OF d_progress.prems, of p1] d_progress.hyps(1) p1 show ?case by (simp add: run_download.simps [of A])
next
  case (d_write w bs w1 acts status w')
  have "ob_inv (length bs + (length (sent acts) + k)) b" using d_write.prems by (simp add: add.assoc)
  then obtain b1 where b1: "streambuf_sputn TempFileStream_write bs b = Some (Inr (), b1)" "ob_written b1 = ob_written b @ bs"
    "ob_inv (length (sent acts) + k) b1" using sputn_ok by blast
  have small: "length (ob_put b) + length bs \<le> 8192 \<Longrightarrow> ob_put b1 = ob_put b @ bs"
    using sputn_small [of b bs TempFileStream_write] b1(1) by simp
  from d_write.IH [OF b1(3), of p] d_write.hyps(1) b1(1,2) small show ?case
    using pending_mono [of acts] by (auto simp: run_download.simps [of A _ _ "(w, p, b)"])
next
  case (d_sync w w1 acts status w')
  then obtain b1 where b1: "IOStreamOutputBuf_sync TempFileStream_write b = Some (Inr 0, b1)" "ob_written b1 = ob_written b" "ob_put b1 = []"
    "ob_inv (length (sent acts) + k) b1" using sync_ok [of "length (sent acts) + k" b] by auto
  from d_sync.IH [OF b1(4), of p] d_sync.hyps(1) b1(1-3) show ?case by (auto simp: run_download.simps [of A _ _ "(w, p, b)"])
qed

text \<open>C36. \<^verbatim>\<open>get\<close> from a bucket returns normally exactly when the transfer completes. Of the bytes the library writes, in pieces of any sizes, all
  but at most 8192 have reached the output stream, in order; all of them when the library flushes its stream after the last write. \<^verbatim>\<open>get\<close>
  itself never flushes the buffer: without a flush of the library an object of up to 8192 bytes leaves the output stream as it was.\<close>

theorem s3_get_delivers:
  assumes "download_run A (DownloadFile A bucket path w) acts status w'" and "quiet pr" and "tmp_room t (length (sent acts))"
  shows "\<exists>p' t' lost. AwsS3DataStore_get A bucket path pr (w, p, t)
         = Some (if status = COMPLETED then Inr () else Inl FileIOException, (w', p', t'))
     \<and> tmp_written t' @ lost = tmp_written t @ sent acts \<and> length lost \<le> 8192 \<and> (\<not> pending False acts \<longrightarrow> lost = [])
     \<and> (TSync \<notin> set acts \<and> length (sent acts) \<le> 8192 \<longrightarrow> tmp_written t' = tmp_written t)"
proof -
  have "ob_inv (length (sent acts) + 0) (IOStreamOutputBuf_new t)" using assms(3) by (simp add: ob_inv_def IOStreamOutputBuf_new_def)
  from run_download_ok [OF assms(2,1) this, of p] obtain p' b'
    where b': "run_download A TempFileStream_write pr (DownloadFile A bucket path w, p, IOStreamOutputBuf_new t) = Some (status, w', p', b')"
      "ob_written b' = tmp_written t @ sent acts" "ob_inv 0 b'" "\<not> pending False acts \<longrightarrow> ob_put b' = []"
      "TSync \<notin> set acts \<and> length (sent acts) \<le> 8192 \<longrightarrow> ob_put b' = sent acts"
    by (auto simp: IOStreamOutputBuf_new_def ob_written_def)
  then show ?thesis
    by (intro exI [of _ p'] exI [of _ "ob_stream b'"] exI [of _ "ob_put b'"]) (auto simp: AwsS3DataStore_get_def ob_written_def ob_inv_def)
qed

text \<open>An upload from the library's side: it reads from a stream \<open>whole\<close> of which \<open>rest\<close> is left, asks for its position, measures it by going to the
  end and back, starts again, and has got \<open>got\<close> when it ends.\<close>

inductive upload_run :: "'w aws \<Rightarrow> bytes \<Rightarrow> bytes \<Rightarrow> 'w \<Rightarrow> bytes \<Rightarrow> TransferStatus \<Rightarrow> 'w \<Rightarrow> bool" for A whole where
  u_done: "transfer_next A w = (TDone status, w') \<Longrightarrow> upload_run A whole rest w [] status w'"
| u_progress: "transfer_next A w = (TProgress n m, w1) \<Longrightarrow> upload_run A whole rest w1 got status w' \<Longrightarrow> upload_run A whole rest w got status w'"
| u_read: "transfer_next A w = (TRead n, w1) \<Longrightarrow> upload_run A whole (drop n rest) (transfer_answered A (Got (Some (take n rest))) w1) got status w' \<Longrightarrow>
    upload_run A whole rest w (take n rest @ got) status w'"
| u_tell: "transfer_next A w = (TSeek 0 seek_cur, w1) \<Longrightarrow>
    upload_run A whole rest (transfer_answered A (Position (int (length whole) - int (length rest))) w1) got status w' \<Longrightarrow> upload_run A whole rest w got status w'"
| u_again: "transfer_next A w = (TSeek 0 seek_beg, w1) \<Longrightarrow> upload_run A whole whole (transfer_answered A (Position 0) w1) got status w' \<Longrightarrow>
    upload_run A whole rest w got status w'"
| u_measure: "transfer_next A w = (TSeek 0 seek_end, w1) \<Longrightarrow>
    transfer_next A (transfer_answered A (Position (int (length whole))) w1) = (TSeek 0 seek_beg, w2) \<Longrightarrow>
    upload_run A whole whole (transfer_answered A (Position 0) w2) got status w' \<Longrightarrow> upload_run A whole rest w got status w'"

lemma run_upload_ok:
  assumes "quiet pr"
  shows "upload_run A whole rest w got status w' \<Longrightarrow> ib_inv whole b \<Longrightarrow> ib_rest b = rest \<Longrightarrow>
    \<exists>p' b'. run_upload A any_methods pr (w, p, b) = Some (status, w', p', b')"
proof (induction arbitrary: b p rule: upload_run.induct)
  case (u_done w status w' rest)
  then show ?case by (simp add: run_upload.simps [of A])
next
  case (u_progress w n m w1 rest got status w')
  obtain p1 where p1: "pr n m p = (True, p1)" using assms unfolding quiet_def by (metis prod.collapse)
  from u_progress.IH [OF u_progress.prems, of p1] u_progress.hyps(1) p1 show ?case by (simp add: run_upload.simps [of A _ _ "(w, p, b)"])
next
  case (u_read w n w1 rest got status w')
  obtain b1 where b1: "streambuf_sgetn any_methods n b = Some (Inr (take n rest), b1)" "ib_rest b1 = drop n rest" "ib_inv whole b1"
    using sgetn_ok [OF u_read.prems(1), of n] u_read.prems(2) by auto
  from u_read.IH [OF b1(3,2), of p] u_read.hyps(1) b1(1) show ?case by (simp add: run_upload.simps [of A _ _ "(w, p, b)"])
next
  case (u_tell w w1 rest got status w')
  from u_tell.IH [OF u_tell.prems, of p] u_tell.hyps(1) seek_cur_ok [OF u_tell.prems(1)] u_tell.prems(2) show ?case
    by (simp add: run_upload.simps [of A _ _ "(w, p, b)"])
next
  case (u_again w w1 got status w' rest)
  obtain b1 where b1: "IOStreamInputBuf_seekoff any_methods 0 seek_beg True b = Some (Inr 0, b1)" "ib_rest b1 = whole" "ib_inv whole b1"
    using seek_beg_ok [of b whole] u_again.prems(1) by (auto simp: ib_inv_def)
  from u_again.IH [OF b1(3,2), of p] u_again.hyps(1) b1(1) show ?case by (simp add: run_upload.simps [of A _ _ "(w, p, b)"])
next
  case (u_measure w w1 w2 got status w' rest)
  have s: "any_inv (ib_stream b)" "any_whole (ib_stream b) = whole" using u_measure.prems(1) by (simp_all add: ib_inv_def)
  let ?b = "b\<lparr>ib_offset := int (length whole), ib_get := []\<rparr>" and ?w = "transfer_answered A (Position (int (length whole))) w1"
  have e: "IOStreamInputBuf_seekoff any_methods 0 seek_end True b = Some (Inr (int (length whole)), ?b)" using seek_end_ok [OF s(1)] s(2) by simp
  obtain b1 where b1: "IOStreamInputBuf_seekoff any_methods 0 seek_beg True ?b = Some (Inr 0, b1)" "ib_rest b1 = whole" "ib_inv whole b1"
    using seek_beg_ok [of ?b whole] s by auto
  have "run_upload A any_methods pr (w, p, b) = run_upload A any_methods pr (?w, p, ?b)"
    using u_measure.hyps(1) e by (simp add: run_upload.simps [of A _ _ "(w, p, b)"])
  also have "\<dots> = run_upload A any_methods pr (transfer_answered A (Position 0) w2, p, b1)"
    using u_measure.hyps(2) b1(1) by (simp add: run_upload.simps [of A _ _ "(?w, p, ?b)"])
  finally show ?case using u_measure.IH [OF b1(3,2), of p] by simp
qed

lemma any_read_frame: "input_stream (is_read any_methods) any_rest (\<lambda>s. any_inv s \<and> any_whole s = whole)"
  by unfold_locales (use any_read_ok in blast)

lemma put_md5_ok:
  assumes "any_inv s" and "digest_ok E D"
  shows "\<exists>s'. put_md5 E s = Some (Inr (D (any_whole s)), s') \<and> any_rest s' = any_whole s \<and> any_whole s' = any_whole s \<and> any_inv s'"
proof -
  obtain s1 where s1: "is_rewind any_methods s = Some (Inr (), s1)" "any_rest s1 = any_whole s" "any_whole s1 = any_whole s" "any_inv s1"
    using any_rewind_ok(2) [OF assms(1)] by blast
  have feed: "digest_updates E c xs = Some c' \<Longrightarrow> feed (md5_body E) xs c = Some (Inr (), c')" for xs c c'
    by (induction xs arbitrary: c) (auto simp: md5_body_def bind_io_def split: option.splits)
  obtain c c' where c: "EVP_DigestInit E = Some c" "digest_updates E c (chunks 8192 (any_rest s1)) = Some c'"
    "EVP_DigestFinal E c' = Some (D (any_whole s))"
    by (rule digest_of_Some [OF assms(2), of "chunks 8192 (any_rest s1)"]) (simp add: concat_chunks s1(2))
  obtain s2 where s2: "read_each (is_read any_methods) 8192 (md5_body E) (s1, c) = Some (Inr (), (s2, c'))" "any_whole s2 = any_whole s" "any_inv s2"
    using input_stream.read_each_ok [OF any_read_frame, of s1 "any_whole s" 8192 "md5_body E" c c'] feed [OF c(2)] s1(3,4) by auto
  obtain s3 where "is_rewind any_methods s2 = Some (Inr (), s3)" "any_rest s3 = any_whole s" "any_whole s3 = any_whole s" "any_inv s3"
    using any_rewind_ok(2) [OF s2(3)] s2(2) by auto
  with s1(1) s2(1) c(1,3) show ?thesis by (simp add: put_md5_def)
qed

lemma put_metadata_ok:
  assumes "any_inv s" and "digest_ok E D"
  shows "\<exists>s'. put_metadata A E s = Some (Inr [''Content-Length'' \<mapsto> to_string (int (length (any_whole s))), ''Content-MD5'' \<mapsto> Base64Encode A (D (any_whole s))], s')
     \<and> any_rest s' = any_whole s \<and> any_whole s' = any_whole s \<and> any_inv s'"
  using any_size_ok [OF assms(1)] any_rewind_ok(1) [OF assms(1)] put_md5_ok [OF assms] by (auto simp: put_metadata_def)


section \<open>A bucket\<close>

text \<open>A bucket in memory, for the examples. An upload measures the stream, reads it in pieces of two bytes and stores it; a download writes one
  byte after the other and flushes at the end.\<close>

datatype mem_transfer = Idle | Measure string | Return string | Reading string bytes | Writing bytes | Finished TransferStatus

record mem_bucket =
  mb_objects :: "(string \<times> bytes) list"
  mb_transfer :: mem_transfer

definition mem_next :: "mem_bucket \<Rightarrow> transfer_action \<times> mem_bucket" where
  "mem_next m = (case mb_transfer m of
       Idle \<Rightarrow> (TDone FAILED, m)
     | Measure q \<Rightarrow> (TSeek 0 seek_end, m)
     | Return q \<Rightarrow> (TSeek 0 seek_beg, m)
     | Reading q bs \<Rightarrow> (TRead 2, m)
     | Writing bs \<Rightarrow> (case bs of [] \<Rightarrow> (TSync, m\<lparr>mb_transfer := Finished COMPLETED\<rparr>) | c # cs \<Rightarrow> (TWrite [c], m\<lparr>mb_transfer := Writing cs\<rparr>))
     | Finished status \<Rightarrow> (TDone status, m\<lparr>mb_transfer := Idle\<rparr>))"

definition mem_answered :: "transfer_answer \<Rightarrow> mem_bucket \<Rightarrow> mem_bucket" where
  "mem_answered a m = (case (mb_transfer m, a) of
       (Measure q, Position n) \<Rightarrow> m\<lparr>mb_transfer := Return q\<rparr>
     | (Return q, Position n) \<Rightarrow> m\<lparr>mb_transfer := Reading q []\<rparr>
     | (Reading q bs, Got (Some xs)) \<Rightarrow>
         if xs = [] then m\<lparr>mb_objects := (q, bs) # mb_objects m, mb_transfer := Finished COMPLETED\<rparr>
         else m\<lparr>mb_transfer := Reading q (bs @ xs)\<rparr>
     | (Reading q bs, Got None) \<Rightarrow> m\<lparr>mb_transfer := Finished FAILED\<rparr>
     | _ \<Rightarrow> m)"

definition mem_s3 :: "mem_bucket aws" where
  "mem_s3 =
     \<lparr>InitAPI = id, MakeClient = (\<lambda>_ _. id), HeadObject = (\<lambda>b q m. (map_of (mb_objects m) q \<noteq> None, m)),
      DeleteObject = (\<lambda>b q m. (True, m\<lparr>mb_objects := filter (\<lambda>e. fst e \<noteq> q) (mb_objects m)\<rparr>)),
      DownloadFile = (\<lambda>b q m. m\<lparr>mb_transfer := (case map_of (mb_objects m) q of None \<Rightarrow> Finished FAILED | Some d \<Rightarrow> Writing d)\<rparr>),
      UploadFile = (\<lambda>b q ct meta m. m\<lparr>mb_transfer := Measure q\<rparr>),
      transfer_next = mem_next, transfer_answered = mem_answered, Cancel = (\<lambda>m. m\<lparr>mb_transfer := Finished CANCELED\<rparr>),
      Base64Encode = map (\<lambda>x. char_of (unat x))\<rparr>"

lemma mem_s3_sel [simp]:
  "DownloadFile mem_s3 b q m = m\<lparr>mb_transfer := (case map_of (mb_objects m) q of None \<Rightarrow> Finished FAILED | Some d \<Rightarrow> Writing d)\<rparr>"
  "UploadFile mem_s3 b q ct meta m = m\<lparr>mb_transfer := Measure q\<rparr>" "transfer_next mem_s3 = mem_next" "transfer_answered mem_s3 = mem_answered"
  by (simp_all add: mem_s3_def)

lemma mem_reading: "\<exists>m'. upload_run mem_s3 whole rest (m\<lparr>mb_transfer := Reading q bs\<rparr>) rest COMPLETED m' \<and> mb_objects m' = (q, bs @ rest) # mb_objects m
   \<and> mb_transfer m' = Idle"
proof (induction "length rest" arbitrary: rest bs rule: less_induct)
  case less
  let ?m = "m\<lparr>mb_transfer := Reading q bs\<rparr>"
  have nxt: "transfer_next mem_s3 ?m = (TRead 2, ?m)" by (simp add: mem_next_def)
  show ?case
  proof (cases "rest = []")
    case True
    let ?e = "m\<lparr>mb_objects := (q, bs) # mb_objects m, mb_transfer := Finished COMPLETED\<rparr>"
    have "upload_run mem_s3 whole (drop 2 rest) ?e [] COMPLETED (?e\<lparr>mb_transfer := Idle\<rparr>)" by (rule u_done) (simp add: mem_next_def)
    then have "upload_run mem_s3 whole (drop 2 rest) (transfer_answered mem_s3 (Got (Some (take 2 rest))) ?m) [] COMPLETED (?e\<lparr>mb_transfer := Idle\<rparr>)"
      using True by (simp add: mem_answered_def)
    from u_read [OF nxt this] True show ?thesis by (intro exI [of _ "?e\<lparr>mb_transfer := Idle\<rparr>"]) simp
  next
    case False
    then have "length (drop 2 rest) < length rest" by (cases rest) auto
    from less [OF this, of "bs @ take 2 rest"] obtain m' where
      m': "upload_run mem_s3 whole (drop 2 rest) (m\<lparr>mb_transfer := Reading q (bs @ take 2 rest)\<rparr>) (drop 2 rest) COMPLETED m'"
        "mb_objects m' = (q, bs @ rest) # mb_objects m" "mb_transfer m' = Idle" by auto
    have "transfer_answered mem_s3 (Got (Some (take 2 rest))) ?m = m\<lparr>mb_transfer := Reading q (bs @ take 2 rest)\<rparr>"
      using False by (simp add: mem_answered_def)
    with u_read [OF nxt, of whole rest] m' show ?thesis by (intro exI [of _ m']) (metis append_take_drop_id)
  qed
qed

lemma mem_uploads: "\<exists>m'. upload_run mem_s3 whole whole (m\<lparr>mb_transfer := Measure q\<rparr>) whole COMPLETED m' \<and> mb_objects m' = (q, whole) # mb_objects m
   \<and> mb_transfer m' = Idle"
proof -
  obtain m' where m': "upload_run mem_s3 whole whole (m\<lparr>mb_transfer := Reading q []\<rparr>) whole COMPLETED m'" "mb_objects m' = (q, whole) # mb_objects m"
    "mb_transfer m' = Idle" using mem_reading [where whole = whole and rest = whole and m = m and q = q and bs = "[]"] by auto
  have "upload_run mem_s3 whole whole (m\<lparr>mb_transfer := Measure q\<rparr>) whole COMPLETED m'"
    by (rule u_measure [of _ _ "m\<lparr>mb_transfer := Measure q\<rparr>" _ "m\<lparr>mb_transfer := Return q\<rparr>"])
      (use m'(1) in \<open>simp_all add: mem_next_def mem_answered_def\<close>)
  with m'(2,3) show ?thesis by blast
qed

lemma mem_downloads: "download_run mem_s3 (m\<lparr>mb_transfer := Writing bs\<rparr>) (map (\<lambda>c. TWrite [c]) bs @ [TSync]) COMPLETED (m\<lparr>mb_transfer := Idle\<rparr>)"
proof (induction bs)
  case Nil
  have "download_run mem_s3 (m\<lparr>mb_transfer := Finished COMPLETED\<rparr>) [] COMPLETED (m\<lparr>mb_transfer := Idle\<rparr>)" by (rule d_done) (simp add: mem_next_def)
  then have "download_run mem_s3 (m\<lparr>mb_transfer := Writing []\<rparr>) [TSync] COMPLETED (m\<lparr>mb_transfer := Idle\<rparr>)"
    by (intro d_sync [of _ "m\<lparr>mb_transfer := Writing []\<rparr>" "m\<lparr>mb_transfer := Finished COMPLETED\<rparr>"]) (simp_all add: mem_next_def mem_answered_def)
  then show ?case by simp
next
  case (Cons c cs)
  then have "download_run mem_s3 (m\<lparr>mb_transfer := Writing (c # cs)\<rparr>) (TWrite [c] # map (\<lambda>c. TWrite [c]) cs @ [TSync]) COMPLETED (m\<lparr>mb_transfer := Idle\<rparr>)"
    by (intro d_write [of _ "m\<lparr>mb_transfer := Writing (c # cs)\<rparr>" _ "m\<lparr>mb_transfer := Writing cs\<rparr>"]) (simp_all add: mem_next_def mem_answered_def)
  then show ?case by simp
qed

theorem s3_get_delivers_witness:
  "\<exists>p' t'. AwsS3DataStore_get mem_s3 ''b'' ''/key'' DefaultProgressFunction (\<lparr>mb_objects = [(''/key'', [1, 2, 3])], mb_transfer = Idle\<rparr>, (), TempFileStream_new empty_disk)
       = Some (Inr (), (\<lparr>mb_objects = [(''/key'', [1, 2, 3])], mb_transfer = Idle\<rparr>, p', t')) \<and> tmp_written t' = [1, 2, 3]"
proof -
  let ?m = "\<lparr>mb_objects = [(''/key'', [1, 2, 3])], mb_transfer = Idle\<rparr>" and ?a = "map (\<lambda>c. TWrite [c]) [1, 2, 3] @ [TSync]"
  have "DownloadFile mem_s3 ''b'' ''/key'' ?m = ?m\<lparr>mb_transfer := Writing [1, 2, 3]\<rparr>" by simp
  with mem_downloads [where m = ?m and bs = "[1, 2, 3]"] have d: "download_run mem_s3 (DownloadFile mem_s3 ''b'' ''/key'' ?m) ?a COMPLETED ?m" by simp
  have room: "tmp_room (TempFileStream_new empty_disk) (length (sent ?a))" by (rule tmp_room_free [OF empty_disk_free])
  from s3_get_delivers [OF d quiet_default room, of "()"] show ?thesis by auto
qed


end
