(* ===== verification/Console.thy ===== *)
theory Console
  imports S3_Data_Store Snapshots
begin

text \<open>
  The parts of \<^verbatim>\<open>cli/Main.cpp\<close> that talk to the user: the options, the prompts for passwords and keys, and the display of the progress.
  The console is the terminal with its standard streams; the calls of the system the program makes beside the file system, the clock, signals,
  the environment and the output of floating point numbers, are the record \<open>sys\<close>.
\<close>

section \<open>The console\<close>

record console =
  co_in :: string
  co_out :: string
  co_err :: string
  co_echo :: bool
  co_last :: int
  co_ticks :: nat

text \<open>\<open>sy_sig n\<close> tells whether a signal arrives between the looks number \<open>n - 1\<close> and \<open>n\<close> at the system, and \<open>sy_time n\<close> the time at look \<open>n\<close>. \<open>sy_div2 a b\<close> is what
  \<^verbatim>\<open>%.2f\<close> prints of the quotient of two numbers in floating point. \<open>sy_relative\<close> is \<^verbatim>\<open>boost::filesystem::relative\<close>, which depends on the
  working directory and on symbolic links, and \<open>sy_what\<close> the message of an exception, which the exceptions of this development do not carry.\<close>

record sys =
  sy_getenv :: "string \<Rightarrow> string option"
  sy_time :: "nat \<Rightarrow> int"
  sy_sig :: "nat \<Rightarrow> bool"
  sy_div2 :: "int \<Rightarrow> int \<Rightarrow> string"
  sy_relative :: "string \<Rightarrow> string \<Rightarrow> exn + string"
  sy_what :: "exn \<Rightarrow> string"

text \<open>\<^verbatim>\<open>struct Options\<close>, and its constructor.\<close>

record Cli_Options =
  quiet_opt :: bool
  verify :: bool
  dryRun :: bool
  force :: bool
  backend :: string

definition Cli_Options_new :: Cli_Options where
  "Cli_Options_new = \<lparr>quiet_opt = False, verify = True, dryRun = False, force = False, backend = []\<rparr>"

abbreviation newline :: char where "newline \<equiv> CHR 0x0A"

definition put_str :: "string \<Rightarrow> (console, unit) io" where
  "put_str s = modify_io (\<lambda>c. c\<lparr>co_out := co_out c @ s\<rparr>)"

text \<open>\<^verbatim>\<open>sUserCancelled\<close>: the signal handler sets it at the first signal, and nothing resets it. A look at it, and \<^verbatim>\<open>time(nullptr)\<close>.\<close>

definition sUserCancelled :: "sys \<Rightarrow> nat \<Rightarrow> bool" where
  "sUserCancelled S n = list_ex (sy_sig S) [0..<Suc n]"

definition user_cancelled :: "sys \<Rightarrow> console \<Rightarrow> bool \<times> console" where
  "user_cancelled S c = (sUserCancelled S (co_ticks c), c\<lparr>co_ticks := Suc (co_ticks c)\<rparr>)"

definition time_now :: "sys \<Rightarrow> console \<Rightarrow> int \<times> console" where
  "time_now S c = (sy_time S (co_ticks c), c\<lparr>co_ticks := Suc (co_ticks c)\<rparr>)"

definition enableConsoleOutput :: "bool \<Rightarrow> (console, unit) io" where
  "enableConsoleOutput enable = modify_io (\<lambda>c. c\<lparr>co_echo := enable\<rparr>)"

section \<open>Prompts\<close>

text \<open>\<^verbatim>\<open>fgets\<close> into a buffer of \<open>n\<close> characters: at most \<open>n - 1\<close> characters, up to and including a newline; null at the end of the input.\<close>

fun read_line :: "nat \<Rightarrow> string \<Rightarrow> string" where
  "read_line (Suc n) (c # cs) = (if c = newline then [c] else c # read_line n cs)"
| "read_line _ _ = []"

definition fgets :: "nat \<Rightarrow> (console, string option) io" where
  "fgets n = (\<lambda>c. let line = read_line (n - 1) (co_in c) in
     if line = [] then Some (Inr None, c) else Some (Inr (Some line), c\<lparr>co_in := drop (length line) (co_in c)\<rparr>))"

text \<open>The loop \<^verbatim>\<open>while (passwd1[--n] == '\n') passwd1[n] = 0;\<close>. With \<open>n = 0\<close> the index wraps around and the access is outside the buffer.\<close>

fun trim_loop :: "nat \<Rightarrow> string \<Rightarrow> exn + string" where
  "trim_loop 0 buf = Inl UndefinedBehaviour"
| "trim_loop (Suc n) buf = (if buf ! n = newline then trim_loop n (buf[n := NUL]) else Inr buf)"

definition trim_newlines :: "string \<Rightarrow> exn + string" where
  "trim_newlines line = map_sum id cstr (trim_loop (length (cstr line)) (line @ [NUL]))"

definition prompt_line :: "string \<Rightarrow> (console, string) io" where
  "prompt_line prompt =
     seq_io (put_str prompt) (bind_io (fgets 64) (\<lambda>line. case line of
       None \<Rightarrow> throw_io InvalidDataException
     | Some l \<Rightarrow> seq_io (put_str [newline]) (return_io l)))"

text \<open>The destructor of \<^verbatim>\<open>onExit\<close> runs on every way out.\<close>

definition finally_io :: "('s, 'a) io \<Rightarrow> ('s \<Rightarrow> 's) \<Rightarrow> ('s, 'a) io" where
  "finally_io m f = (\<lambda>s. map_option (\<lambda>(r, s'). (r, f s')) (m s))"

definition promptReadPassword :: "bool \<Rightarrow> (console, string) io" where
  "promptReadPassword confirm =
     seq_io (enableConsoleOutput False) (finally_io
       (bind_io (prompt_line ''Password: '') (\<lambda>passwd1.
        seq_io (if confirm then
                  bind_io (prompt_line ''Confirm password: '') (\<lambda>passwd2.
                  if cstr passwd1 \<noteq> cstr passwd2 then throw_io InvalidDataException else return_io ())
                else return_io ())
          (lift_sum (trim_newlines passwd1))))
       (\<lambda>c. c\<lparr>co_echo := True\<rparr>))"

definition promptInput :: "string \<Rightarrow> bool \<Rightarrow> (console, string) io" where
  "promptInput prompt isPassword =
     seq_io (if isPassword then enableConsoleOutput False else return_io ()) (finally_io
       (bind_io (prompt_line (prompt @ '': '')) (\<lambda>inputString. lift_sum (trim_newlines inputString)))
       (\<lambda>c. if isPassword then c\<lparr>co_echo := True\<rparr> else c))"

section \<open>The display of the progress\<close>

definition pad_left :: "nat \<Rightarrow> string \<Rightarrow> string" where
  "pad_left n s = replicate (n - length s) CHR '' '' @ s"

definition pad_right :: "nat \<Rightarrow> string \<Rightarrow> string" where
  "pad_right n s = s @ replicate (n - length s) CHR '' ''"

text \<open>\<^verbatim>\<open>snprintf\<close> into a buffer of \<open>maxLen\<close> characters.\<close>

definition formatBytes :: "sys \<Rightarrow> int \<Rightarrow> nat \<Rightarrow> string" where
  "formatBytes S bytes maxLen = take (maxLen - 1)
     (if bytes < 1000 then to_string bytes @ '' b''
      else if bytes < 1000000 then sy_div2 S bytes 1000 @ '' KB''
      else if bytes < 1000000000 then sy_div2 S bytes 1000000 @ '' MB''
      else if bytes < 1000000000000 then sy_div2 S bytes 1000000000 @ '' GB''
      else sy_div2 S bytes 1000000000000 @ '' TB'')"

text \<open>The two loops that draw the bar; each gives the value of \<^verbatim>\<open>i\<close> it ends with.\<close>

function bar_loop :: "char \<Rightarrow> int \<Rightarrow> int \<Rightarrow> string \<times> int" where
  "bar_loop ch limit i = (if i < limit then (case bar_loop ch limit (i + 5) of (s, j) \<Rightarrow> (ch # s, j)) else ([], i))"
  by pat_completeness auto
termination
  by (relation "measure (\<lambda>(ch, limit, i). nat (limit - i))") auto

declare bar_loop.simps [simp del]

definition progress_bar :: "int \<Rightarrow> string" where
  "progress_bar percent = (case bar_loop CHR ''#'' percent 0 of (s, i) \<Rightarrow> s @ fst (bar_loop CHR '' '' 100 i))"

definition percent_of :: "int \<Rightarrow> int \<Rightarrow> int" where
  "percent_of bytesTransferred bytesTotal = (if 0 < bytesTotal then bytesTransferred * 100 div bytesTotal else 100)"

definition printProgress :: "sys \<Rightarrow> Cli_Options \<Rightarrow> int \<Rightarrow> int \<Rightarrow> int \<Rightarrow> int \<Rightarrow> int \<Rightarrow> console \<Rightarrow> console" where
  "printProgress S opts blockNo blockMax bytesTransferred bytesTotal startTime c =
     (if quiet_opt opts then c
      else
        (case time_now S c of (now, c') \<Rightarrow>
           let timeDelta = now - startTime;
               avgBytesPerSec = (if 0 < timeDelta then bytesTransferred div timeDelta else 0) in
           c'\<lparr>co_out := co_out c' @ ''  ''
             @ (if blockMax < 0 then ''# '' @ pad_left 7 (to_string (blockNo + 1))
                else ''# '' @ pad_left 3 (to_string (blockNo + 1)) @ ''/'' @ pad_right 3 (to_string blockMax))
             @ '' ['' @ progress_bar (percent_of bytesTransferred bytesTotal)
             @ ''] '' @ formatBytes S bytesTransferred 32 @ '' / '' @ formatBytes S bytesTotal 32
             @ ''  ('' @ formatBytes S avgBytesPerSec 32 @ ''/s)          '' @ [CHR 0x0D]\<rparr>))"

text \<open>The callback of an upload or a download; \<^verbatim>\<open>lastBlockNo\<close> is part of the console.\<close>

definition transfer_progress :: "sys \<Rightarrow> Cli_Options \<Rightarrow> int \<Rightarrow> int \<Rightarrow> int \<Rightarrow> console progress" where
  "transfer_progress S opts startTime blockNo blockMax bytes bytesTotal c =
     (let c1 = (if co_last c \<noteq> blockNo then c\<lparr>co_last := blockNo, co_out := co_out c @ [newline]\<rparr> else c);
          c2 = printProgress S opts blockNo blockMax bytes bytesTotal startTime c1;
          (cancelled, c3) = user_cancelled S c2 in
      (\<not> cancelled, c3))"

section \<open>Properties\<close>

lemma read_line_full:
  assumes "newline \<notin> set line" and "Suc (length line) \<le> n"
  shows "read_line n (line @ newline # rest) = line @ [newline]"
  using assms
proof (induction line arbitrary: n)
  case Nil
  then show ?case by (cases n) auto
next
  case (Cons a line)
  then show ?case by (cases n) auto
qed

lemma trim_newlines_line:
  assumes "line \<noteq> []" and "newline \<notin> set line" and "NUL \<notin> set line"
  shows "trim_newlines (line @ [newline]) = Inr line"
proof -
  obtain init c where l: "line = init @ [c]" using assms(1) by (cases line rule: rev_cases) auto
  have n: "cstr (line @ [newline]) = line @ [newline]" using assms(3) by (intro cstr_id) (auto simp: NUL_def)
  have "trim_loop (length (line @ [newline])) ((line @ [newline]) @ [NUL]) = Inr (line @ [NUL, NUL])"
    using assms(2) by (auto simp: l nth_append list_update_append)
  then show ?thesis using assms(3) by (simp add: trim_newlines_def n cstr_append_NUL)
qed

lemma prompt_line_ok:
  assumes "newline \<notin> set line" and "length line \<le> 62" and "co_in c = line @ newline # rest"
  shows "prompt_line prompt c = Some (Inr (line @ [newline]), c\<lparr>co_in := rest, co_out := co_out c @ prompt @ [newline]\<rparr>)"
  using read_line_full [OF assms(1), of 63 rest] assms(2,3)
  by (simp add: prompt_line_def put_str_def fgets_def)

lemma promptReadPassword_echo:
  "promptReadPassword confirm c = Some (r, c') \<Longrightarrow> co_echo c'"
  by (auto simp: promptReadPassword_def finally_io_def enableConsoleOutput_def)


definition sample_console :: "string \<Rightarrow> console" where
  "sample_console inp = \<lparr>co_in = inp, co_out = [], co_err = [], co_echo = True, co_last = 0, co_ticks = 0\<rparr>"


text \<open>An empty line instead of a password makes the loop that trims the newline run below the start of the buffer.\<close>

theorem empty_password_undefined:
  "\<exists>c'. promptReadPassword False (sample_console (newline # rest)) = Some (Inl UndefinedBehaviour, c')"
proof -
  have "prompt_line ''Password: '' ((sample_console (newline # rest))\<lparr>co_echo := False\<rparr>) = Some (Inr [newline],
      (sample_console (newline # rest))\<lparr>co_echo := False, co_in := rest, co_out := ''Password: '' @ [newline]\<rparr>)"
    using prompt_line_ok [of "[]" "(sample_console (newline # rest))\<lparr>co_echo := False\<rparr>" rest "''Password: ''"] by (simp add: sample_console_def)
  moreover have "trim_newlines [newline] = Inl UndefinedBehaviour" by (simp add: trim_newlines_def NUL_def cstr_def)
  ultimately show ?thesis by (simp add: promptReadPassword_def enableConsoleOutput_def finally_io_def)
qed

lemma bar_loop_eq: "i \<le> limit + 4 \<Longrightarrow> bar_loop ch limit i = (replicate (nat ((limit - i + 4) div 5)) ch, i + 5 * ((limit - i + 4) div 5))"
proof (induction ch limit i rule: bar_loop.induct)
  case (1 ch limit i)
  show ?case
  proof (cases "i < limit")
    case True
    have "(limit - i + 4) div 5 = (limit - (i + 5) + 4) div 5 + 1" "0 \<le> (limit - (i + 5) + 4) div 5" using True by auto
    then show ?thesis using 1 True by (subst bar_loop.simps) (simp add: nat_add_distrib algebra_simps)
  next
    case False
    with 1(2) have "(limit - i + 4) div 5 = 0" by auto
    then show ?thesis using False by (subst bar_loop.simps) simp
  qed
qed

text \<open>The progress bar is twenty characters wide as long as no more bytes have been transferred than there are: one \<^verbatim>\<open>#\<close> for every five
  percent that have been started, and blanks after them.\<close>

theorem progress_bar_width:
  assumes "0 \<le> bytesTransferred" and "bytesTransferred \<le> bytesTotal"
  shows "\<exists>k \<le> 20. progress_bar (percent_of bytesTransferred bytesTotal) = replicate k CHR ''#'' @ replicate (20 - k) CHR '' ''
     \<and> int k = (percent_of bytesTransferred bytesTotal + 4) div 5"
proof -
  let ?p = "percent_of bytesTransferred bytesTotal"
  have "0 < bytesTotal \<Longrightarrow> bytesTransferred * 100 div bytesTotal \<le> bytesTotal * 100 div bytesTotal"
    using assms by (intro zdiv_mono1) simp_all
  then have p: "0 \<le> ?p" "?p \<le> 100" using assms by (auto simp: percent_of_def pos_imp_zdiv_nonneg_iff)
  define k where "k = (?p + 4) div 5"
  have k: "0 \<le> k" "k \<le> 20" using p by (auto simp: k_def)
  have "(100 - 5 * k + 4) div 5 = 20 - k" by simp
  then have "progress_bar ?p = replicate (nat k) CHR ''#'' @ replicate (nat (20 - k)) CHR '' ''"
    using bar_loop_eq [of 0 ?p "CHR ''#''"] bar_loop_eq [of "5 * k" 100 "CHR '' ''"] p k
    by (simp add: progress_bar_def flip: k_def)
  with k show ?thesis by (intro exI [of _ "nat k"]) (auto simp: k_def nat_diff_distrib)
qed

theorem progress_bar_width_witness: "progress_bar (percent_of 1 3) = ''#######             ''"
proof -
  have p: "percent_of 1 3 = 33" by (simp add: percent_of_def)
  obtain k where k: "progress_bar 33 = replicate k CHR ''#'' @ replicate (20 - k) CHR '' ''" "int k = (33 + 4) div 5"
    using progress_bar_width [of 1 3] unfolding p by auto
  then have "k = 7" by simp
  then show ?thesis unfolding p k(1) by (simp add: numeral_eq_Suc)
qed

text \<open>Without a signal the callback never cancels.\<close>

lemma transfer_progress_quiet:
  assumes "\<forall>n. \<not> sy_sig S n"
  shows "quiet (transfer_progress S opts startTime blockNo blockMax)"
  using assms by (simp add: quiet_def transfer_progress_def user_cancelled_def sUserCancelled_def list_ex_iff Let_def)

end
