(* ===== verification/Command_Line.thy ===== *)
theory Command_Line
  imports Packs Console
begin

text \<open>
  \<^verbatim>\<open>cli/Main.cpp\<close>: the commands of the program over the console of \<^verbatim>\<open>Console\<close>, the repository and the two data stores the program can
  open. The state of the program is the disk, on which the store, the files to back up and the files to restore live, the world of the AWS library,
  the console and the random generator. What \<^verbatim>\<open>getopt_long\<close> finds in the arguments is an argument of \<^verbatim>\<open>main\<close>.
\<close>

section \<open>State\<close>

record ('e, 'dc, 'h, 'm, 'l, 'z, 'w) machine =
  m_env :: "('e, 'dc, 'h, 'm, 'l, 'z) env"
  m_sys :: sys
  m_aws :: "'w aws"
  m_tmp :: filesys
  m_log2 :: "nat \<Rightarrow> int"
  m_info :: "string \<Rightarrow> FileInfo"

record 'w cli =
  c_disk :: filesys
  c_aws :: 'w
  c_once :: bool
  c_con :: console
  c_rng :: rng

definition on_con :: "(console, 'a) io \<Rightarrow> ('w cli, 'a) io" where
  "on_con = zoom_io c_con (\<lambda>c s. s\<lparr>c_con := c\<rparr>)"

text \<open>A store on a part of the state.\<close>

definition lift_store :: "('d \<Rightarrow> 'e) \<Rightarrow> ('e \<Rightarrow> 'd \<Rightarrow> 'd) \<Rightarrow> ('e, 'p) DataStore \<Rightarrow> ('d, 'p) DataStore" where
  "lift_store g u V =
     \<lparr>ds_exist = (\<lambda>n pr (d, p). map_option (\<lambda>(r, (e, p')). (r, (u e d, p'))) (ds_exist V n pr (g d, p))),
      ds_get = (\<lambda>n pr (d, p, t). map_option (\<lambda>(r, (e, p', t')). (r, (u e d, p', t'))) (ds_get V n pr (g d, p, t))),
      ds_put = (\<lambda>n pr (d, p, s). map_option (\<lambda>(r, (e, p', s')). (r, (u e d, p', s'))) (ds_put V n pr (g d, p, s))),
      ds_list = (\<lambda>n pr (d, p). map_option (\<lambda>(r, (e, p')). (r, (u e d, p'))) (ds_list V n pr (g d, p))),
      ds_unlink = (\<lambda>n pr (d, p). map_option (\<lambda>(r, (e, p')). (r, (u e d, p'))) (ds_unlink V n pr (g d, p)))\<rparr>"

definition disk_store :: "string \<Rightarrow> (filesys \<times> 'w, console) DataStore" where
  "disk_store path = lift_store fst (\<lambda>fs (_, w). (fs, w)) (FileDataStore path)"

definition bucket_store :: "'w aws \<Rightarrow> ('e, 'dc, 'h, 'm, 'l, 'z) env \<Rightarrow> string \<Rightarrow> (filesys \<times> 'w, console) DataStore" where
  "bucket_store A E bucket = lift_store snd (\<lambda>w (fs, _). (fs, w)) (AwsS3DataStore A E bucket)"

text \<open>A string made from the null pointer that \<^verbatim>\<open>getenv\<close> returns for a variable that is not set is undefined.\<close>

definition key_from_env :: "sys \<Rightarrow> string \<Rightarrow> ('s, string) io" where
  "key_from_env S name = lift_option UndefinedBehaviour (sy_getenv S name)"

definition createDataStoreFromRepository ::
    "('e, 'dc, 'h, 'm, 'l, 'z, 'w) machine \<Rightarrow> Cli_Options \<Rightarrow> string \<Rightarrow> ('w cli, (filesys \<times> 'w, console) DataStore) io" where
  "createDataStoreFromRepository M opts repo =
     (if backend opts = ''s3'' then
        bind_io (key_from_env (m_sys M) ''AWS_ACCESS_KEY'') (\<lambda>accessKey.
        bind_io (key_from_env (m_sys M) ''AWS_SECRET_KEY'') (\<lambda>secretKey.
        bind_io (if accessKey = [] then on_con (promptInput ''Aws Access Key: '' True) else return_io accessKey) (\<lambda>accessKey.
        bind_io (if secretKey = [] then on_con (promptInput ''Aws Secret Key: '' True) else return_io secretKey) (\<lambda>secretKey.
        bind_io (zoom_io (\<lambda>s. (c_once s, c_aws s)) (\<lambda>(b, w) s. s\<lparr>c_once := b, c_aws := w\<rparr>)
                   (AwsS3DataStore_new (m_aws M) repo accessKey secretKey)) (\<lambda>bucket.
        return_io (bucket_store (m_aws M) (m_env M) bucket))))))
      else
        bind_io (gets_io (\<lambda>s. fs_node (c_disk s) repo)) (\<lambda>node.
        if node = None then throw_io InvalidRepositoryException
        else return_io (disk_store repo)))"

text \<open>The \<^verbatim>\<open>Repository\<close> object of a command, and the operations that use it. The console is the state of the progress functions.\<close>

type_synonym 'w work = "(filesys \<times> 'w, console) session"

definition with_repository :: "('e, 'dc, 'h, 'm, 'l, 'z, 'w) machine \<Rightarrow> ('w work, 'a) io \<Rightarrow> ('w cli, 'a) io" where
  "with_repository M m = (\<lambda>s.
     map_option (\<lambda>(r, w). (r, s\<lparr>c_disk := fst (w_store w), c_aws := snd (w_store w), c_con := w_prog w, c_rng := w_rng w\<rparr>))
       (m \<lparr>w_repo = Repository_new (m_env M) None, w_store = (c_disk s, c_aws s), w_prog = c_con s, w_rng = c_rng s\<rparr>))"

definition on_console :: "(console, 'a) io \<Rightarrow> ('w work, 'a) io" where
  "on_console = zoom_io w_prog (\<lambda>c w. w\<lparr>w_prog := c\<rparr>)"

definition on_disk :: "(filesys, 'a) io \<Rightarrow> ('w work, 'a) io" where
  "on_disk = zoom_io (\<lambda>w. fst (w_store w)) (\<lambda>fs w. w\<lparr>w_store := (fs, snd (w_store w))\<rparr>)"

definition print :: "string \<Rightarrow> ('w work, unit) io" where
  "print s = on_console (put_str s)"

definition start_time :: "('e, 'dc, 'h, 'm, 'l, 'z, 'w) machine \<Rightarrow> ('w work, int) io" where
  "start_time M = on_console (\<lambda>c. case time_now (m_sys M) c of (t, c') \<Rightarrow> Some (Inr t, c'))"

section \<open>init, password and list\<close>

definition cli_initializeRepository :: "('e, 'dc, 'h, 'm, 'l, 'z, 'w) machine \<Rightarrow> Cli_Options \<Rightarrow> string \<Rightarrow> ('w cli, unit) io" where
  "cli_initializeRepository M opts repository =
     bind_io (createDataStoreFromRepository M opts repository) (\<lambda>V. with_repository M (
     bind_io (on_console (promptReadPassword True)) (\<lambda>password.
     seq_io (initializeRepository (m_env M) (m_tmp M) V password 17 DefaultProgressFunction)
       (if quiet_opt opts then return_io () else print (''Repository initialized.'' @ [newline])))))"

text \<open>What every other command starts with.\<close>

definition unlock_with_prompt ::
    "('e, 'dc, 'h, 'm, 'l, 'z, 'w) machine \<Rightarrow> (filesys \<times> 'w, console) DataStore \<Rightarrow> ('w work, string) io" where
  "unlock_with_prompt M V =
     bind_io (on_console (promptReadPassword False)) (\<lambda>password.
     bind_io (unlockRepository (m_env M) (m_tmp M) V password DefaultProgressFunction) (\<lambda>unlocked.
     seq_io (guard_io unlocked RepositoryException) (return_io password)))"

definition cli_changePassword :: "('e, 'dc, 'h, 'm, 'l, 'z, 'w) machine \<Rightarrow> Cli_Options \<Rightarrow> string \<Rightarrow> ('w cli, unit) io" where
  "cli_changePassword M opts repository =
     bind_io (createDataStoreFromRepository M opts repository) (\<lambda>V. with_repository M (
     seq_io (print (''Old password'' @ [newline]))
     (bind_io (unlock_with_prompt M V) (\<lambda>oldPassword.
      seq_io (print (''New password'' @ [newline]))
      (bind_io (on_console (promptReadPassword True)) (\<lambda>newPassword.
       seq_io (changePassword (m_env M) (m_tmp M) V oldPassword newPassword 17 DefaultProgressFunction)
         (print (''Password updated.'' @ [newline]))))))))"

definition cli_listSnapshots :: "('e, 'dc, 'h, 'm, 'l, 'z, 'w) machine \<Rightarrow> Cli_Options \<Rightarrow> string \<Rightarrow> ('w cli, unit) io" where
  "cli_listSnapshots M opts repository =
     bind_io (createDataStoreFromRepository M opts repository) (\<lambda>V. with_repository M (
     seq_io (unlock_with_prompt M V) (\<lambda>w.
       case listSnapshots V (\<lambda>name. modify_io (\<lambda>out. case name of None \<Rightarrow> out | Some n \<Rightarrow> out @ n @ [newline])) DefaultProgressFunction (w, []) of
         None \<Rightarrow> None
       | Some (r, (w', out)) \<Rightarrow> Some (r, w'\<lparr>w_prog := (w_prog w')\<lparr>co_out := co_out (w_prog w') @ out\<rparr>\<rparr>))))"

text \<open>The string of the mode, position by position as the code fills it in.\<close>

definition set_if :: "bool \<Rightarrow> nat \<Rightarrow> char \<Rightarrow> string \<Rightarrow> string" where
  "set_if b i c s = (if b then s[i := c] else s)"

definition type_char :: "byte \<Rightarrow> char" where
  "type_char t =
     (if t = byte_of_filetype Directory then CHR ''d''
      else if t = byte_of_filetype SymbolicLink then CHR ''l''
      else if t = byte_of_filetype BlockDevice then CHR ''b''
      else if t = byte_of_filetype CharacterDevice then CHR ''c''
      else CHR ''-'')"

definition modeString :: "byte \<Rightarrow> u16 \<Rightarrow> string" where
  "modeString t md =
     (let has = (\<lambda>m. md AND m \<noteq> 0);
          s = ''----------''[0 := type_char t];
          s = set_if (has 0x100) 1 CHR ''r'' s;
          s = set_if (has 0x080) 2 CHR ''w'' s;
          s = set_if (has 0x040) 3 CHR ''x'' s;
          s = set_if (has 0x020) 4 CHR ''r'' s;
          s = set_if (has 0x010) 5 CHR ''w'' s;
          s = set_if (has 0x008) 6 CHR ''x'' s;
          s = set_if (has 0x004) 7 CHR ''r'' s;
          s = set_if (has 0x002) 8 CHR ''w'' s;
          s = set_if (has 0x001) 9 CHR ''x'' s;
          s = set_if (has 0x800) 3 (if has 0x040 then CHR ''s'' else CHR ''S'') s;
          s = set_if (has 0x400) 6 (if has 0x008 then CHR ''s'' else CHR ''S'') s in
      set_if (has 0x200) 9 (if has 0x001 then CHR ''t'' else CHR ''T'') s)"

definition entry_line :: "Snapshot \<Rightarrow> FileEntry \<Rightarrow> ('s, string) io" where
  "entry_line snapshot fe =
     bind_io (lift_sum (indexToString snapshot (sint (userIndex fe)))) (\<lambda>user.
     bind_io (lift_sum (indexToString snapshot (sint (groupIndex fe)))) (\<lambda>group.
     bind_io (lift_sum (indexToString snapshot (sint (nameIndex fe)))) (\<lambda>name.
     bind_io (lift_sum (indexToString snapshot (sint (pathIndex fe)))) (\<lambda>path.
     return_io (pad_right 11 (modeString (fe_type fe) (fe_mode fe)) @ '' '' @ pad_right 8 user @ '' '' @ pad_right 8 group @ '' ''
       @ pad_left 10 (dec_nat (unat (fe_size fe))) @ '' '' @ path_append path name @ [newline])))))"

definition cli_listSnapshot :: "('e, 'dc, 'h, 'm, 'l, 'z, 'w) machine \<Rightarrow> Cli_Options \<Rightarrow> string \<Rightarrow> string \<Rightarrow> ('w cli, unit) io" where
  "cli_listSnapshot M opts repository snapshotName =
     bind_io (createDataStoreFromRepository M opts repository) (\<lambda>V. with_repository M (
     seq_io (unlock_with_prompt M V)
     (bind_io (loadSnapshot (m_env M) (m_tmp M) V snapshotName DefaultProgressFunction) (\<lambda>snapshot.
      forEachFileEntry snapshot (\<lambda>fe. bind_io (entry_line snapshot fe) print)))))"

section \<open>backup\<close>

text \<open>The entries below a directory, as \<^verbatim>\<open>recursive_directory_iterator\<close> delivers them: an entry, and when it is a directory, what is below it.\<close>

definition fs_bound :: "filesys \<Rightarrow> nat" where
  "fs_bound fs = sum_list (map (length \<circ> fst) (fs_nodes fs))"

lemma fs_entries_longer:
  assumes "q \<in> set (fs_entries fs d)"
  shows "length d < length q" "length q \<le> fs_bound fs"
proof -
  have q: "plain_name (filename q)" "q = path_append d (filename q)" "q \<in> fst ` set (fs_nodes fs)"
    using assms by (auto simp: fs_entries_def)
  then show "length d < length q" by (metis path_append_def append_is_Nil_conv length_append length_greater_0_conv less_add_same_cancel1 list.discI plain_name_def)
  show "length q \<le> fs_bound fs" unfolding fs_bound_def using q(3) by (force intro: member_le_sum_list)
qed

function fs_tree :: "filesys \<Rightarrow> string \<Rightarrow> string list" where
  "fs_tree fs d = concat (map (\<lambda>q. q # (if fs_node fs q = Some DirNode then fs_tree fs q else [])) (fs_entries fs d))"
  by pat_completeness auto
termination
  by (relation "measure (\<lambda>(fs, d). fs_bound fs - length d)") (use fs_entries_longer in force)+

declare fs_tree.simps [simp del]

definition open_source :: "string \<Rightarrow> (('h, filesys \<times> 'w, console) uploading, unit) io" where
  "open_source path = (\<lambda>u. case FileStream_new path FileMode_Read (fst (w_store (up_sess u))) of
       (Inl e, fs') \<Rightarrow> Some (Inl e, u)
     | (Inr f, fs') \<Rightarrow> Some (Inr (), u\<lparr>up_file := f\<rparr>))"

definition backup_one ::
    "('e, 'dc, 'h, 'm, 'l, 'z, 'w) machine \<Rightarrow> Cli_Options \<Rightarrow> (filesys \<times> 'w, console) DataStore \<Rightarrow> string \<Rightarrow>
     (('h, filesys \<times> 'w, console) uploading, unit) io" where
  "backup_one M opts V path =
     seq_io (if quiet_opt opts then return_io () else on_sess (print (path @ [newline])))
       (if dryRun opts then return_io ()
        else
          bind_io (on_sess (start_time M)) (\<lambda>startTime.
          seq_io (open_source path)
         (seq_io (on_sess (on_console (modify_io (\<lambda>c. c\<lparr>co_last := 0\<rparr>))))
         (seq_io (uploadFile (m_env M) (m_tmp M) V (m_log2 M) (m_info M) path (transfer_progress (m_sys M) opts startTime))
           (if quiet_opt opts then return_io () else on_sess (print [newline]))))))"

definition backup_argument ::
    "('e, 'dc, 'h, 'm, 'l, 'z, 'w) machine \<Rightarrow> Cli_Options \<Rightarrow> (filesys \<times> 'w, console) DataStore \<Rightarrow> string \<Rightarrow>
     (('h, filesys \<times> 'w, console) uploading, unit) io" where
  "backup_argument M opts V arg =
     bind_io (gets_io (\<lambda>u. fst (w_store (up_sess u)))) (\<lambda>fs.
     seq_io (if fs_node fs arg = Some DirNode then
               feed (backup_one M opts V) (filter (\<lambda>q. fs_node fs q \<noteq> Some DirNode) (fs_tree fs arg))
             else backup_one M opts V arg)
       (finalizePack (m_env M) (m_tmp M) V DefaultFileTransferProgressFunction))"

definition cli_backupFiles ::
    "('e, 'dc, 'h, 'm, 'l, 'z, 'w) machine \<Rightarrow> Cli_Options \<Rightarrow> string \<Rightarrow> string \<Rightarrow> string list \<Rightarrow> ('w cli, unit) io" where
  "cli_backupFiles M opts repository snapshotName args =
     bind_io (createDataStoreFromRepository M opts repository) (\<lambda>V. with_repository M (
     seq_io (unlock_with_prompt M V) (\<lambda>w.
       case feed (backup_argument M opts V) args \<lparr>up_file = FileStream_new0, up_pack = Some createPackState, up_snap = createSnapshot, up_sess = w\<rparr> of
         None \<Rightarrow> None
       | Some (Inl e, u) \<Rightarrow> Some (Inl e, up_sess u)
       | Some (Inr _, u) \<Rightarrow> commitSnapshot (m_env M) (m_tmp M) V (up_snap u) snapshotName DefaultProgressFunction (up_sess u))))"

section \<open>restore\<close>

text \<open>The question whether to overwrite; the answer is one character of the input.\<close>

definition may_overwrite :: "Cli_Options \<Rightarrow> string \<Rightarrow> ('w work, bool) io" where
  "may_overwrite opts filePath =
     bind_io (gets_io (\<lambda>w. fs_node (fst (w_store w)) filePath)) (\<lambda>node.
     if \<not> force opts \<and> \<not> dryRun opts \<and> node \<noteq> None then
       seq_io (print (filePath @ '': File exists. Overwrite (y/n)? ''))
      (bind_io (on_console (\<lambda>c. Some (Inr (co_in c), c\<lparr>co_in := tl (co_in c)\<rparr>))) (\<lambda>inp.
       if inp = [] \<or> hd inp \<noteq> CHR ''y'' then return_io False
       else seq_io (if quiet_opt opts then return_io () else print [newline]) (return_io True)))
     else return_io True)"

text \<open>Downloading into the new file, which is closed on every way out.\<close>

definition download_to ::
    "('e, 'dc, 'h, 'm, 'l, 'z, 'w) machine \<Rightarrow> Cli_Options \<Rightarrow> (filesys \<times> 'w, console) DataStore \<Rightarrow> Snapshot \<Rightarrow> string \<Rightarrow> string \<Rightarrow> ('w work, unit) io" where
  "download_to M opts V snapshot src filePath =
     bind_io (start_time M) (\<lambda>startTime w.
     case FileStream_new filePath FileMode_Write (fst (w_store w)) of
       (Inl e, fs') \<Rightarrow> Some (Inl e, w\<lparr>w_store := (fs', snd (w_store w))\<rparr>)
     | (Inr f, fs') \<Rightarrow>
         (case downloadFile (m_env M) (m_tmp M) V snapshot src FileStream_write (transfer_progress (m_sys M) opts startTime)
                 (w\<lparr>w_store := (fs', snd (w_store w)), w_prog := (w_prog w)\<lparr>co_last := 0\<rparr>\<rparr>, f) of
            None \<Rightarrow> None
          | Some (r, (w', f')) \<Rightarrow>
              (case FileStream_close (f', fst (w_store w')) of
                 None \<Rightarrow> None
               | Some (_, (_, fs'')) \<Rightarrow>
                   (case r of
                      Inl e \<Rightarrow> Some (Inl e, w'\<lparr>w_store := (fs'', snd (w_store w'))\<rparr>)
                    | Inr _ \<Rightarrow> (if quiet_opt opts then return_io () else print [newline]) (w'\<lparr>w_store := (fs'', snd (w_store w'))\<rparr>)))))"

definition verify_body :: "('e, 'dc, 'h, 'm, 'l, 'z) env \<Rightarrow> bytes \<Rightarrow> ('m, unit) io" where
  "verify_body E buf = (\<lambda>ctx. case EVP_DigestUpdate E ctx buf of
       None \<Rightarrow> Some (Inl VerificationFailedException, ctx)
     | Some ctx' \<Rightarrow> Some (Inr (), ctx'))"

definition verify_file :: "('e, 'dc, 'h, 'm, 'l, 'z, 'w) machine \<Rightarrow> FileEntry \<Rightarrow> string \<Rightarrow> ('w work, unit) io" where
  "verify_file M fe filePath =
     bind_io (gets_io (\<lambda>w. fst (w_store w))) (\<lambda>fs.
     bind_io (lift_sum (fst (FileStream_new filePath FileMode_Read fs))) (\<lambda>inStream.
     bind_io (lift_option VerificationFailedException (EVP_DigestInit (m_env M))) (\<lambda>ctx.
     with_local (read_each FileStream_read 8192 (verify_body (m_env M))) (inStream, ctx) (\<lambda>_ (_, ctx).
     bind_io (lift_option VerificationFailedException (EVP_DigestFinal (m_env M) ctx)) (\<lambda>md.
     guard_io (take MD5_DIGEST_LENGTH md = take MD5_DIGEST_LENGTH (fe_md5 fe)) VerificationFailedException)))))"

definition restore_entry ::
    "('e, 'dc, 'h, 'm, 'l, 'z, 'w) machine \<Rightarrow> Cli_Options \<Rightarrow> (filesys \<times> 'w, console) DataStore \<Rightarrow> Snapshot \<Rightarrow> string \<Rightarrow> string \<Rightarrow> FileEntry \<Rightarrow>
     ('w work, unit) io" where
  "restore_entry M opts V snapshot destDir srcFile fe =
     bind_io (lift_sum (indexToString snapshot (sint (nameIndex fe)))) (\<lambda>name.
     bind_io (lift_sum (indexToString snapshot (sint (pathIndex fe)))) (\<lambda>path.
     bind_io (lift_sum (sy_relative (m_sys M) (path @ ''/'' @ name) (parent_path srcFile))) (\<lambda>destFilePath.
     let filePath = path_append destDir destFilePath in
     bind_io (may_overwrite opts filePath) (\<lambda>go.
     if \<not> go then return_io ()
     else
       seq_io (if quiet_opt opts then return_io () else print (filePath @ [newline]))
         (if dryRun opts then return_io ()
          else
            bind_io (gets_io (\<lambda>w. fs_node (fst (w_store w)) (parent_path filePath))) (\<lambda>dir.
            seq_io (if dir = Some DirNode then return_io False else on_disk (create_directories (parent_path filePath)))
           (seq_io (download_to M opts V snapshot (path @ ''/'' @ name) filePath)
             (if verify opts then verify_file M fe filePath else return_io ()))))))))"

text \<open>\<open>before\<close> is the argument before the list, which \<^verbatim>\<open>argv[argc - 1]\<close> is when the list is empty.\<close>

definition cli_downloadFiles ::
    "('e, 'dc, 'h, 'm, 'l, 'z, 'w) machine \<Rightarrow> Cli_Options \<Rightarrow> string \<Rightarrow> string \<Rightarrow> string \<Rightarrow> string list \<Rightarrow> ('w cli, unit) io" where
  "cli_downloadFiles M opts repository snapshotName before args =
     (let destDir = (if args = [] then before else last args);
          sources = (if length args = 1 then [''''] else butlast args) in
      bind_io (gets_io (\<lambda>s. fs_node (c_disk s) destDir)) (\<lambda>node.
      if node \<noteq> Some DirNode then throw_io InvalidArgumentException
      else
        bind_io (createDataStoreFromRepository M opts repository) (\<lambda>V. with_repository M (
        seq_io (unlock_with_prompt M V)
       (bind_io (loadSnapshot (m_env M) (m_tmp M) V snapshotName DefaultProgressFunction) (\<lambda>snapshot.
        feed (\<lambda>srcFile. forEachFileEntry_subpath snapshot srcFile (restore_entry M opts V snapshot destDir srcFile)) sources))))))"

section \<open>main\<close>

definition printHelp :: "('w cli, unit) io" where
  "printHelp = on_con (put_str (concat (map (\<lambda>l. l @ [newline])
     [''usage: NebulaBackup [options] init <repo>'',
      ''       NebulaBackup [options] backup <repo> <snapshot> <file> [<file>...]'',
      ''       NebulaBackup [options] restore <repo> <snapshot> [<file>...] <destdir>'',
      ''       NebulaBackup [options] list <repo>'',
      ''       NebulaBackup [options] list <repo> <snapshot>'',
      ''       NebulaBackup [options] delete <repo> <snapshot>'',
      ''       NebulaBackup [options] compact <repo>'',
      ''       NebulaBackup [options] password <repo>'',
      '''',
      ''<repo> can be in the format of:'',
      ''       [backend://][user@][hostname:]/path'',
      '''',
      ''options:'',
      '' -q, --quiet              Run without output'',
      '' -b, --backend            Explicitly specify the backend'',
      ''     --no-verify          Don'' @ [CHR 0x27] @ ''t downloaded files'',
      '' -n, --dry-run            Dry-run'',
      '' -f, --force              Don'' @ [CHR 0x27] @ ''t prompt for overwrite'',
      '''',
      ''ssh backend options:'',
      '' -u, --username=USER      SSH username'',
      '' -p, --password=PASSWORD  SSH password'',
      '''',
      ''s3 backend environment variables and options:'',
      ''     <repo>               AWS bucket name'',
      ''     AWS_ACCESS_KEY       AWS access key'',
      ''     AWS_SECRET_KEY       AWS secret key'',
      ''''])))"

text \<open>What \<^verbatim>\<open>getopt_long\<close> returns: 0 for a long option without a letter of its own, whose name is in the table, and otherwise a letter with its argument.\<close>

datatype cli_flag = LongOption string | Letter char string

fun parse_flags :: "cli_flag list \<Rightarrow> Cli_Options \<Rightarrow> Cli_Options option" where
  "parse_flags [] opts = Some opts"
| "parse_flags (LongOption name # fs) opts = parse_flags fs (if name = ''no-verify'' then opts\<lparr>verify := False\<rparr> else opts)"
| "parse_flags (Letter c optarg # fs) opts =
     (if c = CHR ''q'' then parse_flags fs (opts\<lparr>quiet_opt := True\<rparr>)
      else if c = CHR ''n'' then parse_flags fs (opts\<lparr>dryRun := True\<rparr>)
      else if c = CHR ''f'' then parse_flags fs (opts\<lparr>force := True\<rparr>)
      else if c = CHR ''b'' then parse_flags fs (opts\<lparr>backend := optarg\<rparr>)
      else None)"

text \<open>The body of the \<^verbatim>\<open>try\<close> block; \<open>args\<close> are the arguments from \<^verbatim>\<open>optind\<close> on, at least two of them.\<close>

definition run_action :: "('e, 'dc, 'h, 'm, 'l, 'z, 'w) machine \<Rightarrow> Cli_Options \<Rightarrow> string list \<Rightarrow> ('w cli, unit) io" where
  "run_action M opts args =
     (let action = args ! 0; repo = args ! 1; ch = (if action = [] then NUL else hd action) in
      if ch = CHR ''i'' then
        (if action \<noteq> ''init'' then throw_io InvalidArgumentException else cli_initializeRepository M opts repo)
      else if ch = CHR ''b'' then
        (if action \<noteq> ''backup'' then throw_io InvalidArgumentException
         else if length args < 3 then throw_io InvalidArgumentException
         else if length args < 4 then throw_io InvalidArgumentException
         else cli_backupFiles M opts repo (args ! 2) (drop 3 args))
      else if ch = CHR ''r'' then
        (if action = ''restore'' then
           (if length args < 3 then throw_io InvalidArgumentException
            else cli_downloadFiles M opts repo (args ! 2) (args ! 2) (drop 3 args))
         else throw_io InvalidArgumentException)
      else if ch = CHR ''l'' then
        (if action \<noteq> ''list'' then throw_io InvalidArgumentException
         else if length args < 3 then cli_listSnapshots M opts repo
         else cli_listSnapshot M opts repo (args ! 2))
      else if ch = CHR ''p'' then
        (if action \<noteq> ''password'' then throw_io InvalidArgumentException else cli_changePassword M opts repo)
      else return_io ())"

definition main :: "('e, 'dc, 'h, 'm, 'l, 'z, 'w) machine \<Rightarrow> cli_flag list \<Rightarrow> string list \<Rightarrow> ('w cli, int) io" where
  "main M flags args = (case parse_flags flags Cli_Options_new of
       None \<Rightarrow> seq_io printHelp (return_io (-1))
     | Some opts \<Rightarrow>
         if length args < 2 then seq_io printHelp (return_io (-1))
         else (\<lambda>s. case run_action M opts args s of
             None \<Rightarrow> None
           | Some (Inr _, s') \<Rightarrow> Some (Inr 0, s')
           | Some (Inl e, s') \<Rightarrow>
               if e = UndefinedBehaviour then Some (Inl e, s')
               else Some (Inr 0, s'\<lparr>c_con := (c_con s')\<lparr>co_err := co_err (c_con s') @ [newline] @ ''error: '' @ sy_what (m_sys M) e @ [newline]\<rparr>\<rparr>)))"

section \<open>Properties of the commands\<close>

text \<open>The three characters of a class of users: the permissions, and a special bit that is shown in the place of the last one.\<close>

definition class_chars :: "bool \<Rightarrow> bool \<Rightarrow> bool \<Rightarrow> bool \<Rightarrow> char \<Rightarrow> char \<Rightarrow> string" where
  "class_chars rd wr ex special lower upper =
     [if rd then CHR ''r'' else CHR ''-'', if wr then CHR ''w'' else CHR ''-'',
      if special then (if ex then lower else upper) else if ex then CHR ''x'' else CHR ''-'']"

lemma set_if_list:
  "set_if b 1 c [a0, a1, a2, a3, a4, a5, a6, a7, a8, a9] = [a0, if b then c else a1, a2, a3, a4, a5, a6, a7, a8, a9]"
  "set_if b 2 c [a0, a1, a2, a3, a4, a5, a6, a7, a8, a9] = [a0, a1, if b then c else a2, a3, a4, a5, a6, a7, a8, a9]"
  "set_if b 3 c [a0, a1, a2, a3, a4, a5, a6, a7, a8, a9] = [a0, a1, a2, if b then c else a3, a4, a5, a6, a7, a8, a9]"
  "set_if b 4 c [a0, a1, a2, a3, a4, a5, a6, a7, a8, a9] = [a0, a1, a2, a3, if b then c else a4, a5, a6, a7, a8, a9]"
  "set_if b 5 c [a0, a1, a2, a3, a4, a5, a6, a7, a8, a9] = [a0, a1, a2, a3, a4, if b then c else a5, a6, a7, a8, a9]"
  "set_if b 6 c [a0, a1, a2, a3, a4, a5, a6, a7, a8, a9] = [a0, a1, a2, a3, a4, a5, if b then c else a6, a7, a8, a9]"
  "set_if b 7 c [a0, a1, a2, a3, a4, a5, a6, a7, a8, a9] = [a0, a1, a2, a3, a4, a5, a6, if b then c else a7, a8, a9]"
  "set_if b 8 c [a0, a1, a2, a3, a4, a5, a6, a7, a8, a9] = [a0, a1, a2, a3, a4, a5, a6, a7, if b then c else a8, a9]"
  "set_if b 9 c [a0, a1, a2, a3, a4, a5, a6, a7, a8, a9] = [a0, a1, a2, a3, a4, a5, a6, a7, a8, if b then c else a9]"
  by (simp_all add: set_if_def)

text \<open>The string that \<^verbatim>\<open>list\<close> shows for the type and mode of a file has the letter of the type and then, for the owner, the group and the others, the
  permissions \<^verbatim>\<open>r\<close>, \<^verbatim>\<open>w\<close> and \<^verbatim>\<open>x\<close> of the bits of the mode, with the bits for setting the user, the group and the sticky bit shown in the place of
  \<^verbatim>\<open>x\<close>, in capitals when the file is not executable.\<close>

theorem mode_string:
  "modeString t md = [type_char t] @ class_chars (bit md 8) (bit md 7) (bit md 6) (bit md 11) CHR ''s'' CHR ''S''
     @ class_chars (bit md 5) (bit md 4) (bit md 3) (bit md 10) CHR ''s'' CHR ''S''
     @ class_chars (bit md 2) (bit md 1) (bit md 0) (bit md 9) CHR ''t'' CHR ''T''"
proof -
  have and_bit: "(md AND 2 ^ n \<noteq> 0) = bit md n" for n by (simp add: and_exp_eq_0_iff_not_bit)
  have m: "(md AND 0x100 \<noteq> 0) = bit md 8" "(md AND 0x080 \<noteq> 0) = bit md 7" "(md AND 0x040 \<noteq> 0) = bit md 6" "(md AND 0x020 \<noteq> 0) = bit md 5"
    "(md AND 0x010 \<noteq> 0) = bit md 4" "(md AND 0x008 \<noteq> 0) = bit md 3" "(md AND 0x004 \<noteq> 0) = bit md 2" "(md AND 0x002 \<noteq> 0) = bit md 1"
    "(md AND 0x001 \<noteq> 0) = bit md 0" "(md AND 0x800 \<noteq> 0) = bit md 11" "(md AND 0x400 \<noteq> 0) = bit md 10" "(md AND 0x200 \<noteq> 0) = bit md 9"
    using and_bit [of 8] and_bit [of 7] and_bit [of 6] and_bit [of 5] and_bit [of 4] and_bit [of 3] and_bit [of 2] and_bit [of 1] and_bit [of 0]
      and_bit [of 11] and_bit [of 10] and_bit [of 9] by simp_all
  show ?thesis unfolding modeString_def Let_def m class_chars_def list_update.simps nat.case set_if_list by simp
qed

text \<open>A machine without signals, for the examples, and a program that has just been started on it.\<close>

definition sample_sys :: sys where
  "sample_sys = \<lparr>sy_getenv = (\<lambda>_. None), sy_time = int, sy_sig = (\<lambda>_. False), sy_div2 = (\<lambda>a b. to_string (a div b)), sy_relative = (\<lambda>p b. Inr (filename p)),
     sy_what = (\<lambda>_. [])\<rparr>"

definition sample_machine :: "(unit, bytes, bytes \<times> bytes, bytes, nat \<times> bytes, bool, mem_bucket) machine" where
  "sample_machine = \<lparr>m_env = plain_env, m_sys = sample_sys, m_aws = mem_s3, m_tmp = empty_disk, m_log2 = (\<lambda>_. 18), m_info = sample_info\<rparr>"

definition sample_cli :: "filesys \<Rightarrow> string \<Rightarrow> mem_bucket cli" where
  "sample_cli fs inp = \<lparr>c_disk = fs, c_aws = \<lparr>mb_objects = [], mb_transfer = Idle\<rparr>, c_once = True, c_con = sample_console inp, c_rng = (\<lambda>_. 0)\<rparr>"

text \<open>C40. \<^verbatim>\<open>main\<close> does nothing unless it is asked to: with a bad option or too few arguments it prints the help and returns -1, and with a first
  argument that is none of the five commands, although the help names others, it returns 0; the disk, the bucket and the random generator are untouched in
  all these cases.\<close>

theorem main_idle:
  assumes "parse_flags flags Cli_Options_new = None \<or> length args < 2 \<or> args ! 0 \<notin> {''init'', ''backup'', ''restore'', ''list'', ''password''}"
  shows "\<exists>r s'. main M flags args s = Some (Inr r, s') \<and> c_disk s' = c_disk s \<and> c_aws s' = c_aws s \<and> c_rng s' = c_rng s
     \<and> co_in (c_con s') = co_in (c_con s) \<and> (r = 0 \<longleftrightarrow> parse_flags flags Cli_Options_new \<noteq> None \<and> 2 \<le> length args)"
proof (cases "parse_flags flags Cli_Options_new = None \<or> length args < 2")
  case True
  then show ?thesis by (auto simp: main_def printHelp_def on_con_def put_str_def split: option.splits)
next
  case False
  then obtain opts where opts: "parse_flags flags Cli_Options_new = Some opts" "2 \<le> length args" by auto
  have n: "args ! 0 \<noteq> ''init''" "args ! 0 \<noteq> ''backup''" "args ! 0 \<noteq> ''restore''" "args ! 0 \<noteq> ''list''" "args ! 0 \<noteq> ''password''"
    using assms False by blast+
  define ch where "ch = (if args ! 0 = [] then NUL else hd (args ! 0))"
  have "run_action M opts args = (if ch \<in> {CHR ''i'', CHR ''b'', CHR ''r'', CHR ''l'', CHR ''p''} then throw_io InvalidArgumentException else return_io ())"
    unfolding run_action_def Let_def ch_def [symmetric] by (simp only: n not_False_eq_True if_True if_False insert_iff empty_iff) (simp split: if_split)
  then have "run_action M opts args s = Some (Inl InvalidArgumentException, s) \<or> run_action M opts args s = Some (Inr (), s)" by simp
  then show ?thesis using opts by (elim disjE) (simp_all add: main_def)
qed

theorem main_idle_witness:
  "\<exists>s'. main sample_machine [Letter CHR ''q'' []] [''delete'', ''/s'', ''monday''] (sample_cli store_disk []) = Some (Inr 0, s') \<and> c_disk s' = store_disk"
  using main_idle [of "[Letter CHR ''q'' []]" "[''delete'', ''/s'', ''monday'']" sample_machine "sample_cli store_disk []"]
  by (auto simp: sample_cli_def)

text \<open>Backing up without doing it: nothing is uploaded, but the snapshot is committed all the same, and it is empty.\<close>

lemma backup_one_dry:
  assumes "dryRun opts" and "quiet_opt opts"
  shows "backup_one M opts V path = return_io ()"
  using assms by (rule_tac ext) (simp add: backup_one_def)

lemma backup_argument_dry:
  assumes "dryRun opts" and "quiet_opt opts" and "up_pack u = Some createPackState"
  shows "backup_argument M opts V arg u = Some (Inr (), u)"
proof -
  have "feed (backup_one M opts V) xs u = Some (Inr (), u)" for xs by (induction xs) (simp_all add: backup_one_dry [OF assms(1,2)])
  moreover have "finalizePack (m_env M) (m_tmp M) V DefaultFileTransferProgressFunction u = Some (Inr (), u)"
    using assms(3) by (simp add: finalizePack_def on_pack_def createPackState_def PackUploadState_new_def)
  ultimately show ?thesis by (simp add: backup_argument_def backup_one_dry [OF assms(1,2)])
qed



text \<open>The answer to the question whether to overwrite a file is read without its newline, which then answers the next question.\<close>

theorem overwrite_answer_left_over:
  assumes "\<not> force opts" and "\<not> dryRun opts" and "fs_node (fst (w_store w)) p \<noteq> None" and "fs_node (fst (w_store w)) q \<noteq> None"
    and "co_in (w_prog w) = ''y'' @ newline # rest"
  shows "\<exists>w1 w2. may_overwrite opts p w = Some (Inr True, w1) \<and> may_overwrite opts q w1 = Some (Inr False, w2) \<and> co_in (w_prog w2) = rest"
  using assms by (auto simp: may_overwrite_def print_def on_console_def put_str_def)

section \<open>Verification\<close>

lemma verify_feed:
  assumes "digest_updates E c xs = Some c'"
  shows "feed (verify_body E) xs c = Some (Inr (), c')"
  using assms by (induction xs arbitrary: c) (auto simp: verify_body_def bind_io_def split: option.splits)

text \<open>Reading the file back gives its digest.\<close>

lemma verify_file_ok:
  assumes "fs_node (fst (w_store w)) p = Some (RegNode d)" and "map_of (fs_bad (fst (w_store w))) p = None"
    and "digest_ok (m_env M) D" and "length (fe_md5 fe) = 16"
  shows "verify_file M fe p w = Some (if D d = fe_md5 fe then Inr () else Inl VerificationFailedException, w)"
proof -
  let ?f = "\<lparr>mFp = Some \<lparr>cf_data = d, cf_pos = 0, cf_mode = FileMode_Read, cf_error = False, cf_bad = None, cf_limit = fs_limit (fst (w_store w))\<rparr>, mPath = p\<rparr>"
  have new: "FileStream_new p FileMode_Read (fst (w_store w)) = (Inr ?f, fst (w_store w))"
    using assms(1,2) by (simp add: FileStream_new_def FileStream_open_def FileStream_close_def FileStream_new0_def fopen_def)
  have f: "file_inv ?f" "file_rest ?f = d" by (simp_all add: file_inv_def file_rest_def)
  obtain c c' where c: "EVP_DigestInit (m_env M) = Some c" "digest_updates (m_env M) c (chunks 8192 d) = Some c'" "EVP_DigestFinal (m_env M) c' = Some (D d)"
    by (rule digest_of_Some [OF assms(3), of "chunks 8192 d"]) (simp add: concat_chunks)
  have "length (D d) = 16" using assms(3) unfolding digest_ok_def by (metis concat_chunks zero_less_numeral)
  moreover obtain f' where "read_each FileStream_read 8192 (verify_body (m_env M)) (?f, c) = Some (Inr (), (f', c'))"
    using file_in.read_each_ok [OF f(1), of 8192 "verify_body (m_env M)" c c'] f(2) verify_feed [OF c(2)] by auto
  ultimately show ?thesis
    using new c(1,3) assms(4) by (simp add: verify_file_def guard_io_def MD5_DIGEST_LENGTH_def)
qed

text \<open>C37. The check after a download reads the file back from the disk and compares its digest with the one of the entry: it passes exactly when they
  agree, throws otherwise, and changes nothing.\<close>

theorem restore_verification:
  assumes "fs_node (fst (w_store w)) p = Some (RegNode d)" and "map_of (fs_bad (fst (w_store w))) p = None"
    and "digest_ok (m_env M) D" and "length (fe_md5 fe) = 16"
  shows "verify_file M fe p w = Some (if D d = fe_md5 fe then Inr () else Inl VerificationFailedException, w)"
  using assms by (rule verify_file_ok)

definition digest_entry :: "bytes \<Rightarrow> FileEntry" where
  "digest_entry md5 = \<lparr>nameIndex = 0, pathIndex = 0, userIndex = 0, groupIndex = 0, fe_mode = 0, fe_compression = 0, fe_size = 2, fe_mtime = 0, fe_type = 1,
     fe_rollingHashBits = 0, fe_objectCount = 0, fe_md5 = md5, fe_offset = 0, fe_packLength = 0, fe_objectIdIndex = 0\<rparr>"

theorem restore_verification_witness:
  "\<exists>w :: mem_bucket work. verify_file sample_machine (digest_entry (plain_digest [7, 8])) ''/x'' w = Some (Inr (), w)
     \<and> verify_file sample_machine (digest_entry (plain_digest [7, 9])) ''/x'' w = Some (Inl VerificationFailedException, w)"
proof -
  let ?w = "\<lparr>w_repo = Repository_new plain_env None, w_store = (fs_write ''/x'' [7, 8] empty_disk, \<lparr>mb_objects = [], mb_transfer = Idle\<rparr>),
    w_prog = sample_console [], w_rng = (\<lambda>_. 0)\<rparr> :: mem_bucket work"
  have a: "fs_node (fst (w_store ?w)) ''/x'' = Some (RegNode [7, 8])" "map_of (fs_bad (fst (w_store ?w))) ''/x'' = None"
    "digest_ok (m_env sample_machine) plain_digest" "length (fe_md5 (digest_entry (plain_digest d))) = 16" for d
    by (simp_all add: empty_disk_def sample_machine_def plain_digest_ok digest_entry_def length_plain_digest)
  have "plain_digest [7, 8] \<noteq> plain_digest [7, 9]" by (simp add: plain_digest_def)
  with restore_verification [OF a, of "[7, 8]"] restore_verification [OF a, of "[7, 9]"] show ?thesis
    by (intro exI [of _ ?w]) (simp add: digest_entry_def)
qed

end
