(* ===== verification/Restore_Command.thy ===== *)
theory Restore_Command
  imports Command_Line "HOL-Library.Sublist"
begin

text \<open>
  The command \<^verbatim>\<open>restore\<close> from the first prompt to the last file: the directory store as the program opens it, the files and directories it creates,
  and the loop over the entries of the snapshot.
\<close>

section \<open>A store on a part of the state\<close>

lemma lift_store_sel [simp]:
  "ds_exist (lift_store g u V) n pr (d, p) = map_option (\<lambda>(r, (e, p')). (r, (u e d, p'))) (ds_exist V n pr (g d, p))"
  "ds_get (lift_store g u V) n pr (d, p, t) = map_option (\<lambda>(r, (e, p', t')). (r, (u e d, p', t'))) (ds_get V n pr (g d, p, t))"
  "ds_put (lift_store g u V) n pr (d, p, s) = map_option (\<lambda>(r, (e, p', s')). (r, (u e d, p', s'))) (ds_put V n pr (g d, p, s))"
  "ds_list (lift_store g u V) n pr (d, p) = map_option (\<lambda>(r, (e, p')). (r, (u e d, p'))) (ds_list V n pr (g d, p))"
  "ds_unlink (lift_store g u V) n pr (d, p) = map_option (\<lambda>(r, (e, p')). (r, (u e d, p'))) (ds_unlink V n pr (g d, p))"
  by (simp_all add: lift_store_def)

lemma data_store_lift:
  fixes V :: "('e, 'p) DataStore" and g :: "'d \<Rightarrow> 'e"
  assumes "data_store V objs ok" and [simp]: "\<And>e d. g (u e d) = e" and [simp]: "\<And>d. u (g d) d = d"
  shows "data_store (lift_store g u V) (\<lambda>d. objs (g d)) (\<lambda>d. ok (g d))"
proof -
  note laws = data_store.exist_law [OF assms(1)] data_store.get_law [OF assms(1)] data_store.get_missing [OF assms(1)]
    data_store.put_law [OF assms(1)] data_store.unlink_law [OF assms(1)] data_store.list_law [OF assms(1)]
  show ?thesis
  proof
    fix d n p and pr :: "'p progress" assume "ok (g d)" "valid_name n"
    then show "\<exists>p'. ds_exist (lift_store g u V) n pr (d, p) = Some (Inr (objs (g d) n \<noteq> None), (d, p'))"
      using laws(1) [of "g d" n pr p] by auto
  next
    fix d n bs t k p and pr :: "'p progress" assume "ok (g d)" "valid_name n" "objs (g d) n = Some bs" "quiet pr" "tmp_room t (length bs + k)"
    then show "\<exists>p' t'. ds_get (lift_store g u V) n pr (d, p, t) = Some (Inr (), (d, p', t')) \<and> tmp_written t' = tmp_written t @ bs \<and> tmp_room t' k"
      using laws(2) [of "g d" n bs pr t k p] by auto
  next
    fix d n p t and pr :: "'p progress" assume "ok (g d)" "valid_name n" "objs (g d) n = None"
    then show "\<exists>p'. ds_get (lift_store g u V) n pr (d, p, t) = Some (Inl FileNotFoundException, (d, p', t))"
      using laws(3) [of "g d" n pr p t] by auto
  next
    fix d n s p and pr :: "'p progress" assume "ok (g d)" "valid_name n" "quiet pr" "any_inv s"
    then show "\<exists>d' p' s'. ds_put (lift_store g u V) n pr (d, p, s) = Some (Inr (), (d', p', s')) \<and> ok (g d') \<and> objs (g d') = (objs (g d))(n \<mapsto> any_rest s)"
      using laws(4) [of "g d" n pr s p] by auto
  next
    fix d n p and pr :: "'p progress" assume "ok (g d)" "valid_name n"
    then show "\<exists>d' p'. ds_unlink (lift_store g u V) n pr (d, p) = Some (Inr (objs (g d) n \<noteq> None), (d', p')) \<and> ok (g d') \<and> objs (g d') = (objs (g d))(n := None)"
      using laws(5) [of "g d" n pr p] by auto
  next
    fix d n p and pr :: "'p progress" assume "ok (g d)" "plain_name n" "objs (g d) (''/snapshot/'' @ n) \<noteq> None"
    then show "\<exists>p' ns. ds_list (lift_store g u V) ''/snapshot'' pr (d, p) = Some (Inr (map Some ns @ [None]), (d, p')) \<and> distinct ns
        \<and> set ns = {n. plain_name n \<and> objs (g d) (''/snapshot/'' @ n) \<noteq> None}"
      using laws(6) [of "g d" n pr p] by auto
  qed
qed

interpretation disk: data_store "disk_store root" "\<lambda>d. file_objects root (fst d)" "\<lambda>d. file_store_ok root (fst d)" for root
  unfolding disk_store_def by (rule data_store_lift [OF file_store.data_store_axioms]) auto

section \<open>Writing a file\<close>

definition out_data :: "FileStream \<Rightarrow> bytes" where
  "out_data s = (case mFp s of None \<Rightarrow> [] | Some f \<Rightarrow> cf_data f)"

definition out_room :: "string \<Rightarrow> FileStream \<Rightarrow> nat \<Rightarrow> bool" where
  "out_room path s k \<longleftrightarrow> mPath s = path \<and> (case mFp s of None \<Rightarrow> False
     | Some f \<Rightarrow> cf_mode f = FileMode_Write \<and> cf_pos f = length (cf_data f) \<and> cf_limit f = None)"

interpretation file_out: output_stream FileStream_write out_data "out_room path" for path
proof
  fix t :: FileStream and bs :: bytes
  assume "out_room path t (length bs)"
  then obtain f where f: "mFp t = Some f" "cf_mode f = FileMode_Write" "cf_pos f = length (cf_data f)" "cf_limit f = None" "mPath t = path"
    by (auto simp: out_room_def split: option.splits)
  from fwrite_append [OF f(2,3), of bs] f(4) obtain f' where f': "fwrite bs f = (length bs, f')" "cf_data f' = cf_data f @ bs"
    "cf_pos f' = length (cf_data f')" "cf_mode f' = FileMode_Write" "cf_limit f' = None" by (auto simp: limit_ok_def)
  then show "\<exists>t'. FileStream_write bs t = Some (Inr (), t') \<and> out_data t' = out_data t @ bs
      \<and> (\<forall>k. out_room path t (length bs + k) \<longrightarrow> out_room path t' k)"
    using f(1,5) by (simp add: FileStream_write_def out_data_def out_room_def)
qed (simp add: out_room_def)

section \<open>Directories\<close>

text \<open>A path and the directories it lies in.\<close>

function path_chain :: "string \<Rightarrow> string list" where
  "path_chain p = (if p = [] then [] else p # path_chain (parent_path p))"
  by pat_completeness auto
termination
  by (relation "measure length") (auto simp: parent_path_shorter)

declare path_chain.simps [simp del]

lemma parent_path_prefix: "prefix (parent_path p) p"
  by (auto simp: parent_path_def take_is_prefix split: option.splits)

lemma path_chain_prefix: "q \<in> set (path_chain p) \<Longrightarrow> prefix q p"
proof (induction p rule: path_chain.induct)
  case (1 p)
  show ?case
  proof (cases "p = []")
    case False
    with 1 show ?thesis using parent_path_prefix [of p] prefix_order.trans by (subst (asm) (2) path_chain.simps) auto
  qed (use 1 in \<open>simp add: path_chain.simps\<close>)
qed

lemma parent_path_Nil [simp]: "parent_path [] = []"
  using parent_path_prefix [of "[]"] by simp

lemma path_chain_parent: "q \<in> set (path_chain (parent_path p)) \<Longrightarrow> q \<in> set (path_chain p)"
  by (cases "p = []") (simp_all add: path_chain.simps [of p])

lemma not_in_parent_chain: "p \<noteq> [] \<Longrightarrow> p \<notin> set (path_chain (parent_path p))"
  using path_chain_prefix [of p "parent_path p"] parent_path_shorter [of p] prefix_length_le by fastforce

text \<open>A directory that exists, or that \<^verbatim>\<open>create_directories\<close> can create.\<close>

function can_make :: "filesys \<Rightarrow> string \<Rightarrow> bool" where
  "can_make fs p =
     (if fs_node fs p = Some DirNode then True
      else if fs_node fs p \<noteq> None \<or> p = [] \<or> filename p = ''.'' \<or> filename p = ''..'' then False
      else if parent_path p = [] then True
      else can_make fs (parent_path p))"
  by pat_completeness auto
termination
  by (relation "measure (\<lambda>(fs, p). length p)") (auto simp: parent_path_shorter)

declare can_make.simps [simp del]

text \<open>\<open>grows fs fs' ps\<close>: some of the paths \<open>ps\<close> that did not exist are directories now, and nothing else has changed.\<close>

definition grows :: "filesys \<Rightarrow> filesys \<Rightarrow> string set \<Rightarrow> bool" where
  "grows fs fs' ps \<longleftrightarrow> fs_bad fs' = fs_bad fs \<and> fs_limit fs' = fs_limit fs
     \<and> (\<forall>q. fs_node fs' q = fs_node fs q \<or> q \<in> ps \<and> fs_node fs q = None \<and> fs_node fs' q = Some DirNode)"

lemma grows_refl [simp]: "grows fs fs ps"
  by (simp add: grows_def)

lemma grows_mkdir:
  assumes "grows fs fs' ps" and "fs_node fs' p = None"
  shows "grows fs (fs_mkdir p fs') (insert p ps)"
proof -
  have "fs_node fs p = None" using assms unfolding grows_def by (metis option.distinct(1))
  then show ?thesis using assms by (auto simp: grows_def)
qed

lemma grows_mono: "grows fs fs' ps \<Longrightarrow> ps \<subseteq> qs \<Longrightarrow> grows fs fs' qs"
  unfolding grows_def by blast

lemma create_directories_grows:
  "can_make fs p \<Longrightarrow> fs_node fs p \<noteq> Some DirNode \<Longrightarrow>
   \<exists>b fs'. create_directories p fs = Some (Inr b, fs') \<and> fs_node fs' p = Some DirNode \<and> grows fs fs' (set (path_chain p))"
proof (induction fs p rule: can_make.induct)
  case (1 fs p)
  have p: "fs_node fs p = None" "p \<noteq> []" "filename p \<noteq> ''.''" "filename p \<noteq> ''..''" "parent_path p = [] \<or> can_make fs (parent_path p)"
    using 1(2,3) by (auto simp: can_make.simps [of fs p] split: if_splits)
  note simps = create_directories.simps [of p] create_directory_def path_chain.simps [of p]
  show ?case
  proof (cases "parent_path p = [] \<or> fs_node fs (parent_path p) = Some DirNode")
    case True
    then show ?thesis using p grows_mkdir [of fs fs "set (path_chain (parent_path p))" p] by (auto simp: simps)
  next
    case False
    then have "can_make fs (parent_path p)" "fs_node fs (parent_path p) = None" using p(5) by (auto simp: can_make.simps [of fs "parent_path p"] split: if_splits)
    with 1(1) p False obtain b fs' where fs': "create_directories (parent_path p) fs = Some (Inr b, fs')" "fs_node fs' (parent_path p) = Some DirNode"
      "grows fs fs' (set (path_chain (parent_path p)))" by auto
    have "fs_node fs' p = None" using fs'(3) p(1) not_in_parent_chain [OF p(2)] unfolding grows_def by metis
    with fs' p False \<open>fs_node fs (parent_path p) = None\<close> grows_mkdir [OF fs'(3)] show ?thesis by (auto simp: simps)
  qed
qed

text \<open>A path outside the directory of the store: it is not in it, and the store is not below it.\<close>

definition outside :: "string \<Rightarrow> string \<Rightarrow> bool" where
  "outside root p \<longleftrightarrow> \<not> prefix (root @ ''/'') p \<and> p \<noteq> root \<and> p \<notin> set (path_chain root)"

lemma outside_chain: "outside root p \<Longrightarrow> q \<in> set (path_chain p) \<Longrightarrow> \<not> prefix (root @ ''/'') q"
  using path_chain_prefix [of q p] prefix_order.trans unfolding outside_def by blast

lemma valid_slash: "valid_name n \<Longrightarrow> prefix (root @ ''/'') (root @ n)" "valid_dir n \<Longrightarrow> prefix (root @ ''/'') (root @ n)"
  by (auto simp: valid_name_def valid_dir_def prefix_def)

lemma under_file_step:
  "under_file fs p \<longleftrightarrow> p \<noteq> [] \<and> ((\<exists>d. fs_node fs (parent_path p) = Some (RegNode d)) \<or> under_file fs (parent_path p))"
  by (subst under_file.simps) (simp split: option.splits fnode.splits)

lemma under_file_chain:
  "(\<And>q. q \<in> set (path_chain (parent_path p)) \<or> q = [] \<Longrightarrow> (\<exists>d. fs_node fs' q = Some (RegNode d)) = (\<exists>d. fs_node fs q = Some (RegNode d))) \<Longrightarrow>
   under_file fs' p = under_file fs p"
proof (induction p rule: path_chain.induct)
  case (1 p)
  show ?case
  proof (cases "p = []")
    case False
    have "under_file fs' (parent_path p) = under_file fs (parent_path p)"
      using False 1 path_chain_parent by blast
    moreover have "(\<exists>d. fs_node fs' (parent_path p) = Some (RegNode d)) = (\<exists>d. fs_node fs (parent_path p) = Some (RegNode d))"
      using 1(2) [of "parent_path p"] by (simp add: path_chain.simps [of "parent_path p"])
    ultimately show ?thesis by (subst under_file_step, subst (2) under_file_step) (simp only:)
  qed (simp add: under_file.simps)
qed

text \<open>The store does not notice what happens outside of it.\<close>

lemma store_outside:
  assumes "file_store_ok root fs" and "fs_bad fs' = fs_bad fs" and "fs_limit fs' = fs_limit fs"
    and "\<And>q. q = root \<or> prefix (root @ ''/'') q \<Longrightarrow> fs_node fs' q = fs_node fs q" and "under_file fs' root = under_file fs root"
  shows "file_store_ok root fs'" and "file_objects root fs' = file_objects root fs"
proof -
  have root: "plain_dir root" using assms(1) by (simp add: file_store_ok_def)
  have same: "fs_node fs' (root @ n) = fs_node fs (root @ n)" if "valid_name n \<or> valid_dir n" for n
    using that assms(4) valid_slash by blast
  have "fs_node fs' (parent_path (root @ n)) = fs_node fs (parent_path (root @ n))" if "valid_name n" for n
    using valid_name_parent [OF root that] assms(4) [of root] same by auto
  then show "file_store_ok root fs'" using assms(1-3) assms(4) [of root] assms(5) same by (simp add: file_store_ok_def)
  show "file_objects root fs' = file_objects root fs" using same by (intro ext) (simp add: file_objects_def)
qed

lemma store_grows:
  assumes "file_store_ok root fs" and "grows fs fs' (set (path_chain p))" and "outside root q" and "set (path_chain p) \<subseteq> set (path_chain q)"
  shows "file_store_ok root fs'" and "file_objects root fs' = file_objects root fs"
proof -
  have dir: "fs_node fs root = Some DirNode" using assms(1) by (simp add: file_store_ok_def)
  have a: "fs_node fs' q' = fs_node fs q'" if "q' = root \<or> prefix (root @ ''/'') q'" for q'
    using that assms(2-4) dir outside_chain [OF assms(3)] unfolding grows_def by (metis option.distinct(1) subsetD)
  have "(\<exists>d. fs_node fs' q' = Some (RegNode d)) = (\<exists>d. fs_node fs q' = Some (RegNode d))" for q'
    using assms(2) unfolding grows_def by (metis fnode.distinct(1) option.distinct(1) option.inject)
  then have "under_file fs' root = under_file fs root" by (rule under_file_chain)
  with store_outside [OF assms(1) _ _ a] assms(2) show "file_store_ok root fs'" "file_objects root fs' = file_objects root fs"
    by (simp_all add: grows_def)
qed

lemma store_write_outside:
  assumes "file_store_ok root fs" and "outside root p" and "p \<noteq> []"
  shows "file_store_ok root (fs_write p d fs)" and "file_objects root (fs_write p d fs) = file_objects root fs"
proof -
  have "under_file (fs_write p d fs) root = under_file fs root"
    by (rule under_file_chain) (use assms(2,3) path_chain_parent in \<open>auto simp: outside_def\<close>)
  moreover have "fs_node (fs_write p d fs) q = fs_node fs q" if "q = root \<or> prefix (root @ ''/'') q" for q
    using that assms(2) by (auto simp: outside_def)
  ultimately show "file_store_ok root (fs_write p d fs)" "file_objects root (fs_write p d fs) = file_objects root fs"
    using store_outside [OF assms(1), of "fs_write p d fs"] by simp_all
qed

text \<open>What can be created can still be created after other files and directories have been.\<close>

lemma can_make_mono:
  "can_make fs p \<Longrightarrow> (\<And>q. q \<in> set (path_chain p) \<or> q = p \<Longrightarrow> fs_node fs' q = fs_node fs q \<or> fs_node fs' q = Some DirNode) \<Longrightarrow> can_make fs' p"
proof (induction fs p rule: can_make.induct)
  case (1 fs p)
  have p: "fs_node fs' p = fs_node fs p \<or> fs_node fs' p = Some DirNode" using 1(3) by blast
  show ?case
  proof (cases "fs_node fs' p = Some DirNode")
    case True
    then show ?thesis by (simp add: can_make.simps)
  next
    case False
    then have q: "fs_node fs p = None" "p \<noteq> []" "filename p \<noteq> ''.''" "filename p \<noteq> ''..''" "parent_path p = [] \<or> can_make fs (parent_path p)"
      "fs_node fs' p = None"
      using 1(2) p by (auto simp: can_make.simps [of fs p] split: if_splits)
    have "can_make fs' (parent_path p)" if "parent_path p \<noteq> []"
    proof (rule 1(1))
      show "fs_node fs' r = fs_node fs r \<or> fs_node fs' r = Some DirNode" if "r \<in> set (path_chain (parent_path p)) \<or> r = parent_path p" for r
        using 1(3) that path_chain_parent [of r p] path_chain.simps [of "parent_path p"] \<open>parent_path p \<noteq> []\<close> by fastforce
    qed (use q that in auto)
    then show ?thesis using q by (subst can_make.simps) simp
  qed
qed

section \<open>One file\<close>

text \<open>A machine on which nobody interrupts the program and temporary files can be written.\<close>

definition calm :: "('e, 'dc, 'h, 'm, 'l, 'z, 'w) machine \<Rightarrow> bool" where
  "calm M \<longleftrightarrow> (\<forall>n. \<not> sy_sig (m_sys M) n) \<and> disk_free (m_tmp M)"

lemma print_ok: "\<exists>c. print str w = Some (Inr (), w\<lparr>w_prog := c\<rparr>)"
  by (simp add: print_def on_console_def put_str_def) blast

lemma print_unless_quiet: "\<exists>c. (if q then return_io () else print str) w = Some (Inr (), w\<lparr>w_prog := c\<rparr>)"
  using print_ok [of str w] by (cases q) (auto intro: exI [of _ "w_prog w"])

lemma start_time_ok: "\<exists>t c. start_time M w = Some (Inr t, w\<lparr>w_prog := c\<rparr>)"
  by (simp add: start_time_def on_console_def zoom_io_def time_now_def) blast

lemma calm_quiet: "calm M \<Longrightarrow> quiet_transfer (transfer_progress (m_sys M) opts t)"
  by (simp add: calm_def quiet_transfer_def transfer_progress_quiet)

lemma work_updates: "w\<lparr>w_prog := c, w_store := x\<rparr> = w\<lparr>w_store := x, w_prog := c\<rparr>" for w :: "'w work"
  by (cases w) simp

lemma download_to_ok:
  fixes M :: "('e, 'dc, 'h, 'm, 'l, 'z, 'w) machine" and w :: "'w work"
  assumes "calm M" and "w_store w = (fs, a)" and "file_store_ok root fs" and "env_ok (m_env M) H (w_repo w)" and "snap_inv s" and "getFileEntry k s = Some fe"
    and "list_all2 (object_holds (m_env M) H (w_repo w) (file_objects root fs) fe) (entry_ids s fe) xs" and "xs \<noteq> []"
    and "outside root p" and "fs_can_create fs p"
  shows "\<exists>c. download_to M opts (disk_store root) s k p w = Some (Inr (), w\<lparr>w_store := (fs_write p (concat xs) fs, a), w_prog := c\<rparr>)"
proof -
  obtain t c where start: "start_time M w = Some (Inr t, w\<lparr>w_prog := c\<rparr>)" using start_time_ok by blast
  define f where "f = \<lparr>mFp = Some \<lparr>cf_data = [], cf_pos = 0, cf_mode = FileMode_Write, cf_error = False, cf_bad = map_of (fs_bad fs) p, cf_limit = fs_limit fs\<rparr>, mPath = p\<rparr>"
  have new: "FileStream_new p FileMode_Write fs = (Inr f, fs_write p [] fs)"
    using assms(10) by (simp add: FileStream_new_def FileStream_open_def FileStream_close_def FileStream_new0_def fopen_def f_def)
  have f: "out_room p f k" "out_data f = []" for k using assms(3) by (simp_all add: f_def out_room_def out_data_def file_store_ok_def)
  have p: "p \<noteq> []" using assms(10) by (simp add: fs_can_create_def)
  let ?w = "w\<lparr>w_store := (fs_write p [] fs, a), w_prog := c\<lparr>co_last := 0\<rparr>\<rparr>"
  have w: "file_store_ok root (fst (w_store ?w))" "env_ok (m_env M) H (w_repo ?w)" "disk_free (m_tmp M)"
    "list_all2 (object_holds (m_env M) H (w_repo ?w) (file_objects root (fst (w_store ?w))) fe) (entry_ids s fe) xs"
    using assms(1,4,7) store_write_outside [OF assms(3,9) p] by (simp_all add: calm_def)
  obtain c' f' where d: "downloadFile (m_env M) (m_tmp M) (disk_store root) s k FileStream_write (transfer_progress (m_sys M) opts t) (?w, f)
      = Some (Inr True, (?w\<lparr>w_prog := c'\<rparr>, f'))" "out_data f' = concat xs" "out_room p f' 0"
    using disk.downloadFile_ok [OF file_out.output_stream_axioms w(1,2) calm_quiet [OF assms(1)] w(3) assms(5,6) w(4) assms(8) f(1), of opts t 0] f(2) by auto
  have close: "FileStream_close (f', fs_write p [] fs) = Some (Inr (), (\<lparr>mFp = None, mPath = []\<rparr>, fs_write p (concat xs) fs))"
    using d(2,3) by (auto simp: FileStream_close_def fclose_def out_room_def out_data_def split: option.splits)
  obtain c'' where "(if quiet_opt opts then return_io () else print [newline]) (w\<lparr>w_store := (fs_write p (concat xs) fs, a), w_prog := c'\<rparr>)
      = Some (Inr (), w\<lparr>w_store := (fs_write p (concat xs) fs, a), w_prog := c''\<rparr>)"
    using print_unless_quiet [of "quiet_opt opts" "[newline]" "w\<lparr>w_store := (fs_write p (concat xs) fs, a), w_prog := c'\<rparr>"] by auto
  with start new d(1) close assms(2) show ?thesis by (simp add: download_to_def work_updates split del: if_split) blast
qed

text \<open>A path at which a file can be restored.\<close>

definition fresh_file :: "string \<Rightarrow> filesys \<Rightarrow> string \<Rightarrow> bool" where
  "fresh_file root fs p \<longleftrightarrow> p \<noteq> [] \<and> outside root p \<and> fs_node fs p = None \<and> map_of (fs_bad fs) p = None \<and> can_make fs (parent_path p)"

lemma make_parent:
  assumes "fresh_file root fs p" and "w_store w = (fs, a)"
  shows "\<exists>b fs'. (if fs_node fs (parent_path p) = Some DirNode then return_io False else on_disk (create_directories (parent_path p))) w
       = Some (Inr b, w\<lparr>w_store := (fs', a)\<rparr>) \<and> grows fs fs' (set (path_chain (parent_path p))) \<and> fs_can_create fs' p"
proof (cases "fs_node fs (parent_path p) = Some DirNode")
  case True
  then show ?thesis using assms by (intro exI [of _ False] exI [of _ fs]) (simp add: fs_can_create_def fresh_file_def)
next
  case False
  obtain b fs' where fs': "create_directories (parent_path p) fs = Some (Inr b, fs')" "fs_node fs' (parent_path p) = Some DirNode"
    "grows fs fs' (set (path_chain (parent_path p)))"
    using create_directories_grows [OF _ False] assms(1) by (auto simp: fresh_file_def)
  have "fs_node fs' p = None" using fs'(3) assms(1) not_in_parent_chain [of p] unfolding grows_def fresh_file_def by metis
  then show ?thesis using fs' False assms by (intro exI [of _ b] exI [of _ fs']) (simp add: fs_can_create_def fresh_file_def on_disk_def)
qed

lemma restore_entry_ok:
  fixes M :: "('e, 'dc, 'h, 'm, 'l, 'z, 'w) machine" and w :: "'w work"
  assumes "calm M" and "\<not> dryRun opts" and "w_store w = (fs, a)" and "file_store_ok root fs" and "env_ok (m_env M) H (w_repo w)" and "snap_inv s"
    and "getFileEntry k s = Some fe" and "entry_path s fe = Inr k"
    and "list_all2 (object_holds (m_env M) H (w_repo w) (file_objects root fs) fe) (entry_ids s fe) xs" and "xs \<noteq> []"
    and "digest_ok (m_env M) D" and "fe_md5 fe = D (concat xs)"
    and "sy_relative (m_sys M) k (parent_path src) = Inr rel" and "p = path_append dest rel" and "fresh_file root fs p"
  shows "\<exists>fs' c. restore_entry M opts (disk_store root) s dest src fe w = Some (Inr (), w\<lparr>w_store := (fs_write p (concat xs) fs', a), w_prog := c\<rparr>)
     \<and> grows fs fs' (set (path_chain (parent_path p)))"
proof -
  obtain path name where str: "indexToString s (sint (pathIndex fe)) = Inr path" "indexToString s (sint (nameIndex fe)) = Inr name" "k = path @ ''/'' @ name"
    using assms(8) by (auto simp: entry_path_def split: sum.splits)
  have p: "p \<noteq> []" "outside root p" "fs_node fs p = None" "map_of (fs_bad fs) p = None" using assms(15) by (simp_all add: fresh_file_def)
  obtain c1 where c1: "(if quiet_opt opts then return_io () else print (p @ [newline])) w = Some (Inr (), w\<lparr>w_prog := c1\<rparr>)"
    using print_unless_quiet by blast
  obtain b fs' where fs': "(if fs_node fs (parent_path p) = Some DirNode then return_io False else on_disk (create_directories (parent_path p))) (w\<lparr>w_prog := c1\<rparr>)
       = Some (Inr b, w\<lparr>w_prog := c1, w_store := (fs', a)\<rparr>)" "grows fs fs' (set (path_chain (parent_path p)))" "fs_can_create fs' p"
    using make_parent [OF assms(15), of "w\<lparr>w_prog := c1\<rparr>" a] assms(3) by auto
  let ?w = "w\<lparr>w_prog := c1, w_store := (fs', a)\<rparr>"
  have sub: "set (path_chain (parent_path p)) \<subseteq> set (path_chain p)" using path_chain_parent by blast
  note store = store_grows [OF assms(4) fs'(2) p(2) sub]
  have w: "w_store ?w = (fs', a)" "env_ok (m_env M) H (w_repo ?w)"
    "list_all2 (object_holds (m_env M) H (w_repo ?w) (file_objects root fs') fe) (entry_ids s fe) xs" using assms(5,9) store by simp_all
  obtain c where c: "download_to M opts (disk_store root) s k p ?w = Some (Inr (), ?w\<lparr>w_store := (fs_write p (concat xs) fs', a), w_prog := c\<rparr>)"
    using download_to_ok [OF assms(1) w(1) store(1) w(2) assms(6,7) w(3) assms(10) p(2) fs'(3)] by blast
  let ?w' = "w\<lparr>w_store := (fs_write p (concat xs) fs', a), w_prog := c\<rparr>"
  have ver: "(if verify opts then verify_file M fe p else return_io ()) ?w' = Some (Inr (), ?w')"
  proof -
    have "fs_node (fst (w_store ?w')) p = Some (RegNode (concat xs))" "map_of (fs_bad (fst (w_store ?w'))) p = None"
      using p(4) fs'(2) by (simp_all add: grows_def)
    moreover have "length (fe_md5 fe) = 16" using assms(11,12) unfolding digest_ok_def by (metis append_Nil2 concat.simps)
    ultimately show ?thesis using verify_file_ok [of ?w' p "concat xs" M D fe] assms(11,12) by simp
  qed
  have may: "may_overwrite opts p w = Some (Inr True, w)" using p(3) assms(3) by (simp add: may_overwrite_def)
  have "restore_entry M opts (disk_store root) s dest src fe w = Some (Inr (), ?w')"
    using str may [unfolded assms(14)] c1 [unfolded assms(14)] fs'(1) [unfolded assms(14)] c [unfolded assms(14)] ver [unfolded assms(14)] assms(2,3,13)
    unfolding assms(14) by (simp add: restore_entry_def Let_def work_updates split del: if_split)
  with fs'(2) show ?thesis by blast
qed

section \<open>All files\<close>

text \<open>What the entries of a snapshot stand for: the objects of the entry of \<open>k\<close> hold the bytes \<open>content k\<close>, whose digest it has.\<close>

definition snapshot_holds ::
    "('e, 'dc, 'h, 'm, 'l, 'z) env \<Rightarrow> (bytes \<Rightarrow> bytes \<Rightarrow> bytes) \<Rightarrow> (bytes \<Rightarrow> bytes) \<Rightarrow> Repository \<Rightarrow> (string \<rightharpoonup> bytes) \<Rightarrow> Snapshot \<Rightarrow>
     (string \<Rightarrow> bytes) \<Rightarrow> bool" where
  "snapshot_holds E H D R objs s content \<longleftrightarrow> (\<forall>(k, fe) \<in> set (mFiles s). fe_md5 fe = D (content k)
     \<and> (\<exists>xs. xs \<noteq> [] \<and> concat xs = content k \<and> list_all2 (object_holds E H R objs fe) (entry_ids s fe) xs))"

text \<open>The destinations of the files: distinct, and none is needed as a directory for another.\<close>

definition destinations :: "string \<Rightarrow> filesys \<Rightarrow> string list \<Rightarrow> bool" where
  "destinations root fs ps \<longleftrightarrow> distinct ps \<and> (\<forall>p \<in> set ps. fresh_file root fs p \<and> (\<forall>q \<in> set ps. p \<notin> set (path_chain (parent_path q))))"

definition restored :: "filesys \<Rightarrow> filesys \<Rightarrow> (string \<times> bytes) list \<Rightarrow> bool" where
  "restored fs fs' files \<longleftrightarrow> (\<forall>(p, d) \<in> set files. fs_node fs' p = Some (RegNode d))
     \<and> (\<forall>q. q \<notin> fst ` set files \<longrightarrow> fs_node fs' q = fs_node fs q \<or> fs_node fs q = None \<and> fs_node fs' q = Some DirNode)"

lemma destinations_later:
  assumes "destinations root fs (p # ps)" and "grows fs fs' (set (path_chain (parent_path p)))"
  shows "destinations root (fs_write p d fs') ps"
proof -
  have bad: "fs_bad fs' = fs_bad fs" using assms(2) by (simp add: grows_def)
  have "fresh_file root (fs_write p d fs') q" if q: "q \<in> set ps" for q
  proof -
    have ne: "q \<noteq> p" "q \<notin> set (path_chain (parent_path p))" "p \<notin> set (path_chain (parent_path q))" "p \<noteq> []"
      and fresh: "fresh_file root fs q"
      using assms(1) q by (auto simp: destinations_def fresh_file_def)
    have "fs_node fs' q = fs_node fs q" using assms(2) ne(2) unfolding grows_def by metis
    moreover have "can_make (fs_write p d fs') (parent_path q)"
    proof (rule can_make_mono)
      show "can_make fs (parent_path q)" using fresh by (simp add: fresh_file_def)
      fix r assume "r \<in> set (path_chain (parent_path q)) \<or> r = parent_path q"
      then have "r \<noteq> p" using ne(3,4) by (auto simp: path_chain.simps [of "parent_path q"] split: if_splits)
      then show "fs_node (fs_write p d fs') r = fs_node fs r \<or> fs_node (fs_write p d fs') r = Some DirNode"
        using assms(2) unfolding grows_def by auto
    qed
    ultimately show ?thesis using fresh ne(1) bad by (simp add: fresh_file_def)
  qed
  with assms(1) show ?thesis by (auto simp: destinations_def)
qed

lemma restored_step:
  assumes "restored (fs_write p d fs1) fs' files" and "grows fs fs1 ps" and "p \<notin> fst ` set files"
  shows "restored fs fs' ((p, d) # files)"
proof -
  have "fs_node fs' p = Some (RegNode d)" using assms(1,3) unfolding restored_def by fastforce
  moreover have "fs_node fs' q = fs_node fs q \<or> fs_node fs q = None \<and> fs_node fs' q = Some DirNode"
    if "q \<noteq> p" "q \<notin> fst ` set files" for q
    using assms(1,2) that unfolding restored_def grows_def by (metis fs_node_write)
  ultimately show ?thesis using assms(1) unfolding restored_def by auto
qed

lemma restore_entries_ok:
  fixes M :: "('e, 'dc, 'h, 'm, 'l, 'z, 'w) machine" and w :: "'w work"
  assumes "calm M" and "\<not> dryRun opts" and "snap_inv s" and "digest_ok (m_env M) D"
  shows "\<lbrakk>w_store w = (fs, a); file_store_ok root fs; env_ok (m_env M) H (w_repo w);
      \<And>k fe. (k, fe) \<in> set es \<Longrightarrow> getFileEntry k s = Some fe \<and> entry_path s fe = Inr k \<and> fe_md5 fe = D (content k)
         \<and> (\<exists>xs. xs \<noteq> [] \<and> concat xs = content k \<and> list_all2 (object_holds (m_env M) H (w_repo w) (file_objects root fs) fe) (entry_ids s fe) xs)
         \<and> sy_relative (m_sys M) k (parent_path src) = Inr (rel k);
      destinations root fs (map (\<lambda>(k, fe). path_append dest (rel k)) es)\<rbrakk> \<Longrightarrow>
    \<exists>fs' c. feed (restore_entry M opts (disk_store root) s dest src) (map snd es) w = Some (Inr (), w\<lparr>w_store := (fs', a), w_prog := c\<rparr>)
      \<and> file_store_ok root fs' \<and> file_objects root fs' = file_objects root fs
      \<and> restored fs fs' (map (\<lambda>(k, fe). (path_append dest (rel k), content k)) es)"
proof (induction es arbitrary: w fs)
  case Nil
  then show ?case by (intro exI [of _ fs] exI [of _ "w_prog w"]) (simp add: restored_def)
next
  case (Cons e es)
  obtain k fe where e: "e = (k, fe)" by force
  let ?p = "path_append dest (rel k)"
  obtain xs where k: "getFileEntry k s = Some fe" "entry_path s fe = Inr k" "fe_md5 fe = D (concat xs)" "xs \<noteq> []" "concat xs = content k"
    "list_all2 (object_holds (m_env M) H (w_repo w) (file_objects root fs) fe) (entry_ids s fe) xs" "sy_relative (m_sys M) k (parent_path src) = Inr (rel k)"
    using Cons.prems(4) [of k fe] e by auto
  have dests: "destinations root fs (?p # map (\<lambda>(k, fe). path_append dest (rel k)) es)" using Cons.prems(5) e by simp
  then have fresh: "fresh_file root fs ?p" by (simp add: destinations_def)
  obtain fs1 c where one: "restore_entry M opts (disk_store root) s dest src fe w = Some (Inr (), w\<lparr>w_store := (fs_write ?p (content k) fs1, a), w_prog := c\<rparr>)"
    "grows fs fs1 (set (path_chain (parent_path ?p)))"
    using restore_entry_ok [OF assms(1,2) Cons.prems(1-3) assms(3) k(1,2,6,4) assms(4) k(3,7) refl fresh] k(5) by auto
  let ?fs = "fs_write ?p (content k) fs1" and ?w = "w\<lparr>w_store := (fs_write ?p (content k) fs1, a), w_prog := c\<rparr>"
  have p: "outside root ?p" "?p \<noteq> []" using fresh by (simp_all add: fresh_file_def)
  have sub: "set (path_chain (parent_path ?p)) \<subseteq> set (path_chain ?p)" using path_chain_parent by blast
  note grown = store_grows [OF Cons.prems(2) one(2) p(1) sub]
  have store: "file_store_ok root ?fs" "file_objects root ?fs = file_objects root fs"
    using store_write_outside [OF grown(1) p] grown(2) by simp_all
  have rest: "getFileEntry k' s = Some fe' \<and> entry_path s fe' = Inr k' \<and> fe_md5 fe' = D (content k')
         \<and> (\<exists>xs. xs \<noteq> [] \<and> concat xs = content k' \<and> list_all2 (object_holds (m_env M) H (w_repo ?w) (file_objects root ?fs) fe') (entry_ids s fe') xs)
         \<and> sy_relative (m_sys M) k' (parent_path src) = Inr (rel k')" if "(k', fe') \<in> set es" for k' fe'
    using Cons.prems(4) [of k' fe'] that store(2) by simp
  obtain fs' c' where fs': "feed (restore_entry M opts (disk_store root) s dest src) (map snd es) ?w = Some (Inr (), ?w\<lparr>w_store := (fs', a), w_prog := c'\<rparr>)"
    "file_store_ok root fs'" "file_objects root fs' = file_objects root ?fs" "restored ?fs fs' (map (\<lambda>(k, fe). (path_append dest (rel k), content k)) es)"
    using Cons.IH [OF _ store(1) _ rest destinations_later [OF dests one(2)]] Cons.prems(3) by auto
  have "restored fs fs' ((?p, content k) # map (\<lambda>(k, fe). (path_append dest (rel k), content k)) es)"
    by (rule restored_step [OF fs'(4) one(2)]) (use dests in \<open>force simp: destinations_def\<close>)
  then show ?case using one(1) fs'(1-3) store(2) e by (intro exI [of _ fs'] exI [of _ c']) simp
qed

section \<open>The command\<close>

definition crypto_ok :: "('e, 'dc, 'h, 'm, 'l, 'z) env \<Rightarrow> (bytes \<Rightarrow> bytes \<Rightarrow> bytes) \<Rightarrow> (bytes \<Rightarrow> bytes) \<Rightarrow> bool" where
  "crypto_ok E H D \<longleftrightarrow> hmac_ok E H \<and> (\<forall>k. cipher_ok E k) \<and> lzma_ok E \<and> digest_ok E D"

lemma crypto_okD:
  assumes "crypto_ok E H D"
  shows "hmac_ok E H" "cipher_ok E k" "lzma_ok E" "digest_ok E D" "env_ok E H R"
  using assms by (simp_all add: crypto_ok_def env_ok_def)

text \<open>A directory with a repository that the password opens, and a line that can be typed as a password.\<close>

definition repository_at ::
    "('e, 'dc, 'h, 'm, 'l, 'z) env \<Rightarrow> (bytes \<Rightarrow> bytes \<Rightarrow> bytes) \<Rightarrow> string \<Rightarrow> Repository \<Rightarrow> string \<Rightarrow> filesys \<Rightarrow> bool" where
  "repository_at E H password R root fs \<longleftrightarrow> file_store_ok root fs \<and> keys_ok R
     \<and> (\<exists>kf. file_objects root fs ''/key'' = Some kf \<and> key_file E H password (all_keys R) kf)"

definition typed :: "string \<Rightarrow> console \<Rightarrow> bool" where
  "typed line c \<longleftrightarrow> line \<noteq> [] \<and> newline \<notin> set line \<and> NUL \<notin> set line \<and> length line \<le> 62 \<and> (\<exists>rest. co_in c = line @ newline # rest)"

lemma prompt_typed:
  assumes "typed line c"
  shows "\<exists>c'. promptReadPassword False c = Some (Inr line, c')"
proof -
  obtain rest where l: "line \<noteq> []" "newline \<notin> set line" "NUL \<notin> set line" "length line \<le> 62" "co_in (c\<lparr>co_echo := False\<rparr>) = line @ newline # rest"
    using assms by (auto simp: typed_def)
  show ?thesis using prompt_line_ok [OF l(2,4,5), of "''Password: ''"] trim_newlines_line [OF l(1-3)]
    by (simp add: promptReadPassword_def enableConsoleOutput_def finally_io_def)
qed

lemma unlock_with_prompt_ok:
  fixes M :: "('e, 'dc, 'h, 'm, 'l, 'z, 'w) machine" and w :: "'w work"
  assumes "calm M" and "crypto_ok (m_env M) H D" and "repository_at (m_env M) H password R root (fst (w_store w))" and "keys_ok (w_repo w)"
    and "typed password (w_prog w)"
  shows "\<exists>c R'. unlock_with_prompt M (disk_store root) w = Some (Inr password, w\<lparr>w_prog := c, w_repo := R'\<rparr>) \<and> same_keys R R'
     \<and> mOptions R' = mOptions (w_repo w)"
proof -
  obtain kf where kf: "file_store_ok root (fst (w_store w))" "keys_ok R" "file_objects root (fst (w_store w)) ''/key'' = Some kf"
    "key_file (m_env M) H password (all_keys R) kf" using assms(3) by (auto simp: repository_at_def)
  obtain c where c: "promptReadPassword False (w_prog w) = Some (Inr password, c)" using prompt_typed [OF assms(5)] by blast
  let ?w = "w\<lparr>w_prog := c\<rparr>"
  have w: "file_store_ok root (fst (w_store ?w))" "file_objects root (fst (w_store ?w)) ''/key'' = Some kf" "keys_ok (w_repo ?w)"
    using kf(1,3) assms(4) by simp_all
  obtain c' R' where "unlockRepository (m_env M) (m_tmp M) (disk_store root) password DefaultProgressFunction ?w = Some (Inr True, ?w\<lparr>w_prog := c', w_repo := R'\<rparr>)"
    "same_keys R R'" "mOptions R' = mOptions (w_repo w)"
    using disk.unlock_ok [OF w(1,2) kf(4,2) w(3) crypto_okD(1,2) [OF assms(2)] quiet_default, of "m_tmp M"] assms(1) by (auto simp: calm_def)
  with c show ?thesis by (simp add: unlock_with_prompt_def on_console_def) blast
qed

text \<open>The session a command starts with.\<close>

abbreviation new_session :: "('e, 'dc, 'h, 'm, 'l, 'z, 'w) machine \<Rightarrow> 'w cli \<Rightarrow> 'w work" where
  "new_session M s \<equiv> \<lparr>w_repo = Repository_new (m_env M) None, w_store = (c_disk s, c_aws s), w_prog = c_con s, w_rng = c_rng s\<rparr>"

lemma new_keys_ok [simp]: "keys_ok (Repository_new E None)"
  by (simp add: Repository_new_def keys_ok_def EVP_MAX_KEY_LENGTH_def)

lemma open_disk_store:
  assumes "backend opts \<noteq> ''s3''" and "fs_node (c_disk s) root \<noteq> None"
  shows "createDataStoreFromRepository M opts root s = Some (Inr (disk_store root), s)"
  using assms by (simp add: createDataStoreFromRepository_def)

lemma canonical_key:
  assumes "snap_inv s" and "canonical s" and "(k, fe) \<in> set (mFiles s)"
  shows "getFileEntry k s = Some fe" "entry_path s fe = Inr k" "cstr k = k"
proof -
  show path: "entry_path s fe = Inr k" using assms(2,3) by (auto simp: canonical_def)
  have nul: "NUL \<notin> set k" using path by (auto simp: entry_path_def indexToString_def cstr_def NUL_def dest!: set_takeWhileD split: sum.splits if_splits)
  then show "cstr k = k" by simp
  have "distinct (map fst (mFiles s))" using assms(1) by (auto simp: snap_inv_def smap_ok_def dest: strict_sorted_imp_sorted intro: strict_sorted_iff [THEN iffD1, THEN conjunct2])
  then show "getFileEntry k s = Some fe" using assms(3) nul by (simp add: getFileEntry_def smap_find_def)
qed

lemma subtree_all:
  assumes "canonical s"
  shows "forEachFileEntry_subpath s [] callback = feed callback (map snd (mFiles s))"
proof -
  have "subtree_loop s [] callback m = feed callback (map snd m)" if "\<forall>(k, fe) \<in> set m. entry_path s fe = Inr k" for m
    using that by (induction m) (auto simp: in_subtree_def seq_io_def)
  moreover have "smap_lower_bound [] (mFiles s) = mFiles s" by (cases "mFiles s") (auto simp: smap_lower_bound_def)
  ultimately show ?thesis using assms by (simp add: forEachFileEntry_subpath_def strip_slashes_def cstr_def canonical_def)
qed

text \<open>Everything the command needs to restore a snapshot: the snapshot is in the store, its objects hold the contents of the files, and there is a
  place for every file.\<close>

definition restorable ::
    "('e, 'dc, 'h, 'm, 'l, 'z, 'w) machine \<Rightarrow> (bytes \<Rightarrow> bytes \<Rightarrow> bytes) \<Rightarrow> (bytes \<Rightarrow> bytes) \<Rightarrow> Repository \<Rightarrow> string \<Rightarrow> filesys \<Rightarrow> string \<Rightarrow> Snapshot \<Rightarrow>
     (string \<Rightarrow> bytes) \<Rightarrow> bool" where
  "restorable M H D R root fs name s content \<longleftrightarrow> snap_inv s \<and> canonical s \<and> plain_name (cstr name)
     \<and> (\<exists>y. file_objects root fs (snapshot_path name) = Some y \<and> sealed_snapshot (m_env M) H R s y)
     \<and> snapshot_holds (m_env M) H D R (file_objects root fs) s content"

definition placed :: "('e, 'dc, 'h, 'm, 'l, 'z, 'w) machine \<Rightarrow> string \<Rightarrow> filesys \<Rightarrow> string \<Rightarrow> (string \<Rightarrow> string) \<Rightarrow> Snapshot \<Rightarrow> bool" where
  "placed M root fs dest rel s \<longleftrightarrow> fs_node fs dest = Some DirNode \<and> (\<forall>(k, fe) \<in> set (mFiles s). sy_relative (m_sys M) k [] = Inr (rel k))
     \<and> destinations root fs (map (\<lambda>(k, fe). path_append dest (rel k)) (mFiles s))"

lemma restore_session_ok:
  fixes M :: "('e, 'dc, 'h, 'm, 'l, 'z, 'w) machine" and w :: "'w work"
  assumes "calm M" and "crypto_ok (m_env M) H D" and "\<not> dryRun opts" and "w_store w = (fs, a)" and "file_store_ok root fs" and "same_keys R (w_repo w)"
    and "restorable M H D R root fs name s0 content" and "placed M root fs dest rel s0"
  shows "\<exists>c fs'. bind_io (loadSnapshot (m_env M) (m_tmp M) (disk_store root) name DefaultProgressFunction) (\<lambda>snapshot.
        feed (\<lambda>srcFile. forEachFileEntry_subpath snapshot srcFile (restore_entry M opts (disk_store root) snapshot dest srcFile)) [[]]) w
      = Some (Inr (), w\<lparr>w_store := (fs', a), w_prog := c\<rparr>) \<and> file_store_ok root fs' \<and> file_objects root fs' = file_objects root fs
      \<and> restored fs fs' (map (\<lambda>(k, fe). (path_append dest (rel k), content k)) (mFiles s0))"
proof -
  note crypto = crypto_okD [OF assms(2)]
  obtain y where s0: "snap_inv s0" "canonical s0" "plain_name (cstr name)" "file_objects root (fst (w_store w)) (snapshot_path name) = Some y"
    "sealed_snapshot (m_env M) H R s0 y" "snapshot_holds (m_env M) H D R (file_objects root fs) s0 content"
    using assms(4,7) by (auto simp: restorable_def)
  have keys: "mEncKey (w_repo w) = mEncKey R" "mMacKey (w_repo w) = mMacKey R" using assms(6) by (simp_all add: same_keys_def)
  have ok: "file_store_ok root (fst (w_store w))" "sealed_snapshot (m_env M) H (w_repo w) s0 y" "disk_free (m_tmp M)"
    using assms(1,4,5) s0(5) keys by (simp_all add: sealed_snapshot_def calm_def)
  obtain c s where s: "loadSnapshot (m_env M) (m_tmp M) (disk_store root) name DefaultProgressFunction w = Some (Inr s, w\<lparr>w_prog := c\<rparr>)"
    "mFiles s = mFiles s0" "mStringBuffer s = mStringBuffer s0" "mObjectIDs s = mObjectIDs s0" "snap_inv s"
    using disk.loadSnapshot_ok [OF ok(1) s0(4) ok(2) s0(1-3) crypto(1,2) quiet_default ok(3)] by blast
  have path: "entry_path s = entry_path s0" "entry_ids s = entry_ids s0"
    by (intro ext, simp add: entry_path_def indexToString_def entry_ids_def s(3,4))+
  then have canon: "canonical s" using s0(2) s(2) by (simp add: canonical_def)
  have "object_holds (m_env M) H (w_repo w) = object_holds (m_env M) H R" by (intro ext) (simp add: object_holds_def keys)
  then have es: "getFileEntry k s = Some fe \<and> entry_path s fe = Inr k \<and> fe_md5 fe = D (content k)
         \<and> (\<exists>xs. xs \<noteq> [] \<and> concat xs = content k
              \<and> list_all2 (object_holds (m_env M) H (w_repo (w\<lparr>w_prog := c\<rparr>)) (file_objects root fs) fe) (entry_ids s fe) xs)
         \<and> sy_relative (m_sys M) k (parent_path []) = Inr (rel k)" if "(k, fe) \<in> set (mFiles s)" for k fe
    using that canonical_key [OF s(5) canon that] s0(6) assms(8) s(2) path(2) by (fastforce simp: snapshot_holds_def placed_def)
  have w: "w_store (w\<lparr>w_prog := c\<rparr>) = (fs, a)" "destinations root fs (map (\<lambda>(k, fe). path_append dest (rel k)) (mFiles s))"
    using assms(4,8) s(2) by (simp_all add: placed_def)
  obtain fs' c' where "feed (restore_entry M opts (disk_store root) s dest []) (map snd (mFiles s)) (w\<lparr>w_prog := c\<rparr>)
      = Some (Inr (), w\<lparr>w_prog := c, w_store := (fs', a), w_prog := c'\<rparr>)" "file_store_ok root fs'" "file_objects root fs' = file_objects root fs"
    "restored fs fs' (map (\<lambda>(k, fe). (path_append dest (rel k), content k)) (mFiles s))"
    using restore_entries_ok [where es = "mFiles s" and content = content and rel = rel and src = "[]",
        OF assms(1,3) s(5) crypto(4) w(1) assms(5) crypto(5) es w(2)] by auto
  with s(1,2) show ?thesis by (intro exI [of _ c'] exI [of _ fs']) (simp add: subtree_all [OF canon])
qed

lemma restore_run:
  fixes M :: "('e, 'dc, 'h, 'm, 'l, 'z, 'w) machine"
  assumes "calm M" and "crypto_ok (m_env M) H D" and "parse_flags flags Cli_Options_new = Some opts" and "\<not> dryRun opts" and "backend opts \<noteq> ''s3''"
    and "repository_at (m_env M) H password R root (c_disk s)" and "typed password (c_con s)"
    and "restorable M H D R root (c_disk s) name s0 content" and "placed M root (c_disk s) dest rel s0"
  shows "\<exists>s'. run_action M opts [''restore'', root, name, dest] s = Some (Inr (), s') \<and> main M flags [''restore'', root, name, dest] s = Some (Inr 0, s')
     \<and> c_aws s' = c_aws s \<and> file_store_ok root (c_disk s') \<and> file_objects root (c_disk s') = file_objects root (c_disk s)
     \<and> restored (c_disk s) (c_disk s') (map (\<lambda>(k, fe). (path_append dest (rel k), content k)) (mFiles s0))"
proof -
  have ok: "file_store_ok root (c_disk s)" using assms(6) by (simp add: repository_at_def)
  then have "fs_node (c_disk s) root \<noteq> None" by (simp add: file_store_ok_def)
  note store = open_disk_store [OF assms(5) this, of M]
  let ?w = "new_session M s"
  obtain c R' where un: "unlock_with_prompt M (disk_store root) ?w = Some (Inr password, ?w\<lparr>w_prog := c, w_repo := R'\<rparr>)" "same_keys R R'"
    using unlock_with_prompt_ok [OF assms(1,2), of password R root ?w] assms(6,7) by auto
  obtain c' fs' where run: "bind_io (loadSnapshot (m_env M) (m_tmp M) (disk_store root) name DefaultProgressFunction) (\<lambda>snapshot.
        feed (\<lambda>srcFile. forEachFileEntry_subpath snapshot srcFile (restore_entry M opts (disk_store root) snapshot dest srcFile)) [[]])
        (?w\<lparr>w_prog := c, w_repo := R'\<rparr>) = Some (Inr (), ?w\<lparr>w_prog := c, w_repo := R', w_store := (fs', c_aws s), w_prog := c'\<rparr>)"
    "file_store_ok root fs'" "file_objects root fs' = file_objects root (c_disk s)"
    "restored (c_disk s) fs' (map (\<lambda>(k, fe). (path_append dest (rel k), content k)) (mFiles s0))"
    using restore_session_ok [OF assms(1,2,4) _ ok _ assms(8,9), of "?w\<lparr>w_prog := c, w_repo := R'\<rparr>" "c_aws s"] un(2) by auto
  have dir: "fs_node (c_disk s) dest = Some DirNode" using assms(9) by (simp add: placed_def)
  let ?s = "s\<lparr>c_disk := fs', c_aws := c_aws s, c_con := c', c_rng := c_rng s\<rparr>"
  have cmd: "run_action M opts [''restore'', root, name, dest] s = Some (Inr (), ?s)"
    using un(1) run(1) dir store by (simp add: run_action_def cli_downloadFiles_def with_repository_def)
  have "main M flags [''restore'', root, name, dest] s = Some (Inr 0, ?s)" using assms(3) by (simp add: main_def cmd)
  with cmd run(2-4) show ?thesis by (intro exI [of _ ?s]) simp
qed

end
