(* ===== verification/Backup_Command.thy ===== *)
theory Backup_Command
  imports Restore_Command
begin

text \<open>
  The command \<^verbatim>\<open>backup\<close>: small files on their way through the packs into a snapshot, and the run of the command with all of them. Together
  with \<^verbatim>\<open>Restore_Command\<close> this gives the round trip of a directory through the program.
\<close>

section \<open>The entries of a pack\<close>

definition split_path :: "string \<Rightarrow> bool" where
  "split_path p \<longleftrightarrow> p = parent_path p @ ''/'' @ filename p"

lemma pack_entries_all:
  assumes "length oid = 32"
  shows "\<lbrakk>snap_inv s; canonical s; \<And>fi. fi \<in> set fis \<Longrightarrow> info_ok fi \<and> split_path (pi_path fi); pack_room s (fis @ later); distinct (map pi_path fis);
      \<And>fi. fi \<in> set fis \<Longrightarrow> getFileEntry (pi_path fi) s = None\<rbrakk> \<Longrightarrow>
    \<exists>s' x. feed (pack_entry oid) fis s = Some (Inr (), s') \<and> snap_inv s' \<and> canonical s' \<and> pack_room s' later \<and> mObjectIDs s' = mObjectIDs s @ x
     \<and> (\<forall>p. cstr p \<notin> pi_path ` set fis \<longrightarrow> getFileEntry p s' = getFileEntry p s) \<and> (\<forall>fi \<in> set fis. \<exists>fe. packed_entry s' oid fi fe)
     \<and> fst ` set (mFiles s') = fst ` set (mFiles s) \<union> pi_path ` set fis"
proof (induction fis arbitrary: s)
  case Nil
  then show ?case by simp
next
  case (Cons fi fis)
  have fi: "info_ok fi" "split_path (pi_path fi)" "getFileEntry (pi_path fi) s = None" using Cons.prems(3,6) by auto
  have room: "pack_room s (fi # fis @ later)" using Cons.prems(4) by simp
  from pack_entry_ok [OF Cons.prems(1) fi(1) room assms] obtain s1 where
    s1: "pack_entry oid fi s = Some (Inr (), s1)" "snap_inv s1" "pack_room s1 (fis @ later)" "mObjectIDs s1 = mObjectIDs s @ [oid]"
    "\<forall>p. cstr p \<noteq> pi_path fi \<longrightarrow> getFileEntry p s1 = getFileEntry p s"
    and more: "\<exists>fe. packed_entry s1 oid fi fe" "\<exists>fe. mFiles s1 = smap_insert (pi_path fi) fe (mFiles s)" "canonical s1"
    using fi(2,3) Cons.prems(2) unfolding split_path_def by blast
  from more(1) obtain fe where fe: "packed_entry s1 oid fi fe" by blast
  have keys: "fst ` set (mFiles s1) = insert (pi_path fi) (fst ` set (mFiles s))" using more(2) by (metis keys_smap_insert)
  have new: "getFileEntry (pi_path f) s1 = None" if "f \<in> set fis" for f
  proof -
    have "pi_path f \<in> pi_path ` set fis" using that by (rule imageI)
    then have "pi_path f \<noteq> pi_path fi" using Cons.prems(5) by auto
    moreover have "cstr (pi_path f) = pi_path f" using Cons.prems(3) [of f] that by (simp add: info_ok_def)
    ultimately show ?thesis using s1(5) Cons.prems(6) [of f] that by simp
  qed
  obtain s' x where s': "feed (pack_entry oid) fis s1 = Some (Inr (), s')" "snap_inv s'" "canonical s'" "pack_room s' later" "mObjectIDs s' = mObjectIDs s1 @ x"
    "\<forall>p. cstr p \<notin> pi_path ` set fis \<longrightarrow> getFileEntry p s' = getFileEntry p s1" "\<forall>fi \<in> set fis. \<exists>fe. packed_entry s' oid fi fe"
    "fst ` set (mFiles s') = fst ` set (mFiles s1) \<union> pi_path ` set fis"
    using Cons.IH [OF s1(2) more(3) _ s1(3) _ new] Cons.prems(3,5) by auto
  have "pi_path fi \<notin> pi_path ` set fis" "cstr (pi_path fi) = pi_path fi" using Cons.prems(5) fi(1) by (auto simp: info_ok_def)
  then have "getFileEntry (pi_path fi) s' = Some fe" using s'(6) fe by (simp add: packed_entry_def)
  moreover have "entry_ids s' fe = entry_ids s1 fe"
    using entry_ids_append [OF s1(2) _ s'(5), of "pi_path fi" fe] fe by (simp add: packed_entry_def)
  ultimately have "packed_entry s' oid fi fe" using fe by (simp add: packed_entry_def)
  then show ?case using s1(1,4,5) keys s'
    by (intro exI [of _ s'] exI [of _ "oid # x"]) (auto simp: image_iff)
qed

section \<open>Finalizing a pack\<close>

text \<open>The files of a pack, with the contents and digests they stand for.\<close>

definition pack_holds :: "(bytes \<Rightarrow> bytes) \<Rightarrow> (string \<Rightarrow> bytes) \<Rightarrow> 'h PackUploadState \<Rightarrow> bool" where
  "pack_holds D content ps \<longleftrightarrow> ps_packData ps = map (content \<circ> pi_path) (ps_fileInfos ps)
     \<and> (\<forall>fi \<in> set (ps_fileInfos ps). pi_md5 fi = D (content (pi_path fi)) \<and> split_path (pi_path fi)) \<and> distinct (map pi_path (ps_fileInfos ps))"

text \<open>No file becomes larger than \<open>b\<close> bytes when it is sealed.\<close>

definition sealed_bound :: "('e, 'dc, 'h, 'm, 'l, 'z) env \<Rightarrow> (bytes \<Rightarrow> bytes \<Rightarrow> bytes) \<Rightarrow> Repository \<Rightarrow> bytes set \<Rightarrow> nat \<Rightarrow> bool" where
  "sealed_bound E H R X b \<longleftrightarrow> (\<forall>x \<in> X. \<forall>ct y. sealed E H ct (mEncKey R) (mMacKey R) x y \<longrightarrow> length y \<le> b)"

lemma sealed_files_length:
  assumes "sealed_files E H R fis ds ys" and "sealed_bound E H R (set ds) b"
  shows "length (concat ys) \<le> length ds * b"
proof -
  have n: "length ds = length fis" "length ys = length ds" using assms(1) by (simp_all add: sealed_files_def)
  have "length y \<le> b" if y: "y \<in> set ys" for y
  proof -
    obtain i where i: "i < length ys" "y = ys ! i" using y by (metis in_set_conv_nth)
    then have "sealed E H (pi_compression (fis ! i)) (mEncKey R) (mMacKey R) (ds ! i) y" using assms(1) n by (simp add: sealed_files_def)
    moreover have "ds ! i \<in> set ds" using i n by simp
    ultimately show ?thesis using assms(2) unfolding sealed_bound_def by blast
  qed
  then have "length (concat ys) \<le> length ys * b" by (induction ys) (auto intro: add_mono)
  with n show ?thesis by simp
qed

lemma object_holds_mono: "object_holds E H R objs fe oid x \<Longrightarrow> objs \<subseteq>\<^sub>m objs' \<Longrightarrow> object_holds E H R objs' fe oid x"
  unfolding object_holds_def using map_le_Some by metis

lemma getFileEntry_mem: "getFileEntry k s = Some fe \<Longrightarrow> cstr k = k \<Longrightarrow> (k, fe) \<in> set (mFiles s)"
  by (auto simp: getFileEntry_def smap_find_def dest: map_of_SomeD)

text \<open>The entries of a new pack hold what its files hold; the entries there were before are not affected.\<close>

lemma snapshot_holds_pack:
  assumes "snap_inv s" and "snap_inv s'" and "canonical s'" and "mObjectIDs s' = mObjectIDs s @ x" and "snapshot_holds E H D R objs s content"
    and "objs \<subseteq>\<^sub>m objs'" and "objs' (object_name oid) = Some (concat ys)" and "length oid = 32" and "hmac_ok E H"
    and "sealed_files E H R fis ds ys" and "length (concat ys) < 2 ^ 32" and "\<forall>fi \<in> set fis. info_ok fi" and "ds = map (content \<circ> pi_path) fis"
    and "\<forall>fi \<in> set fis. pi_md5 fi = D (content (pi_path fi))"
    and "\<forall>fi \<in> set (place 0 fis ys). \<exists>fe. packed_entry s' oid fi fe" and "\<forall>p. cstr p \<notin> pi_path ` set fis \<longrightarrow> getFileEntry p s' = getFileEntry p s"
  shows "snapshot_holds E H D R objs' s' content"
proof -
  have len: "length ys = length fis" using assms(10) by (simp add: sealed_files_def)
  have "fe_md5 fe = D (content k) \<and> (\<exists>xs. xs \<noteq> [] \<and> concat xs = content k \<and> list_all2 (object_holds E H R objs' fe) (entry_ids s' fe) xs)"
    if mem: "(k, fe) \<in> set (mFiles s')" for k fe
  proof (cases "k \<in> pi_path ` set fis")
    case True
    then obtain i where i: "i < length fis" "k = pi_path (fis ! i)" by (auto simp: in_set_conv_nth image_iff)
    let ?fi = "place 0 fis ys ! i"
    have pl: "?fi = (fis ! i)\<lparr>pi_offset := of_nat (length (concat (take i ys))), pi_packLength := of_nat (length (ys ! i))\<rparr>"
      using place_keeps [of i fis ys 0] i(1) len by simp
    have "?fi \<in> set (place 0 fis ys)" using i(1) len by (intro nth_mem) simp
    then obtain fe' where fe': "packed_entry s' oid ?fi fe'" using assms(15) by blast
    then have "getFileEntry k s' = Some fe'" by (simp add: packed_entry_def pl i(2))
    then have eq: "fe' = fe" using canonical_key(1) [OF assms(2,3) mem] by simp
    have ok: "info_ok (fis ! i)" and c: "ds ! i = content k" using assms(12,13) i by simp_all
    have "object_holds E H R objs' fe oid (content k)"
      using placed_holds [where objs = objs', OF assms(9,10) i(1) assms(11) fe' assms(7,8) ok] unfolding eq c .
    moreover have "entry_ids s' fe = [oid]" "fe_md5 fe = D (content k)"
      using fe' assms(14) i unfolding eq by (simp_all add: packed_entry_def pl)
    ultimately show ?thesis by (intro conjI exI [of _ "[content k]"]) simp_all
  next
    case False
    have k: "cstr k = k" "getFileEntry k s' = Some fe" using canonical_key [OF assms(2,3) mem] by blast+
    then have old: "getFileEntry k s = Some fe" using assms(16) False by metis
    then have "(k, fe) \<in> set (mFiles s)" using getFileEntry_mem k(1) by blast
    then obtain xs where xs: "fe_md5 fe = D (content k)" "xs \<noteq> []" "concat xs = content k" "list_all2 (object_holds E H R objs fe) (entry_ids s fe) xs"
      using assms(5) by (auto simp: snapshot_holds_def)
    have "list_all2 (object_holds E H R objs' fe) (entry_ids s' fe) xs"
      unfolding entry_ids_append [OF assms(1) old assms(4)] using xs(4) by (rule list_all2_mono) (rule object_holds_mono [OF _ assms(6)])
    with xs(1-3) show ?thesis by blast
  qed
  then show ?thesis by (auto simp: snapshot_holds_def)
qed

section \<open>Uploading into packs\<close>

text \<open>No pack that can be made of consecutive contents of the list is in the store yet, and different packs have different ids. The contents must be different:
  a pack that has the id of another is the case in which the entries come out wrong.\<close>

definition fresh_packs :: "(bytes \<Rightarrow> bytes \<Rightarrow> bytes) \<Rightarrow> Repository \<Rightarrow> (string \<rightharpoonup> bytes) \<Rightarrow> bytes list \<Rightarrow> bool" where
  "fresh_packs H R objs cs \<longleftrightarrow> distinct cs \<and> inj_on (pack_id H R) {ds. ds \<noteq> [] \<and> sublist ds cs}
     \<and> (\<forall>ds. ds \<noteq> [] \<and> sublist ds cs \<longrightarrow> objs (object_name (pack_id H R ds)) = None)"

lemma pack_id_length: "hmac_ok E H \<Longrightarrow> length (pack_id H R ds) = 32"
  by (simp add: pack_id_def hmac_ok_length)

lemma fresh_packs_later:
  assumes "fresh_packs H R objs (ds @ cs)" and "ds \<noteq> []" and "hmac_ok E H"
  shows "fresh_packs H R (objs(object_name (pack_id H R ds) \<mapsto> y)) cs"
proof -
  have sub: "sublist e (ds @ cs)" if "sublist e cs" for e using that by (simp add: sublist_append)
  have "object_name (pack_id H R e) \<noteq> object_name (pack_id H R ds)" if e: "e \<noteq> []" "sublist e cs" for e
  proof
    assume "object_name (pack_id H R e) = object_name (pack_id H R ds)"
    then have "pack_id H R e = pack_id H R ds" using object_name_inj pack_id_length [OF assms(3)] by blast
    then have "e = ds" using assms(1,2) e sub by (auto simp: fresh_packs_def dest: inj_onD)
    moreover have "set e \<subseteq> set cs" using e(2) by (rule set_mono_sublist)
    ultimately show False using assms(1,2) unfolding fresh_packs_def by (cases ds) auto
  qed
  moreover have "inj_on (pack_id H R) {e. e \<noteq> [] \<and> sublist e cs}"
    using assms(1) unfolding fresh_packs_def by (elim conjE, erule_tac inj_on_subset) (use sub in blast)
  ultimately show ?thesis using assms(1) sub unfolding fresh_packs_def by auto
qed

text \<open>The file info of a source file in its pack.\<close>

lemma pack_info_sel [simp]: "pi_path (pack_info E fi p ct md5 n) = p" "pi_md5 (pack_info E fi p ct md5 n) = md5"
  by (simp_all add: pack_info_def)

definition source_info :: "('e, 'dc, 'h, 'm, 'l, 'z) env \<Rightarrow> (bytes \<Rightarrow> bytes) \<Rightarrow> (string \<Rightarrow> FileInfo) \<Rightarrow> (string \<Rightarrow> bytes) \<Rightarrow> string \<Rightarrow> PackFileInfo" where
  "source_info E D info content q = pack_info E (info q) (normalized_path q) (compression_for (info q)) (D (content (normalized_path q))) 0"

text \<open>The invariant of a backup on its way, with the files \<open>qs\<close> still to come: every entry of the snapshot holds its content, the files in the pack hold theirs,
  and there is room for the entries of all.\<close>

definition backing_up ::
    "('e, 'dc, 'h, 'm, 'l, 'z) env \<Rightarrow> (bytes \<Rightarrow> bytes \<Rightarrow> bytes) \<Rightarrow> (bytes \<Rightarrow> bytes) \<Rightarrow> Repository \<Rightarrow> ('d \<Rightarrow> bool) \<Rightarrow> ('d \<Rightarrow> string \<rightharpoonup> bytes) \<Rightarrow>
     (string \<Rightarrow> FileInfo) \<Rightarrow> (string \<Rightarrow> bytes) \<Rightarrow> string list \<Rightarrow> 'h PackUploadState \<Rightarrow> ('h, 'd, 'p) uploading \<Rightarrow> bool" where
  "backing_up E H D R ok objs info content qs ps u \<longleftrightarrow> ok (w_store (up_sess u)) \<and> w_repo (up_sess u) = R \<and> snap_inv (up_snap u) \<and> canonical (up_snap u)
     \<and> snapshot_holds E H D R (objs (w_store (up_sess u))) (up_snap u) content
     \<and> up_pack u = Some ps \<and> pack_inv E R ps \<and> pack_holds D content ps \<and> (ps_rollingHash ps = None \<longleftrightarrow> ps_fileInfos ps = [])
     \<and> pack_room (up_snap u) (ps_fileInfos ps @ map (source_info E D info content) qs)
     \<and> distinct (map pi_path (ps_fileInfos ps) @ map normalized_path qs)
     \<and> (\<forall>p \<in> set (map pi_path (ps_fileInfos ps) @ map normalized_path qs). getFileEntry p (up_snap u) = None)
     \<and> (\<forall>q \<in> set qs. NUL \<notin> set (normalized_path q))
     \<and> fresh_packs H R (objs (w_store (up_sess u))) (ps_packData ps @ map (content \<circ> normalized_path) qs)"

definition backed :: "'h PackUploadState \<Rightarrow> ('h, 'd, 'p) uploading \<Rightarrow> string set" where
  "backed ps u = fst ` set (mFiles (up_snap u)) \<union> pi_path ` set (ps_fileInfos ps)"

context data_store
begin

lemma finalizePack_backing_up:
  fixes E :: "('e, 'dc, 'h, 'm, 'l, 'z) env"
  assumes "backing_up E H D R ok objects info content qs ps u" and "env_ok E H R" and "disk_free fs"
    and "sealed_bound E H R (set (ps_packData ps)) b" and "length (ps_packData ps) * b < 2 ^ 32"
  shows "\<exists>u' ps'. finalizePack E fs V tpr u = Some (Inr (), u') \<and> backing_up E H D R ok objects info content qs ps' u' \<and> ps_fileInfos ps' = []
     \<and> ps_packData ps' = [] \<and> backed ps' u' = backed ps u \<and> objects (w_store (up_sess u)) \<subseteq>\<^sub>m objects (w_store (up_sess u'))"
proof (cases "ps_rollingHash ps")
  case None
  then have "finalizePack E fs V tpr u = Some (Inr (), u)" "ps_fileInfos ps = []" "ps_packData ps = []"
    using assms(1) by (auto simp: backing_up_def finalizePack_def on_pack_def pack_inv_def)
  with assms(1) show ?thesis by auto
next
  case (Some rh)
  let ?fis = "ps_fileInfos ps" and ?ds = "ps_packData ps" and ?later = "map (source_info E D info content) qs" and ?o = "objects (w_store (up_sess u))"
  define oid where "oid = pack_id H R ?ds"
  note hmac = env_okD(1) [OF assms(2)]
  have u: "ok (w_store (up_sess u))" "w_repo (up_sess u) = R" "snap_inv (up_snap u)" "canonical (up_snap u)" "snapshot_holds E H D R ?o (up_snap u) content"
    "up_pack u = Some ps" "pack_inv E R ps" "pack_holds D content ps" "pack_room (up_snap u) (?fis @ ?later)"
    "distinct (map pi_path ?fis @ map normalized_path qs)" "\<forall>p \<in> set (map pi_path ?fis @ map normalized_path qs). getFileEntry p (up_snap u) = None"
    "\<forall>q \<in> set qs. NUL \<notin> set (normalized_path q)" "fresh_packs H R ?o (?ds @ map (content \<circ> normalized_path) qs)" "?fis \<noteq> []"
    using assms(1) Some by (auto simp: backing_up_def)
  have ready: "pack_ready E ps oid" unfolding oid_def by (rule pack_inv_ready [OF u(7) hmac]) (simp add: Some)
  have oid: "length oid = 32" and infos: "\<forall>fi \<in> set ?fis. info_ok fi" using ready by (simp_all add: pack_ready_def)
  have ds: "?ds = map (content \<circ> pi_path) ?fis" "?ds \<noteq> []" and md5: "\<forall>fi \<in> set ?fis. pi_md5 fi = D (content (pi_path fi))"
    using u(8,14) by (auto simp: pack_holds_def)
  have new: "?o (object_name oid) = None" using u(13) ds(2) unfolding fresh_packs_def oid_def by auto
  have env: "env_ok E H (w_repo (up_sess u))" and room: "pack_room (up_snap u) ?fis" using assms(2) u(2,9) by (auto simp: pack_room_def)
  obtain u' ys where u': "finalizePack E fs V tpr u = Some (Inr (), u')" "up_pack u' = Some (pack_cleared ps)" "w_repo (up_sess u') = R"
    "ok (w_store (up_sess u'))" "objects (w_store (up_sess u')) = ?o(object_name oid \<mapsto> concat ys)" "sealed_files E H R ?fis ?ds ys"
    "feed (pack_entry oid) (place 0 ?fis ys) (up_snap u) = Some (Inr (), up_snap u')"
    using finalizePack_ok [OF u(1) env u(6) ready new u(3) room assms(3), of tpr] unfolding u(2) by blast
  let ?pl = "place 0 ?fis ys" and ?o' = "objects (w_store (up_sess u'))"
  have "length ys = length ?fis" using u'(6) by (simp add: sealed_files_def)
  note same = place_same [OF this, where off = 0] map_place [OF this, where off = 0]
  have paths: "pi_path ` set ?pl = pi_path ` set ?fis" using arg_cong [OF same(1), of set] by simp
  have split: "info_ok fi \<and> split_path (pi_path fi)" if "fi \<in> set ?pl" for fi
    using that same(2) infos u(8) paths unfolding pack_holds_def by (metis imageE imageI)
  have roompl: "pack_room (up_snap u) (?pl @ ?later)"
    using u(9) same(4) [of "\<lambda>fi. 2 * length (pi_path fi) + length (pi_user fi) + length (pi_group fi) + 20"] \<open>length ys = length ?fis\<close>
    by (simp add: pack_room_def)
  have dist: "distinct (map pi_path ?pl)" using u(10) same(1) by simp
  have none: "getFileEntry (pi_path fi) (up_snap u) = None" if "fi \<in> set ?pl" for fi
  proof -
    have "pi_path fi \<in> pi_path ` set ?fis" unfolding paths [symmetric] using that by (rule imageI)
    then show ?thesis using u(11) by simp
  qed
  from pack_entries_all [OF oid u(3,4) split roompl dist none] u'(7) obtain x where
    s': "snap_inv (up_snap u')" "canonical (up_snap u')" "pack_room (up_snap u') ?later" "mObjectIDs (up_snap u') = mObjectIDs (up_snap u) @ x"
    "\<forall>p. cstr p \<notin> pi_path ` set ?pl \<longrightarrow> getFileEntry p (up_snap u') = getFileEntry p (up_snap u)" "\<forall>fi \<in> set ?pl. \<exists>fe. packed_entry (up_snap u') oid fi fe"
    "fst ` set (mFiles (up_snap u')) = fst ` set (mFiles (up_snap u)) \<union> pi_path ` set ?pl" by auto
  have le: "?o \<subseteq>\<^sub>m ?o'" using u'(5) new by (auto simp: map_le_def)
  have len: "length (concat ys) < 2 ^ 32" using sealed_files_length [OF u'(6) assms(4)] assms(5) by linarith
  have holds: "snapshot_holds E H D R ?o' (up_snap u') content"
    by (rule snapshot_holds_pack [OF u(3) s'(1,2,4) u(5) le _ oid hmac u'(6) len infos ds(1) md5 s'(6) s'(5) [unfolded paths]]) (simp add: u'(5))
  have rest: "getFileEntry p (up_snap u') = None" if "p \<in> set (map normalized_path qs)" for p
  proof -
    have "cstr p = p" using that u(12) by auto
    moreover have "p \<notin> pi_path ` set ?pl" using that u(10) paths by auto
    ultimately show ?thesis using s'(5) u(11) that by simp
  qed
  have fresh: "fresh_packs H R ?o' (map (content \<circ> normalized_path) qs)"
    using fresh_packs_later [OF u(13) ds(2) hmac] by (simp add: u'(5) oid_def)
  have "backing_up E H D R ok objects info content qs (pack_cleared ps) u'"
    using u'(2-4) s'(1-3) holds pack_inv_cleared [of E R ps] u(10,12) rest fresh
    by (auto simp: backing_up_def pack_cleared_def pack_holds_def)
  moreover have "backed (pack_cleared ps) u' = backed ps u" using s'(7) paths by (simp add: backed_def pack_cleared_def)
  ultimately show ?thesis using u'(1) le by (intro exI [of _ u'] exI [of _ "pack_cleared ps"]) (simp add: pack_cleared_def)
qed

lemma uploadFile_backing_up:
  fixes E :: "('e, 'dc, 'h, 'm, 'l, 'z) env"
  assumes "backing_up E H D R ok objects info content (q # qs) ps u" and "env_ok E H R" and "digest_ok E D" and "disk_free fs" and "quiet_transfer tpr"
    and "mPath (up_file u) = q" and "file_ready info (up_file u) (content (normalized_path q))"
    and "length (content (normalized_path q)) < to_size_t (smallFileSize (mOptions R))" and "split_path (normalized_path q)"
    and "sealed_bound E H R (set (ps_packData ps @ [content (normalized_path q)])) b" and "Suc (length (ps_packData ps)) * b < 2 ^ 32"
  shows "\<exists>u' ps'. uploadFile E fs V lg info q tpr u = Some (Inr (), u') \<and> backing_up E H D R ok objects info content qs ps' u'
     \<and> set (ps_packData ps') \<subseteq> insert (content (normalized_path q)) (set (ps_packData ps)) \<and> length (ps_packData ps') \<le> Suc (length (ps_packData ps))
     \<and> backed ps' u' = insert (normalized_path q) (backed ps u) \<and> objects (w_store (up_sess u)) \<subseteq>\<^sub>m objects (w_store (up_sess u'))"
proof -
  let ?p = "normalized_path q"
  let ?bs = "content ?p" and ?fi = "pack_info E (info q) ?p (compression_for (info q)) (D (content ?p)) (length (ps_packData ps))"
  have u: "w_repo (up_sess u) = R" "up_pack u = Some ps" "pack_inv E R ps" "pack_holds D content ps" "NUL \<notin> set ?p"
    "distinct (map pi_path (ps_fileInfos ps) @ ?p # map normalized_path qs)"
    using assms(1) by (auto simp: backing_up_def)
  obtain f ps1 writePack where ps1: "uploadFile E fs V lg info q tpr u = (if writePack then finalizePack E fs V tpr
         else bind_io (on_sess (progress_io (tpr 0 1) 0 0)) (\<lambda>go. guard_io go CancelledException)) (u\<lparr>up_file := f, up_pack := Some ps1\<rparr>)"
    "pack_inv E R ps1" "ps_rollingHash ps1 \<noteq> None" "ps_packData ps1 = ps_packData ps @ [?bs]" "ps_fileInfos ps1 = ps_fileInfos ps @ [?fi]"
    using uploadFile_packed [OF assms(2) u(1) [symmetric] assms(3,7,8) u(2,3) refl refl u(5), of fs V lg tpr] unfolding assms(6) by blast
  let ?u = "u\<lparr>up_file := f, up_pack := Some ps1\<rparr>"
  have holds: "pack_holds D content ps1" using u(4,6) assms(9) by (auto simp: pack_holds_def ps1(4,5))
  have room: "pack_room s (xs @ pack_info E (info q) ?p (compression_for (info q)) (D ?bs) n # ys)
      \<longleftrightarrow> pack_room s (xs @ source_info E D info content q # ys)" for s xs ys n
    by (simp add: pack_room_def source_info_def pack_info_def)
  have inv: "backing_up E H D R ok objects info content qs ps1 ?u"
    using assms(1) holds ps1(2,3) unfolding backing_up_def by (simp add: ps1(4,5) room)
  have paths: "backed ps1 ?u = insert ?p (backed ps u)" by (simp add: backed_def ps1(5))
  show ?thesis
  proof (cases writePack)
    case False
    obtain p' where "tpr 0 1 0 0 (w_prog (up_sess u)) = (True, p')"
      using assms(5) unfolding quiet_transfer_def quiet_def by (metis prod.collapse)
    then have run: "uploadFile E fs V lg info q tpr u = Some (Inr (), ?u\<lparr>up_sess := (up_sess u)\<lparr>w_prog := p'\<rparr>\<rparr>)"
      using ps1(1) False by (simp add: on_sess_def progress_io_def)
    moreover have "backing_up E H D R ok objects info content qs ps1 (?u\<lparr>up_sess := (up_sess u)\<lparr>w_prog := p'\<rparr>\<rparr>)"
      using inv by (simp add: backing_up_def)
    moreover have "backed ps1 (?u\<lparr>up_sess := (up_sess u)\<lparr>w_prog := p'\<rparr>\<rparr>) = insert ?p (backed ps u)" using paths by (simp add: backed_def)
    ultimately show ?thesis using ps1(4) by (intro exI [of _ "?u\<lparr>up_sess := (up_sess u)\<lparr>w_prog := p'\<rparr>\<rparr>"] exI [of _ ps1]) simp
  next
    case True
    have "sealed_bound E H R (set (ps_packData ps1)) b" "length (ps_packData ps1) * b < 2 ^ 32" using assms(10,11) by (simp_all add: ps1(4))
    from finalizePack_backing_up [OF inv assms(2,4) this, of tpr] ps1(1) True paths show ?thesis by fastforce
  qed
qed

end

section \<open>The store and the files around it\<close>

text \<open>The directory store keeps its contract together with the promise not to touch anything outside its directory.\<close>

definition kept :: "string \<Rightarrow> filesys \<Rightarrow> filesys \<Rightarrow> bool" where
  "kept root fs0 fs \<longleftrightarrow> file_store_ok root fs \<and> same_outside root fs0 fs"

lemma file_store_kept: "data_store (FileDataStore root :: (filesys, 'p) DataStore) (file_objects root) (kept root fs0)"
proof
  fix d n s p and pr :: "'p progress" assume "kept root fs0 d" "valid_name n" "quiet pr" "any_inv s"
  then show "\<exists>d' p' s'. ds_put (FileDataStore root) n pr (d, p, s) = Some (Inr (), (d', p', s')) \<and> kept root fs0 d'
      \<and> file_objects root d' = (file_objects root d)(n \<mapsto> any_rest s)"
    using file_put_ok [of root d n s pr p] same_outside_trans by (auto simp: kept_def)
next
  fix d n p and pr :: "'p progress" assume "kept root fs0 d" "valid_name n"
  then show "\<exists>d' p'. ds_unlink (FileDataStore root) n pr (d, p) = Some (Inr (file_objects root d n \<noteq> None), (d', p')) \<and> kept root fs0 d'
      \<and> file_objects root d' = (file_objects root d)(n := None)"
    using file_unlink_ok [of root d n pr p] same_outside_trans by (auto simp: kept_def)
next
  fix d n p and pr :: "'p progress" assume "kept root fs0 d" "plain_name n" "file_objects root d (''/snapshot/'' @ n) \<noteq> None"
  then show "\<exists>p' ns. ds_list (FileDataStore root) ''/snapshot'' pr (d, p) = Some (Inr (map Some ns @ [None]), (d, p')) \<and> distinct ns
      \<and> set ns = {n. plain_name n \<and> file_objects root d (''/snapshot/'' @ n) \<noteq> None}"
    using file_store.list_law [of root d n pr p] unfolding kept_def by blast
qed (use file_store.exist_law file_store.get_law file_store.get_missing in \<open>auto simp: kept_def\<close>)

interpretation kept_store: data_store "disk_store root" "\<lambda>d. file_objects root (fst d)" "\<lambda>d. kept root fs0 (fst d)" for root fs0
  unfolding disk_store_def by (rule data_store_lift [OF file_store_kept]) auto

section \<open>One file\<close>

text \<open>A file that can be backed up: it is outside the store, can be read, is small, and has a proper path.\<close>

definition source_ok :: "('e, 'dc, 'h, 'm, 'l, 'z, 'w) machine \<Rightarrow> string \<Rightarrow> filesys \<Rightarrow> (string \<Rightarrow> bytes) \<Rightarrow> string \<Rightarrow> bool" where
  "source_ok M root fs content q \<longleftrightarrow> fs_node fs q = Some (RegNode (content (normalized_path q))) \<and> map_of (fs_bad fs) q = None
     \<and> (\<forall>r. q \<noteq> root @ ''/'' @ r) \<and> FileInfo_exists (m_info M q) \<and> unat (mLength (m_info M q)) = length (content (normalized_path q))
     \<and> length (content (normalized_path q)) < 512000 \<and> split_path (normalized_path q) \<and> NUL \<notin> set (normalized_path q)"

lemma backing_up_prog [simp]:
  "backing_up E H D R ok objs info content qs ps (u\<lparr>up_sess := (up_sess u)\<lparr>w_prog := c\<rparr>\<rparr>) = backing_up E H D R ok objs info content qs ps u"
  "backed ps (u\<lparr>up_sess := (up_sess u)\<lparr>w_prog := c\<rparr>\<rparr>) = backed ps u"
  "backing_up E H D R ok objs info content qs ps (u\<lparr>up_file := f\<rparr>) = backing_up E H D R ok objs info content qs ps u" "backed ps (u\<lparr>up_file := f\<rparr>) = backed ps u"
  by (simp_all add: backing_up_def backed_def)

lemma print_upload: "\<exists>c. (if q then return_io () else on_sess (print str)) u = Some (Inr (), u\<lparr>up_sess := (up_sess u)\<lparr>w_prog := c\<rparr>\<rparr>)"
  using print_ok [of str "up_sess u"] by (cases q) (auto simp: on_sess_def intro: exI [of _ "w_prog (up_sess u)"])

lemma start_upload: "\<exists>t c. on_sess (start_time M) u = Some (Inr t, u\<lparr>up_sess := (up_sess u)\<lparr>w_prog := c\<rparr>\<rparr>)"
  using start_time_ok [of M "up_sess u"] by (auto simp: on_sess_def)

lemma open_source_ok:
  assumes "source_ok M root fs0 content q" and "kept root fs0 (fst (w_store (up_sess u)))"
  shows "\<exists>f. open_source q u = Some (Inr (), u\<lparr>up_file := f\<rparr>) \<and> mPath f = q \<and> file_ready (m_info M) f (content (normalized_path q))"
proof -
  let ?fs = "fst (w_store (up_sess u))" and ?bs = "content (normalized_path q)"
  have fs: "fs_node ?fs q = Some (RegNode ?bs)" "map_of (fs_bad ?fs) q = None"
    using assms by (auto simp: source_ok_def kept_def same_outside_def)
  let ?f = "\<lparr>mFp = Some \<lparr>cf_data = ?bs, cf_pos = 0, cf_mode = FileMode_Read, cf_error = False, cf_bad = None, cf_limit = fs_limit ?fs\<rparr>, mPath = q\<rparr>"
  have "FileStream_new q FileMode_Read ?fs = (Inr ?f, ?fs)"
    using fs by (simp add: FileStream_new_def FileStream_open_def FileStream_close_def FileStream_new0_def fopen_def)
  moreover have "file_ready (m_info M) ?f ?bs"
    using assms(1) by (simp add: file_ready_def file_inv_def file_rest_def source_ok_def)
  ultimately show ?thesis by (intro exI [of _ ?f]) (simp add: open_source_def)
qed

abbreviation disk_backing_up ::
    "('e, 'dc, 'h, 'm, 'l, 'z, 'w) machine \<Rightarrow> (bytes \<Rightarrow> bytes \<Rightarrow> bytes) \<Rightarrow> (bytes \<Rightarrow> bytes) \<Rightarrow> Repository \<Rightarrow> string \<Rightarrow> filesys \<Rightarrow> (string \<Rightarrow> bytes) \<Rightarrow>
     string list \<Rightarrow> 'h PackUploadState \<Rightarrow> ('h, filesys \<times> 'w, console) uploading \<Rightarrow> bool" where
  "disk_backing_up M H D R root fs0 content \<equiv> backing_up (m_env M) H D R (\<lambda>d. kept root fs0 (fst d)) (\<lambda>d. file_objects root (fst d)) (m_info M) content"

text \<open>The contents together are small enough for one pack.\<close>

definition pack_limit :: "('e, 'dc, 'h, 'm, 'l, 'z) env \<Rightarrow> (bytes \<Rightarrow> bytes \<Rightarrow> bytes) \<Rightarrow> Repository \<Rightarrow> bytes list \<Rightarrow> bool" where
  "pack_limit E H R cs \<longleftrightarrow> (\<exists>b. sealed_bound E H R (set cs) b \<and> length cs * b < 2 ^ 32)"

lemma pack_limit_mono:
  assumes "pack_limit E H R cs" and "set ds \<subseteq> set cs" and "length ds \<le> length cs"
  obtains b where "sealed_bound E H R (set ds) b" "length ds * b < 2 ^ 32"
proof -
  obtain b where "sealed_bound E H R (set cs) b" "length cs * b < 2 ^ 32" using assms(1) by (auto simp: pack_limit_def)
  then show thesis using that [of b] assms(2,3) by (metis (no_types, lifting) le_less_trans mult_le_mono1 sealed_bound_def subsetD)
qed

lemma backup_one_ok:
  fixes M :: "('e, 'dc, 'h, 'm, 'l, 'z, 'w) machine"
  assumes "disk_backing_up M H D R root fs0 content (q # qs) ps u" and "calm M" and "crypto_ok (m_env M) H D" and "\<not> dryRun opts"
    and "smallFileSize (mOptions R) = 512000" and "source_ok M root fs0 content q" and "pack_limit (m_env M) H R cs"
    and "set (ps_packData ps @ [content (normalized_path q)]) \<subseteq> set cs" and "length (ps_packData ps) < length cs"
  shows "\<exists>u' ps'. backup_one M opts (disk_store root) q u = Some (Inr (), u') \<and> disk_backing_up M H D R root fs0 content qs ps' u'
     \<and> set (ps_packData ps') \<subseteq> insert (content (normalized_path q)) (set (ps_packData ps)) \<and> length (ps_packData ps') \<le> Suc (length (ps_packData ps))
     \<and> backed ps' u' = insert (normalized_path q) (backed ps u)
     \<and> file_objects root (fst (w_store (up_sess u))) \<subseteq>\<^sub>m file_objects root (fst (w_store (up_sess u')))"
proof -
  note crypto = crypto_okD [OF assms(3)]
  let ?bs = "content (normalized_path q)"
  obtain c1 where c1: "(if quiet_opt opts then return_io () else on_sess (print (q @ [newline]))) u = Some (Inr (), u\<lparr>up_sess := (up_sess u)\<lparr>w_prog := c1\<rparr>\<rparr>)"
    using print_upload by blast
  let ?u1 = "u\<lparr>up_sess := (up_sess u)\<lparr>w_prog := c1\<rparr>\<rparr>"
  obtain t c2 where c2: "on_sess (start_time M) ?u1 = Some (Inr t, u\<lparr>up_sess := (up_sess u)\<lparr>w_prog := c2\<rparr>\<rparr>)"
    using start_upload [of M ?u1] by auto
  let ?u2 = "u\<lparr>up_sess := (up_sess u)\<lparr>w_prog := c2\<rparr>\<rparr>"
  have kept: "kept root fs0 (fst (w_store (up_sess ?u2)))" using assms(1) by (simp add: backing_up_def)
  obtain f where f: "open_source q ?u2 = Some (Inr (), ?u2\<lparr>up_file := f\<rparr>)" "mPath f = q" "file_ready (m_info M) f ?bs"
    using open_source_ok [OF assms(6) kept] by blast
  let ?u3 = "u\<lparr>up_file := f, up_sess := (up_sess u)\<lparr>w_prog := c2\<lparr>co_last := 0\<rparr>\<rparr>\<rparr>"
  have c3: "on_sess (on_console (modify_io (\<lambda>c. c\<lparr>co_last := 0\<rparr>))) (?u2\<lparr>up_file := f\<rparr>) = Some (Inr (), ?u3)"
    by (simp add: on_sess_def on_console_def)
  have inv: "disk_backing_up M H D R root fs0 content (q # qs) ps ?u3" using assms(1) by (simp add: backing_up_def)
  have small: "length ?bs < to_size_t (smallFileSize (mOptions R))" "split_path (normalized_path q)"
    using assms(5,6) by (simp_all add: source_ok_def to_size_t_def)
  have ready: "mPath (up_file ?u3) = q" "file_ready (m_info M) (up_file ?u3) ?bs" "disk_free (m_tmp M)" using f(2,3) assms(2) by (simp_all add: calm_def)
  obtain b where b: "sealed_bound (m_env M) H R (set (ps_packData ps @ [?bs])) b" "Suc (length (ps_packData ps)) * b < 2 ^ 32"
    using pack_limit_mono [OF assms(7,8)] assms(9) by (metis Suc_leI length_append_singleton)
  obtain u' ps' where u': "uploadFile (m_env M) (m_tmp M) (disk_store root) (m_log2 M) (m_info M) q (transfer_progress (m_sys M) opts t) ?u3 = Some (Inr (), u')"
    "disk_backing_up M H D R root fs0 content qs ps' u'" "set (ps_packData ps') \<subseteq> insert ?bs (set (ps_packData ps))"
    "length (ps_packData ps') \<le> Suc (length (ps_packData ps))" "backed ps' u' = insert (normalized_path q) (backed ps ?u3)"
    "file_objects root (fst (w_store (up_sess ?u3))) \<subseteq>\<^sub>m file_objects root (fst (w_store (up_sess u')))"
    using kept_store.uploadFile_backing_up [OF inv crypto(5,4) ready(3) calm_quiet [OF assms(2)] ready(1,2) small b] by blast
  obtain c4 where c4: "(if quiet_opt opts then return_io () else on_sess (print [newline])) u' = Some (Inr (), u'\<lparr>up_sess := (up_sess u')\<lparr>w_prog := c4\<rparr>\<rparr>)"
    using print_upload by blast
  have "backup_one M opts (disk_store root) q u = Some (Inr (), u'\<lparr>up_sess := (up_sess u')\<lparr>w_prog := c4\<rparr>\<rparr>)"
    using c1 c2 f(1) c3 u'(1) c4 assms(4) by (simp add: backup_one_def split del: if_split)
  moreover have "backed ps ?u3 = backed ps u" by (simp add: backed_def)
  ultimately show ?thesis using u'(2-6)
    by (intro exI [of _ "u'\<lparr>up_sess := (up_sess u')\<lparr>w_prog := c4\<rparr>\<rparr>"] exI [of _ ps']) simp
qed

section \<open>The command\<close>

lemma backup_feed_ok:
  fixes M :: "('e, 'dc, 'h, 'm, 'l, 'z, 'w) machine"
  assumes "calm M" and "crypto_ok (m_env M) H D" and "\<not> dryRun opts" and "smallFileSize (mOptions R) = 512000" and "pack_limit (m_env M) H R cs"
  shows "\<lbrakk>disk_backing_up M H D R root fs0 content qs ps u; \<And>q. q \<in> set qs \<Longrightarrow> source_ok M root fs0 content q;
      set (ps_packData ps) \<union> (content \<circ> normalized_path) ` set qs \<subseteq> set cs; length (ps_packData ps) + length qs \<le> length cs\<rbrakk> \<Longrightarrow>
    \<exists>u' ps'. feed (backup_one M opts (disk_store root)) qs u = Some (Inr (), u') \<and> disk_backing_up M H D R root fs0 content [] ps' u'
      \<and> set (ps_packData ps') \<subseteq> set cs \<and> length (ps_packData ps') \<le> length cs \<and> backed ps' u' = backed ps u \<union> normalized_path ` set qs
      \<and> file_objects root (fst (w_store (up_sess u))) \<subseteq>\<^sub>m file_objects root (fst (w_store (up_sess u')))"
proof (induction qs arbitrary: u ps)
  case Nil
  then show ?case by auto
next
  case (Cons q qs)
  obtain u1 ps1 where u1: "backup_one M opts (disk_store root) q u = Some (Inr (), u1)" "disk_backing_up M H D R root fs0 content qs ps1 u1"
    "set (ps_packData ps1) \<subseteq> insert (content (normalized_path q)) (set (ps_packData ps))" "length (ps_packData ps1) \<le> Suc (length (ps_packData ps))"
    "backed ps1 u1 = insert (normalized_path q) (backed ps u)"
    "file_objects root (fst (w_store (up_sess u))) \<subseteq>\<^sub>m file_objects root (fst (w_store (up_sess u1)))"
    using backup_one_ok [OF Cons.prems(1) assms(1-4) Cons.prems(2) [OF list.set_intros(1)] assms(5)] Cons.prems(3,4) by auto
  obtain u' ps' where u': "feed (backup_one M opts (disk_store root)) qs u1 = Some (Inr (), u')" "disk_backing_up M H D R root fs0 content [] ps' u'"
    "set (ps_packData ps') \<subseteq> set cs" "length (ps_packData ps') \<le> length cs" "backed ps' u' = backed ps1 u1 \<union> normalized_path ` set qs"
    "file_objects root (fst (w_store (up_sess u1))) \<subseteq>\<^sub>m file_objects root (fst (w_store (up_sess u')))"
  proof -
    have "set (ps_packData ps1) \<union> (content \<circ> normalized_path) ` set qs \<subseteq> set cs" "length (ps_packData ps1) + length qs \<le> length cs"
      using u1(3,4) Cons.prems(3,4) by auto
    with Cons.IH [OF u1(2) Cons.prems(2)] show thesis using that by auto
  qed
  then show ?case using u1(1,5) map_le_trans [OF u1(6) u'(6)] by (intro exI [of _ u'] exI [of _ ps']) auto
qed

text \<open>The files an argument of the command stands for, and what a backup of them needs.\<close>

definition backup_sources :: "filesys \<Rightarrow> string \<Rightarrow> string list" where
  "backup_sources fs src = (if fs_node fs src = Some DirNode then filter (\<lambda>q. fs_node fs q \<noteq> Some DirNode) (fs_tree fs src) else [src])"

definition backup_ready ::
    "('e, 'dc, 'h, 'm, 'l, 'z, 'w) machine \<Rightarrow> (bytes \<Rightarrow> bytes \<Rightarrow> bytes) \<Rightarrow> (bytes \<Rightarrow> bytes) \<Rightarrow> Repository \<Rightarrow> string \<Rightarrow> filesys \<Rightarrow> (string \<Rightarrow> bytes) \<Rightarrow>
     string list \<Rightarrow> bool" where
  "backup_ready M H D R root fs content qs \<longleftrightarrow> (\<forall>q \<in> set qs. source_ok M root fs content q) \<and> distinct (map normalized_path qs)
     \<and> pack_room Snapshot_new (map (source_info (m_env M) D (m_info M) content) qs)
     \<and> fresh_packs H R (file_objects root fs) (map (content \<circ> normalized_path) qs) \<and> pack_limit (m_env M) H R (map (content \<circ> normalized_path) qs)"

lemma backup_ready_keys:
  assumes "same_keys R R'" and "backup_ready M H D R root fs content qs"
  shows "backup_ready M H D R' root fs content qs"
proof -
  have "pack_id H R' = pack_id H R" "sealed_bound (m_env M) H R' = sealed_bound (m_env M) H R"
    using assms(1) by (auto simp: fun_eq_iff pack_id_def sealed_bound_def same_keys_def)
  with assms(2) show ?thesis by (simp add: backup_ready_def fresh_packs_def pack_limit_def)
qed

lemma backup_argument_ok:
  fixes M :: "('e, 'dc, 'h, 'm, 'l, 'z, 'w) machine" and w :: "'w work"
  assumes "calm M" and "crypto_ok (m_env M) H D" and "\<not> dryRun opts" and "smallFileSize (mOptions (w_repo w)) = 512000"
    and "w_store w = (fs0, a)" and "file_store_ok root fs0" and "backup_ready M H D (w_repo w) root fs0 content (backup_sources fs0 src)"
  shows "\<exists>u. backup_argument M opts (disk_store root) src \<lparr>up_file = FileStream_new0, up_pack = Some createPackState, up_snap = createSnapshot, up_sess = w\<rparr>
       = Some (Inr (), u) \<and> kept root fs0 (fst (w_store (up_sess u))) \<and> w_repo (up_sess u) = w_repo w \<and> snap_inv (up_snap u) \<and> canonical (up_snap u)
     \<and> snapshot_holds (m_env M) H D (w_repo w) (file_objects root (fst (w_store (up_sess u)))) (up_snap u) content
     \<and> fst ` set (mFiles (up_snap u)) = normalized_path ` set (backup_sources fs0 src)
     \<and> file_objects root fs0 \<subseteq>\<^sub>m file_objects root (fst (w_store (up_sess u)))"
proof -
  let ?R = "w_repo w" and ?qs = "backup_sources fs0 src" and ?ps = "createPackState :: 'h PackUploadState"
  let ?u = "\<lparr>up_file = FileStream_new0, up_pack = Some ?ps, up_snap = createSnapshot, up_sess = w\<rparr>"
  let ?cs = "map (content \<circ> normalized_path) ?qs"
  have src: "\<And>q. q \<in> set ?qs \<Longrightarrow> source_ok M root fs0 content q" and limit: "pack_limit (m_env M) H ?R ?cs" using assms(7) by (simp_all add: backup_ready_def)
  have empty: "ps_fileInfos ?ps = []" "ps_packData ?ps = []" "ps_rollingHash ?ps = None" by (simp_all add: createPackState_def PackUploadState_new_def)
  have start: "disk_backing_up M H D ?R root fs0 content ?qs ?ps ?u"
    using assms(5-7) src pack_inv_new [of "m_env M" ?R]
    by (auto simp: backing_up_def kept_def createSnapshot_def empty canonical_def Snapshot_new_def snapshot_holds_def pack_holds_def backup_ready_def
        getFileEntry_def smap_find_def source_ok_def snap_inv_new [unfolded Snapshot_new_def])
  obtain u1 ps1 where u1: "feed (backup_one M opts (disk_store root)) ?qs ?u = Some (Inr (), u1)" "disk_backing_up M H D ?R root fs0 content [] ps1 u1"
    "set (ps_packData ps1) \<subseteq> set ?cs" "length (ps_packData ps1) \<le> length ?cs" "backed ps1 u1 = backed ?ps ?u \<union> normalized_path ` set ?qs"
    "file_objects root (fst (w_store (up_sess ?u))) \<subseteq>\<^sub>m file_objects root (fst (w_store (up_sess u1)))"
    using backup_feed_ok [OF assms(1-4) limit start src] by (auto simp: empty)
  obtain b where b: "sealed_bound (m_env M) H ?R (set (ps_packData ps1)) b" "length (ps_packData ps1) * b < 2 ^ 32"
    by (rule pack_limit_mono [OF limit u1(3,4)])
  have free: "disk_free (m_tmp M)" using assms(1) by (simp add: calm_def)
  obtain u ps where u: "finalizePack (m_env M) (m_tmp M) (disk_store root) DefaultFileTransferProgressFunction u1 = Some (Inr (), u)"
    "disk_backing_up M H D ?R root fs0 content [] ps u" "ps_fileInfos ps = []" "backed ps u = backed ps1 u1"
    "file_objects root (fst (w_store (up_sess u1))) \<subseteq>\<^sub>m file_objects root (fst (w_store (up_sess u)))"
    using kept_store.finalizePack_backing_up [OF u1(2) crypto_okD(5) [OF assms(2)] free b] by blast
  have "backup_argument M opts (disk_store root) src ?u = Some (Inr (), u)"
    using u1(1) u(1) assms(5) by (auto simp: backup_argument_def backup_sources_def bind_io_eq_Inr split: if_splits)
  moreover have "fst ` set (mFiles (up_snap u)) = normalized_path ` set ?qs"
    using u(3,4) u1(5) by (simp add: backed_def empty createSnapshot_def Snapshot_new_def)
  moreover have "file_objects root fs0 \<subseteq>\<^sub>m file_objects root (fst (w_store (up_sess u)))" using map_le_trans [OF u1(6) u(5)] assms(5) by simp
  ultimately show ?thesis using u(2) unfolding backing_up_def by (intro exI [of _ u]) simp
qed

lemma object_name_not_snapshot: "object_name oid \<noteq> snapshot_path name" "object_name oid \<noteq> ''/key''" "''/key'' \<noteq> snapshot_path name"
  by (simp_all add: object_name_def snapshot_path_def)

text \<open>Committing the snapshot makes it restorable.\<close>

lemma commit_restorable:
  fixes M :: "('e, 'dc, 'h, 'm, 'l, 'z, 'w) machine" and w :: "'w work"
  assumes "calm M" and "crypto_ok (m_env M) H D" and "kept root fs0 (fst (w_store w))" and "snap_inv s" and "canonical s" and "plain_name (cstr name)"
    and "snapshot_holds (m_env M) H D (w_repo w) (file_objects root (fst (w_store w))) s content" and "same_keys R (w_repo w)"
    and "file_objects root fs0 \<subseteq>\<^sub>m file_objects root (fst (w_store w))" and "repository_at (m_env M) H password R root fs0"
  shows "\<exists>w'. commitSnapshot (m_env M) (m_tmp M) (disk_store root) s name DefaultProgressFunction w = Some (Inr (), w') \<and> same_outside root fs0 (fst (w_store w'))
     \<and> repository_at (m_env M) H password R root (fst (w_store w')) \<and> restorable M H D R root (fst (w_store w')) name s content"
proof -
  note crypto = crypto_okD [OF assms(2)]
  have free: "disk_free (m_tmp M)" using assms(1) by (simp add: calm_def)
  obtain d c r y where d: "commitSnapshot (m_env M) (m_tmp M) (disk_store root) s name DefaultProgressFunction w = Some (Inr (), w\<lparr>w_rng := r, w_store := d, w_prog := c\<rparr>)"
    "kept root fs0 (fst d)" "file_objects root (fst d) = (file_objects root (fst (w_store w)))(snapshot_path name \<mapsto> y)"
    "sealed_snapshot (m_env M) H (w_repo w) s y"
    using kept_store.commitSnapshot_ok [OF assms(3,4,6) crypto(1,2,3) quiet_default free] by blast
  have keys: "mEncKey (w_repo w) = mEncKey R" "mMacKey (w_repo w) = mMacKey R" using assms(8) by (simp_all add: same_keys_def)
  obtain kf where kf: "keys_ok R" "file_objects root fs0 ''/key'' = Some kf" "key_file (m_env M) H password (all_keys R) kf"
    using assms(10) by (auto simp: repository_at_def)
  have key: "file_objects root (fst d) ''/key'' = Some kf"
    using map_le_Some [OF assms(9) kf(2)] object_name_not_snapshot(3) by (simp add: d(3))
  have "object_holds (m_env M) H R (file_objects root (fst d)) = object_holds (m_env M) H (w_repo w) (file_objects root (fst (w_store w)))"
    using object_name_not_snapshot(1) by (auto simp: fun_eq_iff object_holds_def keys d(3))
  then have "snapshot_holds (m_env M) H D R (file_objects root (fst d)) s content" using assms(7) by (simp add: snapshot_holds_def)
  moreover have "sealed_snapshot (m_env M) H R s y" using d(4) keys by (simp add: sealed_snapshot_def)
  ultimately have "restorable M H D R root (fst d) name s content" using assms(4-6) d(3) by (simp add: restorable_def)
  then show ?thesis using d(1,2) kf key
    by (intro exI [of _ "w\<lparr>w_rng := r, w_store := d, w_prog := c\<rparr>"]) (simp add: kept_def repository_at_def)
qed

lemma backup_run:
  fixes M :: "('e, 'dc, 'h, 'm, 'l, 'z, 'w) machine"
  assumes "calm M" and "crypto_ok (m_env M) H D" and "parse_flags flags Cli_Options_new = Some opts" and "\<not> dryRun opts" and "backend opts \<noteq> ''s3''"
    and "repository_at (m_env M) H password R root (c_disk s)" and "typed password (c_con s)" and "plain_name (cstr name)"
    and "backup_ready M H D R root (c_disk s) content (backup_sources (c_disk s) src)"
  shows "\<exists>s' snap. run_action M opts [''backup'', root, name, src] s = Some (Inr (), s') \<and> main M flags [''backup'', root, name, src] s = Some (Inr 0, s')
     \<and> same_outside root (c_disk s) (c_disk s') \<and> repository_at (m_env M) H password R root (c_disk s')
     \<and> restorable M H D R root (c_disk s') name snap content \<and> fst ` set (mFiles snap) = normalized_path ` set (backup_sources (c_disk s) src)"
proof -
  have ok: "file_store_ok root (c_disk s)" using assms(6) by (simp add: repository_at_def)
  then have "fs_node (c_disk s) root \<noteq> None" by (simp add: file_store_ok_def)
  note store = open_disk_store [OF assms(5) this, of M]
  let ?w = "new_session M s"
  obtain c R' where un: "unlock_with_prompt M (disk_store root) ?w = Some (Inr password, ?w\<lparr>w_prog := c, w_repo := R'\<rparr>)" "same_keys R R'"
    "mOptions R' = mOptions (Repository_new (m_env M) None)"
    using unlock_with_prompt_ok [OF assms(1,2), of password R root ?w] assms(6,7) by auto
  let ?w1 = "?w\<lparr>w_prog := c, w_repo := R'\<rparr>"
  have w1: "smallFileSize (mOptions (w_repo ?w1)) = 512000" "w_store ?w1 = (c_disk s, c_aws s)"
    "backup_ready M H D (w_repo ?w1) root (c_disk s) content (backup_sources (c_disk s) src)"
    using un(3) backup_ready_keys [OF un(2) assms(9)] by (simp_all add: Repository_new_def Options_new_def)
  obtain u where u: "backup_argument M opts (disk_store root) src \<lparr>up_file = FileStream_new0, up_pack = Some createPackState, up_snap = createSnapshot, up_sess = ?w1\<rparr>
       = Some (Inr (), u)" "kept root (c_disk s) (fst (w_store (up_sess u)))" "w_repo (up_sess u) = R'" "snap_inv (up_snap u)" "canonical (up_snap u)"
    "snapshot_holds (m_env M) H D R' (file_objects root (fst (w_store (up_sess u)))) (up_snap u) content"
    "fst ` set (mFiles (up_snap u)) = normalized_path ` set (backup_sources (c_disk s) src)"
    "file_objects root (c_disk s) \<subseteq>\<^sub>m file_objects root (fst (w_store (up_sess u)))"
    using backup_argument_ok [OF assms(1,2,4) w1(1,2) ok w1(3)] by auto
  have keys: "same_keys R (w_repo (up_sess u))" "snapshot_holds (m_env M) H D (w_repo (up_sess u)) (file_objects root (fst (w_store (up_sess u)))) (up_snap u) content"
    using un(2) u(3,6) by simp_all
  obtain w' where w': "commitSnapshot (m_env M) (m_tmp M) (disk_store root) (up_snap u) name DefaultProgressFunction (up_sess u) = Some (Inr (), w')"
    "same_outside root (c_disk s) (fst (w_store w'))" "repository_at (m_env M) H password R root (fst (w_store w'))"
    "restorable M H D R root (fst (w_store w')) name (up_snap u) content"
    using commit_restorable [OF assms(1,2) u(2,4,5) assms(8) keys(2,1) u(8) assms(6)] by blast
  let ?s = "s\<lparr>c_disk := fst (w_store w'), c_aws := snd (w_store w'), c_con := w_prog w', c_rng := w_rng w'\<rparr>"
  have cmd: "run_action M opts [''backup'', root, name, src] s = Some (Inr (), ?s)"
    using un(1) u(1) w'(1) store by (simp add: run_action_def cli_backupFiles_def with_repository_def)
  have "main M flags [''backup'', root, name, src] s = Some (Inr 0, ?s)" using assms(3) by (simp add: main_def cmd)
  with cmd w'(2-4) u(7) show ?thesis by (intro exI [of _ ?s] exI [of _ "up_snap u"]) simp
qed

section \<open>From one command to the other\<close>

lemma not_inside: "\<not> prefix (root @ ''/'') p \<Longrightarrow> p \<noteq> root @ ''/'' @ r"
  by auto

lemma destinations_outside:
  assumes "destinations root fs ps" and "same_outside root fs fs'"
  shows "destinations root fs' ps"
proof -
  have same: "fs_node fs' q = fs_node fs q" if "\<not> prefix (root @ ''/'') q" for q
    using assms(2) not_inside [OF that] unfolding same_outside_def by blast
  have bad: "fs_bad fs' = fs_bad fs" using assms(2) by (simp add: same_outside_def)
  have "fresh_file root fs' p" if "fresh_file root fs p" for p
  proof -
    have p: "outside root p" "can_make fs (parent_path p)" using that by (simp_all add: fresh_file_def)
    have "can_make fs' (parent_path p)"
    proof (rule can_make_mono [OF p(2)])
      fix q assume "q \<in> set (path_chain (parent_path p)) \<or> q = parent_path p"
      moreover have "parent_path p \<in> set (path_chain (parent_path p))" if "parent_path p \<noteq> []" using that by (simp add: path_chain.simps [of "parent_path p"])
      ultimately have "q = [] \<or> q \<in> set (path_chain p)" using path_chain_parent by blast
      then have "\<not> prefix (root @ ''/'') q" using outside_chain [OF p(1)] by auto
      from same [OF this] show "fs_node fs' q = fs_node fs q \<or> fs_node fs' q = Some DirNode" by simp
    qed
    then show ?thesis using that same [of p] bad by (simp add: fresh_file_def outside_def)
  qed
  then show ?thesis using assms(1) by (simp add: destinations_def)
qed

text \<open>The places of the files of a snapshot, when their paths are those of the sources.\<close>

lemma placed_sources:
  assumes "fst ` set (mFiles s) = normalized_path ` set qs" and "snap_inv s" and "fs_node fs' dest = Some DirNode"
    and "\<And>q. q \<in> set qs \<Longrightarrow> sy_relative (m_sys M) (normalized_path q) [] = Inr (rel (normalized_path q))"
    and "destinations root fs (map (\<lambda>q. path_append dest (rel (normalized_path q))) qs)" and "same_outside root fs fs'"
  shows "placed M root fs' dest rel s"
proof -
  let ?g = "\<lambda>k. path_append dest (rel k)"
  have "inj_on (?g \<circ> normalized_path) (set qs)" using assms(5) by (simp add: destinations_def distinct_map comp_def)
  then have inj: "inj_on ?g (fst ` set (mFiles s))" unfolding assms(1) by (rule inj_on_imageI)
  have "distinct (map fst (mFiles s))" using assms(2) by (auto simp: snap_inv_def smap_ok_def strict_sorted_iff)
  then have "distinct (map ?g (map fst (mFiles s)))" using inj by (simp add: distinct_map comp_inj_on)
  moreover have "set (map ?g (map fst (mFiles s))) = set (map (\<lambda>q. ?g (normalized_path q)) qs)" using assms(1) by (simp add: image_image flip: image_comp) (metis image_image)
  ultimately have "destinations root fs (map ?g (map fst (mFiles s)))" using assms(5) unfolding destinations_def by simp
  moreover have "map (\<lambda>(k, fe). ?g k) (mFiles s) = map ?g (map fst (mFiles s))" by (simp add: split_def)
  ultimately have "destinations root fs (map (\<lambda>(k, fe). ?g k) (mFiles s))" by (simp only:)
  note dests = destinations_outside [OF this assms(6)]
  have "sy_relative (m_sys M) k [] = Inr (rel k)" if "(k, fe) \<in> set (mFiles s)" for k fe
  proof -
    have "k \<in> fst ` set (mFiles s)" using that by (rule rev_image_eqI) simp
    then show ?thesis unfolding assms(1) using assms(4) by blast
  qed
  with dests assms(3) show ?thesis unfolding placed_def by blast
qed

lemma restored_sources:
  assumes "restored fs fs' (map (\<lambda>(k, fe). (path_append dest (rel k), content k)) (mFiles s))" and "fst ` set (mFiles s) = normalized_path ` set qs"
  shows "\<And>q. q \<in> set qs \<Longrightarrow> fs_node fs' (path_append dest (rel (normalized_path q))) = Some (RegNode (content (normalized_path q)))"
    and "\<And>p. p \<notin> (\<lambda>q. path_append dest (rel (normalized_path q))) ` set qs \<Longrightarrow> fs_node fs' p = fs_node fs p \<or> fs_node fs p = None \<and> fs_node fs' p = Some DirNode"
proof -
  fix q assume "q \<in> set qs"
  then have "normalized_path q \<in> fst ` set (mFiles s)" unfolding assms(2) by (rule imageI)
  then obtain fe where "(normalized_path q, fe) \<in> set (mFiles s)" by auto
  then show "fs_node fs' (path_append dest (rel (normalized_path q))) = Some (RegNode (content (normalized_path q)))"
    using assms(1) unfolding restored_def by force
next
  fix p assume p: "p \<notin> (\<lambda>q. path_append dest (rel (normalized_path q))) ` set qs"
  have "fst ` set (map (\<lambda>(k, fe). (path_append dest (rel k), content k)) (mFiles s)) = (\<lambda>k. path_append dest (rel k)) ` fst ` set (mFiles s)" by force
  then have "p \<notin> fst ` set (map (\<lambda>(k, fe). (path_append dest (rel k), content k)) (mFiles s))" using p unfolding assms(2) by (simp add: image_image)
  then show "fs_node fs' p = fs_node fs p \<or> fs_node fs p = None \<and> fs_node fs' p = Some DirNode" using assms(1) unfolding restored_def by blast
qed

section \<open>A new repository\<close>

text \<open>The password and its confirmation.\<close>

definition typed_twice :: "string \<Rightarrow> string \<Rightarrow> console \<Rightarrow> bool" where
  "typed_twice line line2 c \<longleftrightarrow> line \<noteq> [] \<and> newline \<notin> set line \<and> NUL \<notin> set line \<and> length line \<le> 62
     \<and> newline \<notin> set line2 \<and> NUL \<notin> set line2 \<and> length line2 \<le> 62 \<and> (\<exists>rest. co_in c = line @ newline # line2 @ newline # rest)"

lemma prompt_typed_twice:
  assumes "typed_twice line line2 c"
  shows "\<exists>c'. promptReadPassword True c = Some (if line2 = line then Inr line else Inl InvalidDataException, c')"
proof -
  obtain rest where l: "line \<noteq> []" "newline \<notin> set line" "NUL \<notin> set line" "length line \<le> 62" "newline \<notin> set line2" "NUL \<notin> set line2" "length line2 \<le> 62"
    and inp: "co_in (c\<lparr>co_echo := False\<rparr>) = line @ newline # line2 @ newline # rest" using assms by (auto simp: typed_twice_def)
  note one = prompt_line_ok [OF l(2,4) inp, of "''Password: ''"]
  let ?c = "c\<lparr>co_echo := False, co_in := line2 @ newline # rest, co_out := co_out (c\<lparr>co_echo := False\<rparr>) @ ''Password: '' @ [newline]\<rparr>"
  have "co_in ?c = line2 @ newline # rest" by simp
  note two = prompt_line_ok [OF l(5,7) this, of "''Confirm password: ''"]
  have n: "cstr (line @ [newline]) = line @ [newline]" "cstr (line2 @ [newline]) = line2 @ [newline]" using l(3,6) by (simp_all add: NUL_def)
  show ?thesis using one two n trim_newlines_line [OF l(1-3)]
    by (auto simp: promptReadPassword_def enableConsoleOutput_def finally_io_def)
qed

lemma init_run:
  fixes M :: "('e, 'dc, 'h, 'm, 'l, 'z, 'w) machine"
  assumes "calm M" and "crypto_ok (m_env M) H D" and "\<forall>k. cipher_padded (m_env M) k" and "kdf_ok (m_env M)"
    and "parse_flags flags Cli_Options_new = Some opts" and "backend opts \<noteq> ''s3''" and "file_store_ok root (c_disk s)" and "typed_twice password confirm (c_con s)"
  shows "\<exists>s' R kf. main M flags [''init'', root] s = Some (Inr 0, s') \<and> same_outside root (c_disk s) (c_disk s')
     \<and> (if confirm = password then repository_at (m_env M) H password R root (c_disk s') \<and> file_objects root (c_disk s') = (file_objects root (c_disk s))(''/key'' \<mapsto> kf)
        else c_disk s' = c_disk s)"
proof -
  note crypto = crypto_okD [OF assms(2)]
  have "fs_node (c_disk s) root \<noteq> None" using assms(7) by (simp add: file_store_ok_def)
  note store = open_disk_store [OF assms(6) this, of M]
  let ?w = "new_session M s"
  obtain c where c: "promptReadPassword True (w_prog ?w) = Some (if confirm = password then Inr password else Inl InvalidDataException, c)"
    using prompt_typed_twice [OF assms(8)] by auto
  show ?thesis
  proof (cases "confirm = password")
    case False
    then have "run_action M opts [''init'', root] s = Some (Inl InvalidDataException, s\<lparr>c_con := c\<rparr>)"
      using store c by (simp add: run_action_def cli_initializeRepository_def with_repository_def on_console_def Let_def)
    then show ?thesis using False assms(5) by (simp add: main_def)
  next
    case True
    let ?w1 = "?w\<lparr>w_prog := c\<rparr>"
    have "kept root (c_disk s) (fst (w_store ?w1))" "disk_free (m_tmp M)" using assms(1,7) by (simp_all add: kept_def calm_def)
    from kept_store.initializeRepository_ok [OF this(1) crypto(1,2) spec [OF assms(3)] assms(4) _ quiet_default this(2), of 17 password]
    obtain w kf where w: "initializeRepository (m_env M) (m_tmp M) (disk_store root) password 17 DefaultProgressFunction ?w1 = Some (Inr (), w)"
      "kept root (c_disk s) (fst (w_store w))" "keys_ok (w_repo w)" "file_objects root (fst (w_store w)) = (file_objects root (c_disk s))(''/key'' \<mapsto> kf)"
      "key_file (m_env M) H password (all_keys (w_repo w)) kf" by auto
    obtain c' where "(if quiet_opt opts then return_io () else print (''Repository initialized.'' @ [newline])) w = Some (Inr (), w\<lparr>w_prog := c'\<rparr>)"
      using print_unless_quiet by blast
    then have "run_action M opts [''init'', root] s = Some (Inr (), s\<lparr>c_disk := fst (w_store w), c_aws := snd (w_store w), c_con := c', c_rng := w_rng w\<rparr>)"
      using store c True w(1) by (simp add: run_action_def cli_initializeRepository_def with_repository_def on_console_def Let_def split del: if_split)
    moreover have "repository_at (m_env M) H password (w_repo w) root (fst (w_store w))" using w(2-5) by (simp add: repository_at_def kept_def)
    ultimately show ?thesis using True assms(5) w(2,4) by (auto simp: main_def kept_def)
  qed
qed

section \<open>A directory with two files\<close>

lemma plain_decode_length:
  "length i < n \<Longrightarrow> plain_lzma_decode z n i = (z', out, used, st) \<Longrightarrow>
   if lzma_finished st then used \<le> 2 * length out + (if z then 1 else 2) else used = length i"
proof (induction z n i arbitrary: z' out used st rule: plain_lzma_decode.induct)
  case (1 z n)
  then show ?case by (simp add: lzma_finished_def)
next
  case (2 n b src)
  show ?case
  proof (cases "b = 0")
    case True
    then show ?thesis using 2(3) by (auto simp: lzma_finished_def)
  next
    case False
    obtain z1 out1 used1 st1 where rec: "plain_lzma_decode True n src = (z1, out1, used1, st1)" by (cases "plain_lzma_decode True n src")
    from 2(1) [OF False _ rec] 2(2,3) False rec show ?thesis by (auto split: if_splits)
  qed
next
  case (3 n b src)
  then have n: "n \<noteq> 0" by simp
  obtain z1 out1 used1 st1 where rec: "plain_lzma_decode False (n - 1) src = (z1, out1, used1, st1)" by (cases "plain_lzma_decode False (n - 1) src")
  from 3(1) [OF n _ rec] 3(2,3) n rec show ?case by (auto split: if_splits)
qed

lemma plain_sealed_bound: "sealed plain_env plain_hmac ct k1 k2 x y \<Longrightarrow> length y \<le> 2 * length x + 67"
proof -
  assume "sealed plain_env plain_hmac ct k1 k2 x y"
  then obtain iv p where y: "length y = length p + 64" "payload_ok plain_env ct p x"
    by (auto simp: sealed_def evp_encrypt_def plain_enc_updates length_plain_hmac)
  show ?thesis
  proof (cases ct)
    case LZMA2
    then obtain m i z D where i: "p = m # i" "i \<noteq> []" "lzma_decodes plain_env D" "D z i = Some x" using y(2) by (auto simp: payload_ok_def)
    obtain z' out used st where dec: "plain_lzma_decode z (Suc (length i)) i = (z', out, used, st)"
      "lzma_finished st \<longrightarrow> out = x \<and> used = length i" "\<not> lzma_finished st \<longrightarrow> used < length i"
      by (rule lzma_decodesE [OF i(3), of z i "[]" x "Suc (length i)"]) (use i(2,4) in auto)
    then have "length i \<le> 2 * length x + 2"
      using plain_decode_length [OF _ dec(1)] by (auto split: if_splits)
    then show ?thesis using y(1) i(1) by simp
  qed (use y in \<open>auto simp: payload_ok_def\<close>)
qed

text \<open>A repository in \<open>/s\<close>, two files in \<open>/home\<close>, and an empty directory \<open>/r\<close>.\<close>

definition home_disk :: "bytes \<Rightarrow> filesys" where
  "home_disk key = \<lparr>fs_nodes = [(''/s'', DirNode), (''/s/key'', RegNode key), (''/home'', DirNode), (''/home/x.txt'', RegNode [7, 8, 9]),
     (''/home/y.txt'', RegNode [1, 2, 3]), (''/r'', DirNode)], fs_bad = [], fs_limit = None, fs_unique = ''tmp''\<rparr>"

definition home_content :: "string \<Rightarrow> bytes" where
  "home_content k = (if k = ''home/x.txt'' then [7, 8, 9] else [1, 2, 3])"

lemma home_disk_ok: "file_store_ok ''/s'' (home_disk key)" "file_objects ''/s'' (home_disk key) = [''/key'' \<mapsto> key]"
proof -
  have "parent_path ''/s'' = ''/''" "parent_path ''/'' = []" by code_simp+
  then have "\<not> under_file (home_disk key) ''/s''" by (simp add: under_file.simps home_disk_def fs_node_def)
  moreover have "plain_dir ''/s''" by (simp add: plain_dir_def sep_at_def is_sep_def)
  moreover have "parent_path ''/s/key'' = ''/s''" by code_simp
  ultimately show "file_store_ok ''/s'' (home_disk key)"
    using valid_nonempty by (auto simp: file_store_ok_def home_disk_def fs_node_def valid_name_def valid_dir_def)
  show "file_objects ''/s'' (home_disk key) = [''/key'' \<mapsto> key]"
    by (auto simp: file_objects_def home_disk_def fs_node_def fun_eq_iff valid_name_def)
qed

lemma home_sources: "backup_sources (home_disk key) ''/home'' = [''/home/x.txt'', ''/home/y.txt'']"
  by (simp add: backup_sources_def home_disk_def) code_simp

lemma home_paths: "normalized_path ''/home/x.txt'' = ''home/x.txt''" "normalized_path ''/home/y.txt'' = ''home/y.txt''"
  "filename ''home/x.txt'' = ''x.txt''" "filename ''home/y.txt'' = ''y.txt''" "split_path ''home/x.txt''" "split_path ''home/y.txt''"
  by code_simp+

lemma home_destinations: "destinations ''/s'' (home_disk key) [''/r/x.txt'', ''/r/y.txt'']"
  by (simp add: home_disk_def) code_simp

lemma home_packs:
  "fresh_packs plain_hmac R [''/key'' \<mapsto> key] [[7, 8, 9], [1, 2, 3]]" "pack_limit plain_env plain_hmac R [[7, 8, 9], [1, 2, 3]]"
proof -
  have subs: "ds = [[7, 8, 9]] \<or> ds = [[1, 2, 3]] \<or> ds = [[7, 8, 9], [1, 2, 3]]"
    if "ds \<noteq> []" "sublist ds [[7, 8, 9], [1, 2, 3]]" for ds :: "bytes list"
    using that by (auto simp: sublist_Cons_right prefix_Cons)
  have "inj_on (pack_id plain_hmac R) {ds. ds \<noteq> [] \<and> sublist ds [[7, 8, 9], [1, 2, 3]]}"
    by (rule inj_onI) (auto dest!: subs simp: pack_id_def plain_hmac_def numeral_eq_Suc)
  then show "fresh_packs plain_hmac R [''/key'' \<mapsto> key] [[7, 8, 9], [1, 2, 3]]"
    using object_name_not_snapshot(2) by (auto simp: fresh_packs_def)
  have "sealed_bound plain_env plain_hmac R (set [[7, 8, 9], [1, 2, 3]]) 73"
    using plain_sealed_bound by (fastforce simp: sealed_bound_def)
  then show "pack_limit plain_env plain_hmac R [[7, 8, 9], [1, 2, 3]]" unfolding pack_limit_def by (intro exI [of _ 73]) simp
qed

lemma home_ready:
  "backup_ready sample_machine plain_hmac plain_digest R ''/s'' (home_disk key) home_content (backup_sources (home_disk key) ''/home'')"
proof -
  have "source_ok sample_machine ''/s'' (home_disk key) home_content q" if "q \<in> {''/home/x.txt'', ''/home/y.txt''}" for q
    using that home_paths
    by (auto simp: source_ok_def home_disk_def fs_node_def home_content_def sample_machine_def sample_info_def FileInfo_exists_def NUL_def)
  then show ?thesis using home_packs(1) [of R key] home_packs(2) [of R]
    by (simp add: backup_ready_def home_sources home_paths home_disk_ok home_content_def sample_machine_def pack_room_def source_info_def pack_info_def
        Snapshot_new_def sample_info_def)
qed

lemma home_repository:
  "repository_at plain_env plain_hmac ''old'' (Repository_new plain_env None) ''/s'' (home_disk sample_key_file)"
  using sample_key_file_ok by (simp add: repository_at_def home_disk_ok sample_session_def)

lemma sample_machine_ok: "calm sample_machine" "crypto_ok (m_env sample_machine) plain_hmac plain_digest"
  by (simp_all add: calm_def sample_machine_def sample_sys_def empty_disk_free crypto_ok_def plain_hmac_ok plain_cipher_ok plain_lzma_ok plain_digest_ok)

lemma typed_old: "typed ''old'' (c_con (sample_cli fs (''old'' @ [newline])))"
  by (auto simp: typed_def sample_cli_def sample_console_def NUL_def)

end
