(* ===== verification/SSH_Data_Store.thy ===== *)
theory SSH_Data_Store
  imports Data_Store
begin

text \<open>
  \<^verbatim>\<open>backends/SSHDataStore\<close>: the data store on an SFTP server. The library \<^verbatim>\<open>libssh\<close> is a record of its calls
  over a world \<open>'w\<close> that holds the sessions, the open files and the server; sessions, files and directories are handles.
  The connection with its host key check, the two ways to authenticate, and the five operations of the interface are
  translated; what the theorems rely on of \<^verbatim>\<open>libssh\<close> and of the server is stated as \<open>sftp_ok\<close>.
\<close>

section \<open>The library\<close>

datatype ssh_status = SSH_OK | SSH_ERROR | SSH_AGAIN | SSH_EOF

datatype ssh_known = SSH_SERVER_ERROR | SSH_SERVER_NOT_KNOWN | SSH_SERVER_KNOWN_OK | SSH_SERVER_KNOWN_CHANGED
  | SSH_SERVER_FOUND_OTHER | SSH_SERVER_FILE_NOT_FOUND

datatype ssh_auth = SSH_AUTH_SUCCESS | SSH_AUTH_DENIED | SSH_AUTH_PARTIAL | SSH_AUTH_INFO | SSH_AUTH_AGAIN | SSH_AUTH_ERROR

datatype open_flags = O_RDONLY | O_WRONLY

type_synonym handle = nat

text \<open>A null pointer is \<open>None\<close>, as is a negative number of bytes. \<open>sftp_dir_count\<close> is the member \<^verbatim>\<open>count\<close> of a directory
  handle, and \<open>sftp_readdir\<close> gives the name in the attributes.\<close>

record 'w libssh =
  ssh_new :: "'w \<Rightarrow> handle option \<times> 'w"
  ssh_options_set_host :: "handle \<Rightarrow> string \<Rightarrow> 'w \<Rightarrow> unit \<times> 'w"
  ssh_options_set_port :: "handle \<Rightarrow> int \<Rightarrow> 'w \<Rightarrow> unit \<times> 'w"
  ssh_connect :: "handle \<Rightarrow> 'w \<Rightarrow> ssh_status \<times> 'w"
  ssh_is_server_known :: "handle \<Rightarrow> 'w \<Rightarrow> ssh_known \<times> 'w"
  ssh_get_pubkey_hash :: "handle \<Rightarrow> 'w \<Rightarrow> bytes option \<times> 'w"
  ssh_write_knownhost :: "handle \<Rightarrow> 'w \<Rightarrow> bool \<times> 'w"
  ssh_userauth_password :: "handle \<Rightarrow> string \<Rightarrow> string \<Rightarrow> 'w \<Rightarrow> ssh_auth \<times> 'w"
  ssh_pki_import_privkey_file :: "string \<Rightarrow> string \<Rightarrow> 'w \<Rightarrow> handle option \<times> 'w"
  ssh_userauth_publickey :: "handle \<Rightarrow> string \<Rightarrow> handle \<Rightarrow> 'w \<Rightarrow> ssh_auth \<times> 'w"
  ssh_key_free :: "handle \<Rightarrow> 'w \<Rightarrow> unit \<times> 'w"
  ssh_disconnect :: "handle \<Rightarrow> 'w \<Rightarrow> unit \<times> 'w"
  ssh_free :: "handle \<Rightarrow> 'w \<Rightarrow> unit \<times> 'w"
  sftp_new :: "handle \<Rightarrow> 'w \<Rightarrow> handle option \<times> 'w"
  sftp_free :: "handle option \<Rightarrow> 'w \<Rightarrow> unit \<times> 'w"
  sftp_lstat :: "handle \<Rightarrow> string \<Rightarrow> 'w \<Rightarrow> bool \<times> 'w"
  sftp_open :: "handle \<Rightarrow> string \<Rightarrow> open_flags \<Rightarrow> int \<Rightarrow> 'w \<Rightarrow> handle option \<times> 'w"
  sftp_read :: "handle \<Rightarrow> nat \<Rightarrow> 'w \<Rightarrow> bytes option \<times> 'w"
  sftp_write :: "handle \<Rightarrow> bytes \<Rightarrow> 'w \<Rightarrow> int \<times> 'w"
  sftp_close :: "handle \<Rightarrow> 'w \<Rightarrow> unit \<times> 'w"
  sftp_opendir :: "handle \<Rightarrow> string \<Rightarrow> 'w \<Rightarrow> handle option \<times> 'w"
  sftp_readdir :: "handle \<Rightarrow> handle \<Rightarrow> 'w \<Rightarrow> string option \<times> 'w"
  sftp_dir_count :: "handle \<Rightarrow> 'w \<Rightarrow> int"
  sftp_closedir :: "handle \<Rightarrow> 'w \<Rightarrow> unit \<times> 'w"
  sftp_unlink :: "handle \<Rightarrow> string \<Rightarrow> 'w \<Rightarrow> int \<times> 'w"

definition call_io :: "('w \<Rightarrow> 'a \<times> 'w) \<Rightarrow> ('w, 'a) io" where
  "call_io f = (\<lambda>w. case f w of (a, w') \<Rightarrow> Some (Inr a, w'))"

lemma call_io_apply [simp]: "f w = (a, w') \<Longrightarrow> call_io f w = Some (Inr a, w')"
  by (simp add: call_io_def)

lemma bind_call_io: "bind_io (call_io f) k w = k (fst (f w)) (snd (f w))"
  by (simp add: bind_io_def call_io_def split: prod.splits)

text \<open>A call repeated while it answers that it has to be called again.\<close>

partial_function (option) again_io :: "('w \<Rightarrow> 'a \<times> 'w) \<Rightarrow> 'a \<Rightarrow> ('w, 'a) io" where
  "again_io f again w = (case f w of (a, w') \<Rightarrow> if a = again then again_io f again w' else Some (Inr a, w'))"

section \<open>Connecting\<close>

text \<open>The object. \<^verbatim>\<open>mFtp\<close> is not initialised by the constructor: \<open>None\<close> until \<^verbatim>\<open>connect\<close> assigns it.\<close>

record SSHDataStore =
  ssh_mPath :: string
  ssh_mSession :: handle
  ssh_mFtp :: "handle option option"

definition SSHDataStore_new :: "'w libssh \<Rightarrow> string \<Rightarrow> ('w, SSHDataStore) io" where
  "SSHDataStore_new L path =
     bind_io (call_io (ssh_new L)) (\<lambda>session. case session of
       None \<Rightarrow> throw_io InitializationException
     | Some s \<Rightarrow> return_io \<lparr>ssh_mPath = path, ssh_mSession = s, ssh_mFtp = None\<rparr>)"

definition SSHDataStore_destroy :: "'w libssh \<Rightarrow> SSHDataStore \<Rightarrow> ('w, unit) io" where
  "SSHDataStore_destroy L st = (case ssh_mFtp st of
       None \<Rightarrow> throw_io UndefinedBehaviour
     | Some ftp \<Rightarrow>
         bind_io (call_io (sftp_free L ftp)) (\<lambda>_.
         bind_io (call_io (ssh_disconnect L (ssh_mSession st))) (\<lambda>_.
         call_io (ssh_free L (ssh_mSession st)))))"

text \<open>An object of class \<^verbatim>\<open>Authentication\<close>: the function pointer \<^verbatim>\<open>acceptHostKey\<close>, \<open>None\<close> while nobody has assigned it, and the
  virtual method.\<close>

record 'w Authentication =
  acceptHostKey :: "(bytes \<Rightarrow> int \<Rightarrow> 'w \<Rightarrow> bool \<times> 'w) option"
  authenticate :: "('w, bool) io"

definition PasswordAuthentication_authenticate :: "'w libssh \<Rightarrow> handle \<Rightarrow> string \<Rightarrow> string \<Rightarrow> ('w, bool) io" where
  "PasswordAuthentication_authenticate L s username password =
     bind_io (again_io (ssh_userauth_password L s username password) SSH_AUTH_AGAIN) (\<lambda>authStatus. case authStatus of
       SSH_AUTH_ERROR \<Rightarrow> throw_io ConnectionException
     | SSH_AUTH_PARTIAL \<Rightarrow> throw_io ConnectionException
     | SSH_AUTH_DENIED \<Rightarrow> return_io False
     | _ \<Rightarrow> return_io True)"

text \<open>The result of \<^verbatim>\<open>ssh_pki_import_privkey_file\<close> is ignored: after a failure \<^verbatim>\<open>sshKey\<close> is used without a value.\<close>

definition PublicKeyAuthentication_authenticate :: "'w libssh \<Rightarrow> handle \<Rightarrow> string \<Rightarrow> string \<Rightarrow> string \<Rightarrow> ('w, bool) io" where
  "PublicKeyAuthentication_authenticate L s username password privateKeyFile =
     bind_io (call_io (ssh_pki_import_privkey_file L privateKeyFile password)) (\<lambda>sshKey. case sshKey of
       None \<Rightarrow> throw_io UndefinedBehaviour
     | Some key \<Rightarrow>
         bind_io (call_io (ssh_userauth_publickey L s username key)) (\<lambda>authStatus.
         bind_io (call_io (ssh_key_free L key)) (\<lambda>_. case authStatus of
           SSH_AUTH_ERROR \<Rightarrow> throw_io ConnectionException
         | SSH_AUTH_PARTIAL \<Rightarrow> throw_io ConnectionException
         | SSH_AUTH_DENIED \<Rightarrow> return_io False
         | _ \<Rightarrow> return_io True)))"

definition PasswordAuthentication :: "'w libssh \<Rightarrow> handle \<Rightarrow> string \<Rightarrow> string \<Rightarrow> 'w Authentication" where
  "PasswordAuthentication L s username password =
     \<lparr>acceptHostKey = None, authenticate = PasswordAuthentication_authenticate L s username password\<rparr>"

definition PublicKeyAuthentication :: "'w libssh \<Rightarrow> handle \<Rightarrow> string \<Rightarrow> string \<Rightarrow> string \<Rightarrow> 'w Authentication" where
  "PublicKeyAuthentication L s username password privateKeyFile =
     \<lparr>acceptHostKey = None, authenticate = PublicKeyAuthentication_authenticate L s username password privateKeyFile\<rparr>"

text \<open>The switch over the state of the server's host key.\<close>

definition check_host_key :: "'w libssh \<Rightarrow> handle \<Rightarrow> 'w Authentication \<Rightarrow> bytes \<Rightarrow> ssh_known \<Rightarrow> ('w, unit) io" where
  "check_host_key L s auth hash state =
     (let ask = (case acceptHostKey auth of
            None \<Rightarrow> throw_io UndefinedBehaviour
          | Some accept \<Rightarrow>
              bind_io (call_io (accept hash (int (length hash)))) (\<lambda>accepted.
              if accepted then bind_io (call_io (ssh_write_knownhost L s)) (\<lambda>good. guard_io good ConnectionException)
              else throw_io ConnectionException)) in
      case state of
        SSH_SERVER_KNOWN_OK \<Rightarrow> return_io ()
      | SSH_SERVER_KNOWN_CHANGED \<Rightarrow> throw_io ConnectionException
      | SSH_SERVER_FOUND_OTHER \<Rightarrow> throw_io ConnectionException
      | SSH_SERVER_FILE_NOT_FOUND \<Rightarrow> ask
      | SSH_SERVER_NOT_KNOWN \<Rightarrow> ask
      | SSH_SERVER_ERROR \<Rightarrow> throw_io ConnectionException)"

text \<open>\<^verbatim>\<open>connect\<close> up to the call of \<^verbatim>\<open>authenticate\<close>, and all of it.\<close>

definition open_session :: "'w libssh \<Rightarrow> handle \<Rightarrow> string \<Rightarrow> int \<Rightarrow> 'w Authentication \<Rightarrow> ('w, unit) io" where
  "open_session L s hostname port auth =
     bind_io (call_io (ssh_options_set_host L s hostname)) (\<lambda>_.
     bind_io (call_io (ssh_options_set_port L s port)) (\<lambda>_.
     bind_io (again_io (ssh_connect L s) SSH_AGAIN) (\<lambda>status.
     if status \<noteq> SSH_OK then throw_io ConnectionException
     else
       bind_io (call_io (ssh_is_server_known L s)) (\<lambda>state.
       bind_io (call_io (ssh_get_pubkey_hash L s)) (\<lambda>hash. case hash of
         None \<Rightarrow> throw_io ConnectionException
       | Some h \<Rightarrow> check_host_key L s auth h state)))))"

definition SSHDataStore_connect ::
    "'w libssh \<Rightarrow> string \<Rightarrow> int \<Rightarrow> string \<Rightarrow> 'w Authentication \<Rightarrow> ('w \<times> SSHDataStore, bool) io" where
  "SSHDataStore_connect L hostname port username auth = (\<lambda>(w, st).
     case seq_io (open_session L (ssh_mSession st) hostname port auth) (authenticate auth) w of
       None \<Rightarrow> None
     | Some (Inl e, w') \<Rightarrow> Some (Inl e, (w', st))
     | Some (Inr False, w') \<Rightarrow> Some (Inr False, (w', st))
     | Some (Inr True, w') \<Rightarrow>
         (case sftp_new L (ssh_mSession st) w' of (ftp, w'') \<Rightarrow>
            Some (if ftp = None then Inl ConnectionException else Inr True, (w'', st\<lparr>ssh_mFtp := Some ftp\<rparr>))))"

section \<open>The operations\<close>

text \<open>Every operation uses \<^verbatim>\<open>mFtp\<close>, which must have been assigned.\<close>

definition with_ftp :: "(handle \<Rightarrow> SSHDataStore \<Rightarrow> ('w \<times> 'c, 'a) io) \<Rightarrow> (('w \<times> SSHDataStore) \<times> 'c, 'a) io" where
  "with_ftp f = (\<lambda>((w, st), c). case ssh_mFtp st of
       Some (Some ftp) \<Rightarrow> map_option (\<lambda>(r, (w', c')). (r, ((w', st), c'))) (f ftp st (w, c))
     | _ \<Rightarrow> Some (Inl UndefinedBehaviour, ((w, st), c)))"

definition SSHDataStore_exist :: "'w libssh \<Rightarrow> string \<Rightarrow> 'p progress \<Rightarrow> (('w \<times> SSHDataStore) \<times> 'p, bool) io" where
  "SSHDataStore_exist L path pr = with_ftp (\<lambda>ftp st (w, p).
     case sftp_lstat L ftp (path_append (ssh_mPath st) path) w of (there, w') \<Rightarrow> Some (Inr there, (w', p)))"

text \<open>The loops of \<^verbatim>\<open>get\<close> and \<^verbatim>\<open>put\<close> over 8192 bytes; a negative result of \<^verbatim>\<open>sftp_read\<close> ends the loop as the end of the file does,
  and the result of \<^verbatim>\<open>sftp_write\<close> is ignored. The handle is closed on every way out.\<close>

definition sftp_read_io :: "'w libssh \<Rightarrow> handle \<Rightarrow> nat \<Rightarrow> ('w, bytes) io" where
  "sftp_read_io L fp n = (\<lambda>w. case sftp_read L fp n w of
       (None, w') \<Rightarrow> Some (Inr [], w')
     | (Some bs, w') \<Rightarrow> Some (Inr bs, w'))"

definition sftp_get_body :: "'p progress \<Rightarrow> bytes \<Rightarrow> ('p \<times> TempFileStream \<times> int, unit) io" where
  "sftp_get_body pr buf = (\<lambda>(p, t, count).
     let count' = count + int (length buf) in
     case pr count' (-1) p of (go, p') \<Rightarrow>
       if \<not> go then Some (Inl CancelledException, (p', t, count'))
       else map_option (\<lambda>(r, t'). (r, (p', t', count'))) (TempFileStream_write buf t))"

definition SSHDataStore_get ::
    "'w libssh \<Rightarrow> string \<Rightarrow> 'p progress \<Rightarrow> (('w \<times> SSHDataStore) \<times> 'p \<times> TempFileStream, unit) io" where
  "SSHDataStore_get L path pr = with_ftp (\<lambda>ftp st (w, p, t).
     case sftp_open L ftp (path_append (ssh_mPath st) path) O_RDONLY 0 w of
       (None, w') \<Rightarrow> Some (Inl FileNotFoundException, (w', p, t))
     | (Some fp, w') \<Rightarrow>
         map_option (\<lambda>(r, (w'', (p', t', _))). (r, (snd (sftp_close L fp w''), p', t')))
           (read_each (sftp_read_io L fp) 8192 (sftp_get_body pr) (w', (p, t, 0))))"

definition sftp_put_body :: "'w libssh \<Rightarrow> handle \<Rightarrow> 'p progress \<Rightarrow> bytes \<Rightarrow> ('w \<times> 'p \<times> int, unit) io" where
  "sftp_put_body L fp pr buf = (\<lambda>(w, p, count).
     let count' = count + int (length buf) in
     case pr count' (-1) p of (go, p') \<Rightarrow>
       if \<not> go then Some (Inl CancelledException, (w, p', count'))
       else Some (Inr (), (snd (sftp_write L fp buf w), p', count')))"

definition SSHDataStore_put :: "'w libssh \<Rightarrow> string \<Rightarrow> 'p progress \<Rightarrow> (('w \<times> SSHDataStore) \<times> 'p \<times> any_in, unit) io" where
  "SSHDataStore_put L path pr = with_ftp (\<lambda>ftp st (w, p, s).
     case sftp_open L ftp (path_append (ssh_mPath st) path) O_WRONLY 384 w of
       (None, w') \<Rightarrow> Some (Inl FileNotFoundException, (w', p, s))
     | (Some fp, w') \<Rightarrow>
         map_option (\<lambda>(r, (s', (w'', p', _))). (r, (snd (sftp_close L fp w''), p', s')))
           (read_each (is_read any_methods) 8192 (sftp_put_body L fp pr) (s, (w', p, 0))))"

text \<open>The loop of \<^verbatim>\<open>list\<close>: the names the callback is called with, until the directory ends or the progress function cancels.\<close>

partial_function (option) sftp_list_loop ::
    "'w libssh \<Rightarrow> handle \<Rightarrow> handle \<Rightarrow> 'p progress \<Rightarrow> int \<Rightarrow> string option list \<Rightarrow> 'w \<times> 'p \<Rightarrow> ((exn + string option list) \<times> ('w \<times> 'p)) option" where
  "sftp_list_loop L ftp dir pr i names st =
     (case sftp_readdir L ftp dir (fst st) of
        (None, w') \<Rightarrow> Some (Inr names, (w', snd st))
      | (Some name, w') \<Rightarrow>
          (case pr i (sftp_dir_count L dir w') (snd st) of (go, p') \<Rightarrow>
             if \<not> go then Some (Inl CancelledException, (w', p'))
             else sftp_list_loop L ftp dir pr (i + 1) (names @ [Some name]) (w', p')))"

definition SSHDataStore_list :: "'w libssh \<Rightarrow> string \<Rightarrow> 'p progress \<Rightarrow> (('w \<times> SSHDataStore) \<times> 'p, string option list) io" where
  "SSHDataStore_list L path pr = with_ftp (\<lambda>ftp st (w, p).
     case sftp_opendir L ftp (path_append (ssh_mPath st) path) w of
       (None, w') \<Rightarrow> Some (Inl FileNotFoundException, (w', p))
     | (Some dir, w') \<Rightarrow>
         map_option (\<lambda>(r, (w'', p')). (r, (snd (sftp_closedir L dir w''), p'))) (sftp_list_loop L ftp dir pr 0 [] (w', p)))"

definition SSHDataStore_unlink :: "'w libssh \<Rightarrow> string \<Rightarrow> 'p progress \<Rightarrow> (('w \<times> SSHDataStore) \<times> 'p, bool) io" where
  "SSHDataStore_unlink L path pr = with_ftp (\<lambda>ftp st (w, p).
     case sftp_unlink L ftp (path_append (ssh_mPath st) path) w of (r, w') \<Rightarrow> Some (Inr (r = 0), (w', p)))"

definition SSH_DataStore :: "'w libssh \<Rightarrow> ('w \<times> SSHDataStore, 'p) DataStore" where
  "SSH_DataStore L =
     \<lparr>ds_exist = SSHDataStore_exist L, ds_get = SSHDataStore_get L, ds_put = SSHDataStore_put L,
      ds_list = SSHDataStore_list L, ds_unlink = SSHDataStore_unlink L\<rparr>"

section \<open>What the library and the server promise\<close>

text \<open>The view of a world: the files and directories of the server, the open files with their positions, and the open directories
  with the names that are still to be read.\<close>

record sftp_view =
  v_files :: "string \<rightharpoonup> bytes"
  v_dirs :: "string \<rightharpoonup> string list"
  v_fds :: "handle \<rightharpoonup> string \<times> nat"
  v_dds :: "handle \<rightharpoonup> string list"

definition lstat_ok :: "'w libssh \<Rightarrow> handle \<Rightarrow> ('w \<Rightarrow> sftp_view) \<Rightarrow> bool" where
  "lstat_ok L ftp view \<longleftrightarrow> (\<forall>q w. \<exists>w'. sftp_lstat L ftp q w = (v_files (view w) q \<noteq> None \<or> v_dirs (view w) q \<noteq> None, w')
     \<and> view w' = view w)"

text \<open>Without \<^verbatim>\<open>O_CREAT\<close> only a file that exists can be opened.\<close>

definition open_ok :: "'w libssh \<Rightarrow> handle \<Rightarrow> ('w \<Rightarrow> sftp_view) \<Rightarrow> bool" where
  "open_ok L ftp view \<longleftrightarrow> (\<forall>q fl m w. v_dirs (view w) q = None \<longrightarrow>
     (if v_files (view w) q = None then \<exists>w'. sftp_open L ftp q fl m w = (None, w') \<and> view w' = view w
      else \<exists>h w'. sftp_open L ftp q fl m w = (Some h, w') \<and> v_fds (view w) h = None
             \<and> view w' = (view w)\<lparr>v_fds := (v_fds (view w))(h \<mapsto> (q, 0))\<rparr>))"

text \<open>A read delivers at least one byte before the end of the file, but may deliver fewer than it was asked for.\<close>

definition read_ok :: "'w libssh \<Rightarrow> ('w \<Rightarrow> sftp_view) \<Rightarrow> bool" where
  "read_ok L view \<longleftrightarrow> (\<forall>h n w q pos d. v_fds (view w) h = Some (q, pos) \<and> v_files (view w) q = Some d \<and> 0 < n \<longrightarrow>
     (\<exists>k w'. sftp_read L h n w = (Some (take k (drop pos d)), w') \<and> 0 < k \<and> k \<le> n
        \<and> view w' = (view w)\<lparr>v_fds := (v_fds (view w))(h \<mapsto> (q, pos + length (take k (drop pos d))))\<rparr>))"

definition write_ok :: "'w libssh \<Rightarrow> ('w \<Rightarrow> sftp_view) \<Rightarrow> bool" where
  "write_ok L view \<longleftrightarrow> (\<forall>h bs w q pos d. v_fds (view w) h = Some (q, pos) \<and> v_files (view w) q = Some d \<and> pos \<le> length d \<longrightarrow>
     (\<exists>w'. sftp_write L h bs w = (int (length bs), w')
        \<and> view w' = (view w)\<lparr>v_files := (v_files (view w))(q \<mapsto> take pos d @ bs @ drop (pos + length bs) d),
                             v_fds := (v_fds (view w))(h \<mapsto> (q, pos + length bs))\<rparr>))"

definition close_ok :: "'w libssh \<Rightarrow> ('w \<Rightarrow> sftp_view) \<Rightarrow> bool" where
  "close_ok L view \<longleftrightarrow> (\<forall>h w. view (snd (sftp_close L h w)) = (view w)\<lparr>v_fds := (v_fds (view w))(h := None)\<rparr>)"

definition unlink_ok :: "'w libssh \<Rightarrow> handle \<Rightarrow> ('w \<Rightarrow> sftp_view) \<Rightarrow> bool" where
  "unlink_ok L ftp view \<longleftrightarrow> (\<forall>q w. v_dirs (view w) q = None \<longrightarrow>
     (\<exists>r w'. sftp_unlink L ftp q w = (r, w') \<and> (r = 0 \<longleftrightarrow> v_files (view w) q \<noteq> None)
        \<and> view w' = (view w)\<lparr>v_files := (v_files (view w))(q := None)\<rparr>))"

definition dir_ok :: "'w libssh \<Rightarrow> handle \<Rightarrow> ('w \<Rightarrow> sftp_view) \<Rightarrow> bool" where
  "dir_ok L ftp view \<longleftrightarrow>
     (\<forall>q w. case v_dirs (view w) q of
        None \<Rightarrow> \<exists>w'. sftp_opendir L ftp q w = (None, w') \<and> view w' = view w
      | Some ns \<Rightarrow> \<exists>h w'. sftp_opendir L ftp q w = (Some h, w') \<and> v_dds (view w) h = None
          \<and> view w' = (view w)\<lparr>v_dds := (v_dds (view w))(h \<mapsto> ns)\<rparr>)
     \<and> (\<forall>h w. v_dds (view w) h = Some [] \<longrightarrow> (\<exists>w'. sftp_readdir L ftp h w = (None, w') \<and> view w' = view w))
     \<and> (\<forall>h w n ns. v_dds (view w) h = Some (n # ns) \<longrightarrow>
          (\<exists>w'. sftp_readdir L ftp h w = (Some n, w') \<and> view w' = (view w)\<lparr>v_dds := (v_dds (view w))(h \<mapsto> ns)\<rparr>))
     \<and> (\<forall>h w. view (snd (sftp_closedir L h w)) = (view w)\<lparr>v_dds := (v_dds (view w))(h := None)\<rparr>)"

definition sftp_ok :: "'w libssh \<Rightarrow> handle \<Rightarrow> ('w \<Rightarrow> sftp_view) \<Rightarrow> bool" where
  "sftp_ok L ftp view \<longleftrightarrow> lstat_ok L ftp view \<and> open_ok L ftp view \<and> read_ok L view \<and> write_ok L view \<and> close_ok L view
     \<and> unlink_ok L ftp view \<and> dir_ok L ftp view"

lemma sftp_okD:
  assumes "sftp_ok L ftp view"
  shows "lstat_ok L ftp view" "open_ok L ftp view" "read_ok L view" "write_ok L view" "close_ok L view" "unlink_ok L ftp view" "dir_ok L ftp view"
  using assms by (simp_all add: sftp_ok_def)

lemma openE:
  assumes "open_ok L ftp view" and "v_dirs (view w) q = None" and "v_files (view w) q = Some d"
  obtains h w' where "sftp_open L ftp q fl m w = (Some h, w')" "v_fds (view w) h = None"
    "view w' = (view w)\<lparr>v_fds := (v_fds (view w))(h \<mapsto> (q, 0))\<rparr>"
  using assms unfolding open_ok_def by (metis option.distinct(1))

lemma open_missing:
  assumes "open_ok L ftp view" and "v_dirs (view w) q = None" and "v_files (view w) q = None"
  obtains w' where "sftp_open L ftp q fl m w = (None, w')" "view w' = view w"
  using assms unfolding open_ok_def by metis

lemma sftp_readE:
  assumes "read_ok L view" and "v_fds (view w) h = Some (q, pos)" and "v_files (view w) q = Some d"
  obtains k w' where "sftp_read_io L h 8192 w = Some (Inr (take k (drop pos d)), w')" "0 < k" "k \<le> 8192"
    "view w' = (view w)\<lparr>v_fds := (v_fds (view w))(h \<mapsto> (q, pos + length (take k (drop pos d))))\<rparr>"
proof -
  have "(0 :: nat) < 8192" by simp
  with assms obtain k w' where "sftp_read L h 8192 w = (Some (take k (drop pos d)), w')" "0 < k" "k \<le> 8192"
    "view w' = (view w)\<lparr>v_fds := (v_fds (view w))(h \<mapsto> (q, pos + length (take k (drop pos d))))\<rparr>"
    unfolding read_ok_def by meson
  then show thesis by (intro that [of k w']) (simp_all add: sftp_read_io_def)
qed

section \<open>Reading and writing objects\<close>

lemma sftp_get_body_ok:
  assumes "quiet pr" and "tmp_room t (length bs + k)"
  obtains p' t' where "sftp_get_body pr bs (p, t, c) = Some (Inr (), (p', t', c + int (length bs)))"
    "tmp_written t' = tmp_written t @ bs" "tmp_room t' k"
proof -
  obtain p' where p': "pr (c + int (length bs)) (- 1) p = (True, p')" using assms(1) unfolding quiet_def by (metis prod.collapse)
  have "tmp_room t (length bs)" using tmp_out.room_mono [OF assms(2)] by simp
  then obtain t' where "TempFileStream_write bs t = Some (Inr (), t')" "tmp_written t' = tmp_written t @ bs" "tmp_room t' k"
    using tmp_out.write_ok [of t bs] assms(2) by blast
  with p' show thesis by (intro that [of p' t']) (simp_all add: sftp_get_body_def)
qed

lemma sftp_get_loop:
  assumes "read_ok L view" and "quiet pr"
  shows "v_fds (view w) h = Some (q, pos) \<Longrightarrow> v_files (view w) q = Some d \<Longrightarrow> pos \<le> length d \<Longrightarrow> tmp_room t (length (drop pos d) + k) \<Longrightarrow>
    \<exists>w' p' t' c'. read_each (sftp_read_io L h) 8192 (sftp_get_body pr) (w, (p, t, c)) = Some (Inr (), (w', (p', t', c')))
      \<and> view w' = (view w)\<lparr>v_fds := (v_fds (view w))(h \<mapsto> (q, length d))\<rparr> \<and> tmp_written t' = tmp_written t @ drop pos d \<and> tmp_room t' k"
proof (induction "length d - pos" arbitrary: w pos p t c rule: less_induct)
  case less
  obtain n w1 where w1: "sftp_read_io L h 8192 w = Some (Inr (take n (drop pos d)), w1)" "0 < n"
    "view w1 = (view w)\<lparr>v_fds := (v_fds (view w))(h \<mapsto> (q, pos + length (take n (drop pos d))))\<rparr>"
    by (rule sftp_readE [OF assms(1) less.prems(1,2)])
  show ?case
  proof (cases "pos = length d")
    case True
    then show ?thesis using w1 less.prems
      by (intro exI [of _ w1] exI [of _ p] exI [of _ t] exI [of _ c]) (simp add: read_each.simps [of "sftp_read_io L h"])
  next
    case False
    let ?bs = "take n (drop pos d)" and ?pos = "pos + length (take n (drop pos d))"
    have bs: "?bs \<noteq> []" "drop pos d = ?bs @ drop ?pos d"
      using False less.prems(3) w1(2) append_take_drop_id [of n "drop pos d"] by (auto simp: min_def add.commute)
    have "length (drop pos d) + k = length ?bs + (length (drop ?pos d) + k)" by (subst bs(2)) simp
    with less.prems(4) have "tmp_room t (length ?bs + (length (drop ?pos d) + k))" by (simp only:)
    then obtain p1 t1 where t1: "sftp_get_body pr ?bs (p, t, c) = Some (Inr (), (p1, t1, c + int (length ?bs)))"
      "tmp_written t1 = tmp_written t @ ?bs" "tmp_room t1 (length (drop ?pos d) + k)" by (rule sftp_get_body_ok [OF assms(2)])
    have lt: "length d - ?pos < length d - pos" "?pos \<le> length d" using bs(1) False less.prems(3) by auto
    have v: "v_fds (view w1) h = Some (q, ?pos)" "v_files (view w1) q = Some d" using w1(3) less.prems(2) by simp_all
    from less.hyps [OF lt(1) v lt(2) t1(3), of p1 "c + int (length ?bs)"] obtain w' p' t' c' where w':
      "read_each (sftp_read_io L h) 8192 (sftp_get_body pr) (w1, (p1, t1, c + int (length ?bs))) = Some (Inr (), (w', (p', t', c')))"
      "view w' = (view w1)\<lparr>v_fds := (v_fds (view w1))(h \<mapsto> (q, length d))\<rparr>" "tmp_written t' = tmp_written t1 @ drop ?pos d" "tmp_room t' k"
      by blast
    have "read_each (sftp_read_io L h) 8192 (sftp_get_body pr) (w, (p, t, c)) = Some (Inr (), (w', (p', t', c')))"
      using w1(1) bs(1) t1(1) w'(1) by (subst read_each.simps) simp
    moreover have "tmp_written t' = tmp_written t @ (?bs @ drop ?pos d)" using w'(3) t1(2) by simp
    then have "tmp_written t' = tmp_written t @ drop pos d" by (simp only: bs(2) [symmetric])
    ultimately show ?thesis using w' w1(3) by auto
  qed
qed

lemma sftp_put_feed:
  assumes "write_ok L view" and "quiet pr"
  shows "v_fds (view w) h = Some (q, pos) \<Longrightarrow> v_files (view w) q = Some d \<Longrightarrow> pos \<le> length d \<Longrightarrow>
    \<exists>w' p' c'. feed (sftp_put_body L h pr) xs (w, p, c) = Some (Inr (), (w', p', c'))
      \<and> view w' = (view w)\<lparr>v_files := (v_files (view w))(q \<mapsto> take pos d @ concat xs @ drop (pos + length (concat xs)) d),
                           v_fds := (v_fds (view w))(h \<mapsto> (q, pos + length (concat xs)))\<rparr>"
proof (induction xs arbitrary: w pos d p c)
  case Nil
  then show ?case by (auto simp: fun_upd_idem)
next
  case (Cons x xs)
  let ?d = "take pos d @ x @ drop (pos + length x) d" and ?c = "c + int (length x)"
  obtain p1 where p1: "pr ?c (- 1) p = (True, p1)" using assms(2) unfolding quiet_def by (metis prod.collapse)
  obtain w1 where w1: "sftp_write L h x w = (int (length x), w1)"
    "view w1 = (view w)\<lparr>v_files := (v_files (view w))(q \<mapsto> ?d), v_fds := (v_fds (view w))(h \<mapsto> (q, pos + length x))\<rparr>"
    using assms(1) Cons.prems unfolding write_ok_def by meson
  have v: "v_fds (view w1) h = Some (q, pos + length x)" "v_files (view w1) q = Some ?d" "pos + length x \<le> length ?d"
    using w1(2) Cons.prems(3) by (simp_all add: min_def)
  from Cons.IH [OF v, of p1 ?c] obtain w' p' c' where w': "feed (sftp_put_body L h pr) xs (w1, p1, ?c) = Some (Inr (), (w', p', c'))"
    "view w' = (view w1)\<lparr>v_files := (v_files (view w1))(q \<mapsto> take (pos + length x) ?d @ concat xs @ drop (pos + length x + length (concat xs)) ?d),
       v_fds := (v_fds (view w1))(h \<mapsto> (q, pos + length x + length (concat xs)))\<rparr>" by blast
  have td: "take (pos + length x) ?d = take pos d @ x" "drop (pos + length x + length (concat xs)) ?d = drop (pos + length x + length (concat xs)) d"
    using Cons.prems(3) by (simp_all add: min_def ac_simps)
  have "sftp_put_body L h pr x (w, p, c) = Some (Inr (), (w1, p1, ?c))" using p1 w1(1) by (simp add: sftp_put_body_def)
  then have "feed (sftp_put_body L h pr) (x # xs) (w, p, c) = Some (Inr (), (w', p', c'))" using w'(1) by simp
  moreover have "view w' = (view w)\<lparr>v_files := (v_files (view w))(q \<mapsto> take pos d @ concat (x # xs) @ drop (pos + length (concat (x # xs))) d),
       v_fds := (v_fds (view w))(h \<mapsto> (q, pos + length (concat (x # xs))))\<rparr>"
    using w'(2) [unfolded td w1(2)] by (simp add: add.assoc)
  ultimately show ?case by blast
qed

text \<open>An object of the store: the file of that name below the store's directory, and no directory has the name.\<close>

definition ssh_object :: "('w \<Rightarrow> sftp_view) \<Rightarrow> 'w \<times> SSHDataStore \<Rightarrow> string \<Rightarrow> bytes option" where
  "ssh_object view = (\<lambda>(w, st) path. v_files (view w) (path_append (ssh_mPath st) path))"

lemma fds_back:
  assumes "v_fds v h = None"
  shows "v\<lparr>v_fds := (v_fds v)(h := None)\<rparr> = v" "v\<lparr>v_files := x, v_fds := (v_fds v)(h := None)\<rparr> = v\<lparr>v_files := x\<rparr>"
  using assms by (cases v; simp add: fun_upd_idem)+

lemma ssh_get_ok:
  assumes "sftp_ok L ftp view" and "ssh_mFtp st = Some (Some ftp)" and "v_dirs (view w) (path_append (ssh_mPath st) path) = None"
    and "ssh_object view (w, st) path = Some d" and "quiet pr" and "tmp_room t (length d + k)"
  shows "\<exists>w' p' t'. SSHDataStore_get L path pr ((w, st), p, t) = Some (Inr (), ((w', st), p', t')) \<and> view w' = view w
     \<and> tmp_written t' = tmp_written t @ d \<and> tmp_room t' k"
proof -
  note ok = sftp_okD [OF assms(1)]
  let ?q = "path_append (ssh_mPath st) path"
  have d: "v_files (view w) ?q = Some d" using assms(4) by (simp add: ssh_object_def)
  obtain h w1 where w1: "sftp_open L ftp ?q O_RDONLY 0 w = (Some h, w1)" "v_fds (view w) h = None"
    "view w1 = (view w)\<lparr>v_fds := (v_fds (view w))(h \<mapsto> (?q, 0))\<rparr>" by (rule openE [OF ok(2) assms(3) d])
  have v: "v_fds (view w1) h = Some (?q, 0)" "v_files (view w1) ?q = Some d" "tmp_room t (length (drop 0 d) + k)" using w1(3) d assms(6) by simp_all
  obtain w' p' t' c' where w': "read_each (sftp_read_io L h) 8192 (sftp_get_body pr) (w1, (p, t, 0)) = Some (Inr (), (w', (p', t', c')))"
    "view w' = (view w1)\<lparr>v_fds := (v_fds (view w1))(h \<mapsto> (?q, length d))\<rparr>" "tmp_written t' = tmp_written t @ drop 0 d" "tmp_room t' k"
    using sftp_get_loop [OF ok(3) assms(5) v(1,2) _ v(3), of p 0] by auto
  have "view (snd (sftp_close L h w')) = view w" using ok(5) w'(2) w1(2,3) by (simp add: close_ok_def fds_back)
  then show ?thesis using assms(2) w1(1) w' by (simp add: SSHDataStore_get_def with_ftp_def)
qed

lemma ssh_get_missing:
  assumes "sftp_ok L ftp view" and "ssh_mFtp st = Some (Some ftp)" and "v_dirs (view w) (path_append (ssh_mPath st) path) = None"
    and "ssh_object view (w, st) path = None"
  shows "\<exists>w'. SSHDataStore_get L path pr ((w, st), p, t) = Some (Inl FileNotFoundException, ((w', st), p, t)) \<and> view w' = view w"
proof -
  obtain w' where "sftp_open L ftp (path_append (ssh_mPath st) path) O_RDONLY 0 w = (None, w')" "view w' = view w"
    using open_missing [OF sftp_okD(2) [OF assms(1)] assms(3)] assms(4) by (auto simp: ssh_object_def)
  then show ?thesis using assms(2) by (simp add: SSHDataStore_get_def with_ftp_def)
qed

lemma ssh_put_missing:
  assumes "sftp_ok L ftp view" and "ssh_mFtp st = Some (Some ftp)" and "v_dirs (view w) (path_append (ssh_mPath st) path) = None"
    and "ssh_object view (w, st) path = None"
  shows "\<exists>w'. SSHDataStore_put L path pr ((w, st), p, s) = Some (Inl FileNotFoundException, ((w', st), p, s)) \<and> view w' = view w"
proof -
  obtain w' where "sftp_open L ftp (path_append (ssh_mPath st) path) O_WRONLY 384 w = (None, w')" "view w' = view w"
    using open_missing [OF sftp_okD(2) [OF assms(1)] assms(3)] assms(4) by (auto simp: ssh_object_def)
  then show ?thesis using assms(2) by (simp add: SSHDataStore_put_def with_ftp_def)
qed

lemma ssh_put_over:
  assumes "sftp_ok L ftp view" and "ssh_mFtp st = Some (Some ftp)" and "v_dirs (view w) (path_append (ssh_mPath st) path) = None"
    and "ssh_object view (w, st) path = Some old" and "quiet pr" and "any_inv s"
  shows "\<exists>w' p' s'. SSHDataStore_put L path pr ((w, st), p, s) = Some (Inr (), ((w', st), p', s'))
     \<and> view w' = (view w)\<lparr>v_files := (v_files (view w))(path_append (ssh_mPath st) path \<mapsto> any_rest s @ drop (length (any_rest s)) old)\<rparr>"
proof -
  note ok = sftp_okD [OF assms(1)]
  let ?q = "path_append (ssh_mPath st) path" and ?bs = "any_rest s"
  have d: "v_files (view w) ?q = Some old" using assms(4) by (simp add: ssh_object_def)
  obtain h w1 where w1: "sftp_open L ftp ?q O_WRONLY 384 w = (Some h, w1)" "v_fds (view w) h = None"
    "view w1 = (view w)\<lparr>v_fds := (v_fds (view w))(h \<mapsto> (?q, 0))\<rparr>" by (rule openE [OF ok(2) assms(3) d])
  have v: "v_fds (view w1) h = Some (?q, 0)" "v_files (view w1) ?q = Some old" using w1(3) d by simp_all
  obtain w' p' c' where w': "feed (sftp_put_body L h pr) (chunks 8192 ?bs) (w1, p, 0) = Some (Inr (), (w', p', c'))"
    "view w' = (view w1)\<lparr>v_files := (v_files (view w1))(?q \<mapsto> ?bs @ drop (length ?bs) old), v_fds := (v_fds (view w1))(h \<mapsto> (?q, length ?bs))\<rparr>"
    using sftp_put_feed [OF ok(4) assms(5) v, of "chunks 8192 ?bs" p 0] by (auto simp: concat_chunks)
  obtain s' where "read_each (is_read any_methods) 8192 (sftp_put_body L h pr) (s, (w1, p, 0)) = Some (Inr (), (s', (w', p', c')))"
    using any_in.read_each_ok [OF assms(6) _ _ w'(1)] by auto
  moreover have "view (snd (sftp_close L h w')) = (view w)\<lparr>v_files := (v_files (view w))(?q \<mapsto> ?bs @ drop (length ?bs) old)\<rparr>"
    using ok(5) w'(2) w1(2,3) by (simp add: close_ok_def fds_back)
  ultimately show ?thesis using assms(2) w1(1) by (simp add: SSHDataStore_put_def with_ftp_def)
qed

section \<open>The properties\<close>



lemma sftp_list_loop_ok:
  assumes "dir_ok L ftp view" and "quiet pr"
  shows "v_dds (view w) h = Some ns \<Longrightarrow> \<exists>w' p'. sftp_list_loop L ftp h pr i names (w, p) = Some (Inr (names @ map Some ns), (w', p'))
     \<and> view w' = (view w)\<lparr>v_dds := (v_dds (view w))(h \<mapsto> [])\<rparr>"
proof (induction ns arbitrary: w i names p)
  case Nil
  obtain w' where "sftp_readdir L ftp h w = (None, w')" "view w' = view w"
    using assms(1) Nil unfolding dir_ok_def by blast
  moreover have "(view w)\<lparr>v_dds := (v_dds (view w))(h \<mapsto> [])\<rparr> = view w" using Nil by (cases "view w") (simp add: fun_upd_idem)
  ultimately show ?case
    by (intro exI [of _ w'] exI [of _ p]) (simp add: sftp_list_loop.simps [of L ftp h pr i names] del: fun_upd_apply)
next
  case (Cons n ns)
  obtain w1 where w1: "sftp_readdir L ftp h w = (Some n, w1)" "view w1 = (view w)\<lparr>v_dds := (v_dds (view w))(h \<mapsto> ns)\<rparr>"
    using assms(1) Cons.prems unfolding dir_ok_def by blast
  obtain p1 where p1: "pr i (sftp_dir_count L h w1) p = (True, p1)" using assms(2) unfolding quiet_def by (metis prod.collapse)
  have "v_dds (view w1) h = Some ns" using w1(2) by simp
  from Cons.IH [OF this, of "i + 1" "names @ [Some n]" p1] w1 p1 show ?case
    by (auto simp: sftp_list_loop.simps [of L ftp h pr i names] simp del: fun_upd_apply)
qed

text \<open>\<^verbatim>\<open>list\<close> on an SFTP server terminates, calls the callback once with every name the directory has, in the order of the server, and does
  not make the last call with the null pointer that the interface documents; a directory that does not exist is an exception.\<close>

theorem ssh_list:
  assumes "sftp_ok L ftp view" and "ssh_mFtp st = Some (Some ftp)" and "quiet pr"
  shows "case v_dirs (view w) (path_append (ssh_mPath st) path) of
       None \<Rightarrow> \<exists>w'. SSHDataStore_list L path pr ((w, st), p) = Some (Inl FileNotFoundException, ((w', st), p)) \<and> view w' = view w
     | Some ns \<Rightarrow> \<exists>w' p'. SSHDataStore_list L path pr ((w, st), p) = Some (Inr (map Some ns), ((w', st), p')) \<and> view w' = view w"
proof -
  note dir = sftp_okD(7) [OF assms(1)]
  let ?q = "path_append (ssh_mPath st) path"
  have opened: "case v_dirs (view w) ?q of None \<Rightarrow> \<exists>w'. sftp_opendir L ftp ?q w = (None, w') \<and> view w' = view w
      | Some ns \<Rightarrow> \<exists>h w'. sftp_opendir L ftp ?q w = (Some h, w') \<and> v_dds (view w) h = None
          \<and> view w' = (view w)\<lparr>v_dds := (v_dds (view w))(h \<mapsto> ns)\<rparr>" using dir unfolding dir_ok_def by blast
  show ?thesis
  proof (cases "v_dirs (view w) ?q")
    case None
    with opened obtain w' where "sftp_opendir L ftp ?q w = (None, w')" "view w' = view w" by auto
    then show ?thesis using None assms(2) by (simp add: SSHDataStore_list_def with_ftp_def)
  next
    case (Some ns)
    with opened obtain h w1 where w1: "sftp_opendir L ftp ?q w = (Some h, w1)" "v_dds (view w) h = None"
      "view w1 = (view w)\<lparr>v_dds := (v_dds (view w))(h \<mapsto> ns)\<rparr>" by auto
    have "v_dds (view w1) h = Some ns" using w1(3) by simp
    from sftp_list_loop_ok [OF dir assms(3) this, of 0 "[]" p] obtain w' p'
      where w': "sftp_list_loop L ftp h pr 0 [] (w1, p) = Some (Inr (map Some ns), (w', p'))"
        "view w' = (view w1)\<lparr>v_dds := (v_dds (view w1))(h \<mapsto> [])\<rparr>" by auto
    have "view (snd (sftp_closedir L h w')) = (view w)\<lparr>v_dds := (v_dds (view w))(h := None)\<rparr>"
      using dir w'(2) w1(3) unfolding dir_ok_def by simp
    also have "\<dots> = view w" using w1(2) by (cases "view w") (simp add: fun_upd_idem)
    finally show ?thesis using Some assms(2) w1(1) w'(1) by (simp add: SSHDataStore_list_def with_ftp_def)
  qed
qed

section \<open>The connection\<close>

text \<open>A call that is repeated ends when it stops answering \<open>again\<close>.\<close>

inductive answers :: "('w \<Rightarrow> 'a \<times> 'w) \<Rightarrow> 'a \<Rightarrow> 'w \<Rightarrow> 'a \<Rightarrow> 'w \<Rightarrow> bool" for f again where
  answer: "f w = (a, w') \<Longrightarrow> a \<noteq> again \<Longrightarrow> answers f again w a w'"
| retry: "f w = (again, w') \<Longrightarrow> answers f again w' a w'' \<Longrightarrow> answers f again w a w''"

inductive_simps answers_iff: "answers f again w a w''"

lemma answers_again_io: "answers f again w a w' \<Longrightarrow> again_io f again w = Some (Inr a, w') \<and> a \<noteq> again"
  by (induction rule: answers.induct) (simp_all add: again_io.simps [of f again])

lemma again_io_answers: "again_io f again w = Some y \<Longrightarrow> \<exists>a. fst y = Inr a \<and> answers f again w a (snd y)"
  by (erule again_io.raw_induct [rotated]) (fastforce split: prod.splits if_splits intro: answers.intros)

lemma again_io_iff: "again_io f again w = Some (r, w') \<longleftrightarrow> (\<exists>a. r = Inr a \<and> answers f again w a w')"
  using again_io_answers [of f again w "(r, w')"] answers_again_io [of f again w _ w'] by auto

text \<open>The state of the host key under which \<^verbatim>\<open>connect\<close> goes on.\<close>

definition host_accepted :: "'w libssh \<Rightarrow> handle \<Rightarrow> 'w Authentication \<Rightarrow> bytes \<Rightarrow> ssh_known \<Rightarrow> 'w \<Rightarrow> 'w \<Rightarrow> bool" where
  "host_accepted L s auth hash state w w' \<longleftrightarrow>
     state = SSH_SERVER_KNOWN_OK \<and> w' = w
     \<or> state \<in> {SSH_SERVER_NOT_KNOWN, SSH_SERVER_FILE_NOT_FOUND}
       \<and> (\<exists>accept w1. acceptHostKey auth = Some accept \<and> accept hash (int (length hash)) w = (True, w1) \<and> ssh_write_knownhost L s w1 = (True, w'))"

lemma check_host_key_accepts: "check_host_key L s auth hash state w = Some (Inr (), w') \<longleftrightarrow> host_accepted L s auth hash state w w'"
  by (cases state) (auto simp: check_host_key_def host_accepted_def bind_io_def call_io_def guard_io_def
      split: option.splits prod.splits if_splits)

lemma check_host_key_auth: "check_host_key L s (auth\<lparr>authenticate := a\<rparr>) hash state = check_host_key L s auth hash state"
  by (simp add: check_host_key_def)

lemma open_session_auth [simp]: "open_session L s hostname port (auth\<lparr>authenticate := a\<rparr>) = open_session L s hostname port auth"
  unfolding open_session_def check_host_key_auth by (rule refl)

definition options_set :: "'w libssh \<Rightarrow> handle \<Rightarrow> string \<Rightarrow> int \<Rightarrow> 'w \<Rightarrow> 'w" where
  "options_set L s hostname port w = snd (ssh_options_set_port L s port (snd (ssh_options_set_host L s hostname w)))"

lemma open_session_None:
  assumes "\<nexists>a w1. answers (ssh_connect L s) SSH_AGAIN (options_set L s hostname port w) a w1"
  shows "open_session L s hostname port auth w = None"
proof -
  have "again_io (ssh_connect L s) SSH_AGAIN (options_set L s hostname port w) = None"
    using assms again_io_iff [of "ssh_connect L s" SSH_AGAIN] by (metis not_None_eq prod.collapse)
  then show ?thesis by (simp add: open_session_def bind_call_io options_set_def)
qed

lemma open_session_run:
  assumes "answers (ssh_connect L s) SSH_AGAIN (options_set L s hostname port w) a w1"
  shows "open_session L s hostname port auth w =
     (if a \<noteq> SSH_OK then Some (Inl ConnectionException, w1)
      else (case ssh_is_server_known L s w1 of (state, w2) \<Rightarrow> (case ssh_get_pubkey_hash L s w2 of
          (None, w3) \<Rightarrow> Some (Inl ConnectionException, w3)
        | (Some hash, w3) \<Rightarrow> check_host_key L s auth hash state w3)))"
  using answers_again_io [OF assms]
  by (simp add: open_session_def bind_call_io options_set_def split: prod.splits option.splits)

lemma open_session_iff:
  "open_session L s hostname port auth w = Some (Inr (), w') \<longleftrightarrow>
     (\<exists>w1 state w2 hash w3. answers (ssh_connect L s) SSH_AGAIN (options_set L s hostname port w) SSH_OK w1
        \<and> ssh_is_server_known L s w1 = (state, w2) \<and> ssh_get_pubkey_hash L s w2 = (Some hash, w3) \<and> host_accepted L s auth hash state w3 w')"
  (is "?l \<longleftrightarrow> ?r")
proof (cases "\<exists>a w1. answers (ssh_connect L s) SSH_AGAIN (options_set L s hostname port w) a w1")
  case True
  then obtain a w1 where a: "answers (ssh_connect L s) SSH_AGAIN (options_set L s hostname port w) a w1" by blast
  then have unique: "answers (ssh_connect L s) SSH_AGAIN (options_set L s hostname port w) b v \<longleftrightarrow> b = a \<and> v = w1" for b v
    using answers_again_io by (metis Inr_inject option.inject prod.inject)
  show ?thesis unfolding unique open_session_run [OF a]
    by (simp add: check_host_key_accepts split: prod.splits option.splits)
next
  case False
  then show ?thesis using open_session_None [OF False] by auto
qed

lemma connect_open:
  assumes "open_session L (ssh_mSession st) hostname port auth w = r"
  shows "SSHDataStore_connect L hostname port username auth (w, st) =
     (case r of None \<Rightarrow> None | Some (Inl e, w') \<Rightarrow> Some (Inl e, (w', st))
      | Some (Inr _, w') \<Rightarrow> (case authenticate auth w' of
          None \<Rightarrow> None
        | Some (Inl e, w2) \<Rightarrow> Some (Inl e, (w2, st))
        | Some (Inr False, w2) \<Rightarrow> Some (Inr False, (w2, st))
        | Some (Inr True, w2) \<Rightarrow> (case sftp_new L (ssh_mSession st) w2 of (ftp, w3) \<Rightarrow>
            Some (if ftp = None then Inl ConnectionException else Inr True, (w3, st\<lparr>ssh_mFtp := Some ftp\<rparr>)))))"
  using assms by (auto simp: SSHDataStore_connect_def seq_io_def bind_io_def split: option.splits sum.splits prod.splits bool.splits)

text \<open>C31. The credentials are only used once the server is trusted: when the outcome of \<^verbatim>\<open>connect\<close> depends on what \<^verbatim>\<open>authenticate\<close> does, the
  connection was made, and the server's host key was known, or it was unknown, the user accepted it and it was recorded. In every other
  case \<^verbatim>\<open>connect\<close> does the same with any authentication, so that no password leaves the program.\<close>

theorem ssh_credentials_need_host_key:
  assumes "SSHDataStore_connect L hostname port username auth (w, st) \<noteq>
     SSHDataStore_connect L hostname port username (auth\<lparr>authenticate := other\<rparr>) (w, st)"
  shows "\<exists>w1 state w2 hash w3 w4. answers (ssh_connect L (ssh_mSession st)) SSH_AGAIN (options_set L (ssh_mSession st) hostname port w) SSH_OK w1
     \<and> ssh_is_server_known L (ssh_mSession st) w1 = (state, w2) \<and> ssh_get_pubkey_hash L (ssh_mSession st) w2 = (Some hash, w3)
     \<and> host_accepted L (ssh_mSession st) auth hash state w3 w4"
proof -
  let ?o = "open_session L (ssh_mSession st) hostname port auth w"
  have "\<exists>w'. ?o = Some (Inr (), w')"
  proof (rule ccontr)
    assume "\<nexists>w'. ?o = Some (Inr (), w')"
    then consider "?o = None" | e w' where "?o = Some (Inl e, w')" by (cases ?o) (auto, metis old.unit.exhaust sum.exhaust)
    then show False using assms by cases (simp_all add: connect_open [where auth = auth] connect_open [where auth = "auth\<lparr>authenticate := other\<rparr>"])
  qed
  then show ?thesis using open_session_iff [of L "ssh_mSession st" hostname port auth w] by blast
qed


section \<open>A server\<close>

text \<open>A server in memory that answers every read with at most three bytes and asks for some calls to be repeated, for the examples.\<close>

record mem_server =
  ms_files :: "(string \<times> bytes) list"
  ms_dirs :: "(string \<times> string list) list"
  ms_fds :: "(string \<times> nat) option list"
  ms_dds :: "string list option list"
  ms_again :: nat
  ms_known :: ssh_known

definition look :: "'a option list \<Rightarrow> handle \<Rightarrow> 'a option" where
  "look xs h = (if h < length xs then xs ! h else None)"

lemma look_simps [simp]: "look (xs @ [x]) = (look xs)(length xs := x)" "h < length xs \<Longrightarrow> look (xs[h := x]) = (look xs)(h := x)"
  by (auto simp: look_def nth_append less_Suc_eq)

lemma look_less: "look xs h = Some x \<Longrightarrow> h < length xs"
  by (simp add: look_def split: if_splits)

definition mem_view :: "mem_server \<Rightarrow> sftp_view" where
  "mem_view m = \<lparr>v_files = map_of (ms_files m), v_dirs = map_of (ms_dirs m), v_fds = look (ms_fds m), v_dds = look (ms_dds m)\<rparr>"

definition mem_read :: "handle \<Rightarrow> nat \<Rightarrow> mem_server \<Rightarrow> bytes option \<times> mem_server" where
  "mem_read h n m = (case look (ms_fds m) h of
       None \<Rightarrow> (None, m)
     | Some (q, pos) \<Rightarrow>
         (case map_of (ms_files m) q of
            None \<Rightarrow> (None, m)
          | Some d \<Rightarrow> let bs = take (min n 3) (drop pos d) in (Some bs, m\<lparr>ms_fds := (ms_fds m)[h := Some (q, pos + length bs)]\<rparr>)))"

definition mem_write :: "handle \<Rightarrow> bytes \<Rightarrow> mem_server \<Rightarrow> int \<times> mem_server" where
  "mem_write h bs m = (case look (ms_fds m) h of
       None \<Rightarrow> (-1, m)
     | Some (q, pos) \<Rightarrow>
         (case map_of (ms_files m) q of
            None \<Rightarrow> (-1, m)
          | Some d \<Rightarrow> (int (length bs), m\<lparr>ms_files := (q, take pos d @ bs @ drop (pos + length bs) d) # ms_files m,
                                        ms_fds := (ms_fds m)[h := Some (q, pos + length bs)]\<rparr>)))"

definition mem_readdir :: "handle \<Rightarrow> mem_server \<Rightarrow> string option \<times> mem_server" where
  "mem_readdir h m = (case look (ms_dds m) h of
       Some (n # ns) \<Rightarrow> (Some n, m\<lparr>ms_dds := (ms_dds m)[h := Some ns]\<rparr>)
     | _ \<Rightarrow> (None, m))"

definition mem_connect :: "'a \<Rightarrow> 'a \<Rightarrow> mem_server \<Rightarrow> 'a \<times> mem_server" where
  "mem_connect again good m = (if ms_again m = 0 then (good, m) else (again, m\<lparr>ms_again := ms_again m - 1\<rparr>))"

definition mem_close :: "'a option list \<Rightarrow> handle \<Rightarrow> 'a option list" where
  "mem_close xs h = (if h < length xs then xs[h := None] else xs)"

lemma look_close [simp]: "look (mem_close xs h) = (look xs)(h := None)"
  by (auto simp: mem_close_def look_def)

definition mem_ssh :: "mem_server libssh" where
  "mem_ssh =
     \<lparr>ssh_new = (\<lambda>m. (Some 0, m)), ssh_options_set_host = (\<lambda>s h m. ((), m)), ssh_options_set_port = (\<lambda>s p m. ((), m)),
      ssh_connect = (\<lambda>s. mem_connect SSH_AGAIN SSH_OK), ssh_is_server_known = (\<lambda>s m. (ms_known m, m)),
      ssh_get_pubkey_hash = (\<lambda>s m. (Some [1, 2, 3], m)), ssh_write_knownhost = (\<lambda>s m. (True, m\<lparr>ms_known := SSH_SERVER_KNOWN_OK\<rparr>)),
      ssh_userauth_password = (\<lambda>s u pw. mem_connect SSH_AUTH_AGAIN (if pw = ''pw'' then SSH_AUTH_SUCCESS else SSH_AUTH_DENIED)),
      ssh_pki_import_privkey_file = (\<lambda>f pw m. (Some 0, m)), ssh_userauth_publickey = (\<lambda>s u k m. (SSH_AUTH_SUCCESS, m)),
      ssh_key_free = (\<lambda>k m. ((), m)), ssh_disconnect = (\<lambda>s m. ((), m)), ssh_free = (\<lambda>s m. ((), m)),
      sftp_new = (\<lambda>s m. (Some 0, m)), sftp_free = (\<lambda>f m. ((), m)),
      sftp_lstat = (\<lambda>f q m. (map_of (ms_files m) q \<noteq> None \<or> map_of (ms_dirs m) q \<noteq> None, m)),
      sftp_open = (\<lambda>f q fl md m. if map_of (ms_files m) q = None then (None, m)
                     else (Some (length (ms_fds m)), m\<lparr>ms_fds := ms_fds m @ [Some (q, 0)]\<rparr>)),
      sftp_read = mem_read, sftp_write = mem_write, sftp_close = (\<lambda>h m. ((), m\<lparr>ms_fds := mem_close (ms_fds m) h\<rparr>)),
      sftp_opendir = (\<lambda>f q m. case map_of (ms_dirs m) q of None \<Rightarrow> (None, m)
                        | Some ns \<Rightarrow> (Some (length (ms_dds m)), m\<lparr>ms_dds := ms_dds m @ [Some ns]\<rparr>)),
      sftp_readdir = (\<lambda>f. mem_readdir), sftp_dir_count = (\<lambda>h m. -1),
      sftp_closedir = (\<lambda>h m. ((), m\<lparr>ms_dds := mem_close (ms_dds m) h\<rparr>)),
      sftp_unlink = (\<lambda>f q m. (if map_of (ms_files m) q = None then -1 else 0, m\<lparr>ms_files := filter (\<lambda>e. fst e \<noteq> q) (ms_files m)\<rparr>))\<rparr>"

lemma mem_ssh_files:
  "lstat_ok mem_ssh ftp mem_view" "open_ok mem_ssh ftp mem_view" "close_ok mem_ssh mem_view" "unlink_ok mem_ssh ftp mem_view"
proof -
  have del: "map_of (filter (\<lambda>e. fst e \<noteq> q) xs) = (map_of xs)(q := None)" for q and xs :: "(string \<times> bytes) list"
    by (induction xs) auto
  show "lstat_ok mem_ssh ftp mem_view" "open_ok mem_ssh ftp mem_view" "close_ok mem_ssh mem_view" "unlink_ok mem_ssh ftp mem_view"
    by (auto simp: lstat_ok_def open_ok_def close_ok_def unlink_ok_def mem_ssh_def mem_view_def del look_def split: if_splits)
qed

lemma mem_ssh_data: "read_ok mem_ssh mem_view" "write_ok mem_ssh mem_view"
proof -
  show "read_ok mem_ssh mem_view" unfolding read_ok_def
  proof (intro allI impI)
    fix h n :: nat and m :: mem_server and q :: string and pos :: nat and d :: bytes
    assume a: "v_fds (mem_view m) h = Some (q, pos) \<and> v_files (mem_view m) q = Some d \<and> 0 < n"
    then have "h < length (ms_fds m)" using look_less by (auto simp: mem_view_def)
    with a show "\<exists>k w'. sftp_read mem_ssh h n m = (Some (take k (drop pos d)), w') \<and> 0 < k \<and> k \<le> n
        \<and> mem_view w' = (mem_view m)\<lparr>v_fds := (v_fds (mem_view m))(h \<mapsto> (q, pos + length (take k (drop pos d))))\<rparr>"
      by (intro exI [of _ "min n 3"]) (simp add: mem_ssh_def mem_read_def mem_view_def Let_def)
  qed
  show "write_ok mem_ssh mem_view"
    using look_less by (fastforce simp: write_ok_def mem_ssh_def mem_write_def mem_view_def)
qed

lemma mem_ssh_dirs: "dir_ok mem_ssh ftp mem_view"
  unfolding dir_ok_def
proof (intro conjI allI impI)
  fix h :: handle and m :: mem_server and n :: string and ns :: "string list"
  assume a: "v_dds (mem_view m) h = Some (n # ns)"
  then have "h < length (ms_dds m)" using look_less by (auto simp: mem_view_def)
  with a show "\<exists>w'. sftp_readdir mem_ssh ftp h m = (Some n, w') \<and> mem_view w' = (mem_view m)\<lparr>v_dds := (v_dds (mem_view m))(h \<mapsto> ns)\<rparr>"
    by (simp add: mem_ssh_def mem_readdir_def mem_view_def)
qed (auto simp: mem_ssh_def mem_readdir_def mem_view_def look_def split: option.splits)

lemma mem_ssh_ok: "sftp_ok mem_ssh ftp mem_view"
  by (simp add: sftp_ok_def mem_ssh_files mem_ssh_data mem_ssh_dirs)

definition sample_server :: mem_server where
  "sample_server = \<lparr>ms_files = [(''/s/key'', [1, 2, 3, 4, 5])], ms_dirs = [(''/s/snapshot'', [''.'', ''..'', ''monday''])], ms_fds = [], ms_dds = [],
     ms_again = 2, ms_known = SSH_SERVER_NOT_KNOWN\<rparr>"

definition sample_ssh :: SSHDataStore where
  "sample_ssh = \<lparr>ssh_mPath = ''/s'', ssh_mSession = 0, ssh_mFtp = Some (Some 0)\<rparr>"

abbreviation sample_stream :: "bytes \<Rightarrow> any_in" where
  "sample_stream bs \<equiv> BaseIn (MemIn (MemoryInputStream_new bs))"

lemma sample_ssh_facts:
  "ssh_mFtp sample_ssh = Some (Some 0)" "v_dirs (mem_view sample_server) (path_append (ssh_mPath sample_ssh) ''/key'') = None"
  "ssh_object mem_view (sample_server, sample_ssh) ''/key'' = Some [1, 2, 3, 4, 5]"
  by (simp_all add: sample_ssh_def sample_server_def mem_view_def ssh_object_def path_append_def is_sep_def)



theorem ssh_list_witness:
  "\<exists>w' p'. SSHDataStore_list mem_ssh ''/snapshot'' DefaultProgressFunction ((sample_server, sample_ssh), ())
     = Some (Inr [Some ''.'', Some ''..'', Some ''monday''], ((w', sample_ssh), p'))"
proof -
  have d: "v_dirs (mem_view sample_server) (path_append (ssh_mPath sample_ssh) ''/snapshot'') = Some [''.'', ''..'', ''monday'']"
    by (simp add: sample_ssh_def sample_server_def mem_view_def path_append_def is_sep_def)
  from ssh_list [OF mem_ssh_ok sample_ssh_facts(1) quiet_default, of "''/snapshot''" sample_server "()"]
  show ?thesis unfolding d by auto
qed

text \<open>A user who accepts only the host key of the server above.\<close>

definition sample_accept :: "bytes \<Rightarrow> int \<Rightarrow> mem_server \<Rightarrow> bool \<times> mem_server" where
  "sample_accept hash n m = (hash = [1, 2, 3] \<and> n = 3, m)"

definition sample_login :: "string \<Rightarrow> mem_server Authentication" where
  "sample_login pw = (PasswordAuthentication mem_ssh 0 ''me'' pw)\<lparr>acceptHostKey := Some sample_accept\<rparr>"

lemma mem_connect_answers: "answers (mem_connect again good) again m good (m\<lparr>ms_again := 0\<rparr>)" if "again \<noteq> good"
proof (induction "ms_again m" arbitrary: m)
  case 0
  then have "m\<lparr>ms_again := 0\<rparr> = m" by simp
  with 0 that show ?case by (intro answers.answer) (simp_all add: mem_connect_def)
next
  case (Suc n)
  have later: "answers (mem_connect again good) again (m\<lparr>ms_again := n\<rparr>) good (m\<lparr>ms_again := 0\<rparr>)" using Suc(1) [of "m\<lparr>ms_again := n\<rparr>"] by simp
  have "mem_connect again good m = (again, m\<lparr>ms_again := n\<rparr>)" using Suc(2) [symmetric] by (simp add: mem_connect_def)
  then show ?case using later by (rule answers.retry)
qed

lemma sample_open:
  "open_session mem_ssh 0 ''h'' 22 (sample_login pw) sample_server = Some (Inr (), sample_server\<lparr>ms_again := 0, ms_known := SSH_SERVER_KNOWN_OK\<rparr>)"
proof -
  have "answers (ssh_connect mem_ssh 0) SSH_AGAIN (options_set mem_ssh 0 ''h'' 22 sample_server) SSH_OK (sample_server\<lparr>ms_again := 0\<rparr>)"
    using mem_connect_answers [of SSH_AGAIN SSH_OK sample_server] by (simp add: mem_ssh_def options_set_def)
  from open_session_run [OF this, of "sample_login pw"] show ?thesis
    by (simp add: mem_ssh_def check_host_key_def sample_login_def sample_accept_def sample_server_def bind_call_io)
qed

theorem ssh_credentials_need_host_key_witness:
  "\<exists>w1 state w2 hash w3 w4. answers (ssh_connect mem_ssh 0) SSH_AGAIN (options_set mem_ssh 0 ''h'' 22 sample_server) SSH_OK w1
     \<and> ssh_is_server_known mem_ssh 0 w1 = (state, w2) \<and> ssh_get_pubkey_hash mem_ssh 0 w2 = (Some hash, w3)
     \<and> host_accepted mem_ssh 0 (sample_login ''pw'') hash state w3 w4"
proof -
  let ?a = "sample_login ''pw''" and ?b = "(sample_login ''pw'')\<lparr>authenticate := throw_io ConnectionException\<rparr>"
  have s: "ssh_mSession sample_ssh = 0" by (simp add: sample_ssh_def)
  have a: "open_session mem_ssh (ssh_mSession sample_ssh) ''h'' 22 ?a sample_server = Some (Inr (), sample_server\<lparr>ms_again := 0, ms_known := SSH_SERVER_KNOWN_OK\<rparr>)"
    and b: "open_session mem_ssh (ssh_mSession sample_ssh) ''h'' 22 ?b sample_server = Some (Inr (), sample_server\<lparr>ms_again := 0, ms_known := SSH_SERVER_KNOWN_OK\<rparr>)"
    using sample_open by (simp_all add: s)
  have good: "authenticate ?a v = Some (Inr True, v\<lparr>ms_again := 0\<rparr>)" for v
    using answers_again_io [OF mem_connect_answers [of SSH_AUTH_AGAIN SSH_AUTH_SUCCESS v]]
    by (simp add: sample_login_def PasswordAuthentication_def PasswordAuthentication_authenticate_def mem_ssh_def)
  have "SSHDataStore_connect mem_ssh ''h'' 22 ''me'' ?a (sample_server, sample_ssh) \<noteq> SSHDataStore_connect mem_ssh ''h'' 22 ''me'' ?b (sample_server, sample_ssh)"
    unfolding connect_open [OF a] connect_open [OF b] by (simp add: good mem_ssh_def)
  from ssh_credentials_need_host_key [OF this] show ?thesis unfolding s .
qed


text \<open>A failing read is taken for the end of the file: \<^verbatim>\<open>get\<close> returns normally, although nothing was read.\<close>

theorem ssh_get_ignores_read_errors:
  assumes "ssh_mFtp st = Some (Some ftp)" and "sftp_open L ftp (path_append (ssh_mPath st) path) O_RDONLY 0 w = (Some fp, w1)"
    and "sftp_read L fp 8192 w1 = (None, w2)"
  shows "SSHDataStore_get L path pr ((w, st), p, t) = Some (Inr (), ((snd (sftp_close L fp w2), st), p, t))"
  using assms by (simp add: SSHDataStore_get_def with_ftp_def sftp_read_io_def read_each.simps [of "sftp_read_io L fp"])

end
