(* ===== verification/Zeroed_Memory.thy ===== *)
theory Zeroed_Memory
  imports Repository_Keys
begin

text \<open>
  The memory that is wiped before it is given back: \<^verbatim>\<open>ZeroedAllocator.h\<close>, \<^verbatim>\<open>ZeroedArray.h\<close>, and the life of the key buffers of \<^verbatim>\<open>Repository\<close> and of the members of
  \<^verbatim>\<open>RollingHash\<close>. The rest of the development works on values; here they have addresses, and what a block of memory holds when it is given back is recorded, since whoever gets the
  memory next can read it.
\<close>

section \<open>Memory\<close>

text \<open>Live blocks by their address, where 0 is the null pointer; the address of the next block; which allocations fail; what new memory holds; and the contents of
  the blocks that were given back.\<close>

record heap =
  h_blocks :: "nat \<rightharpoonup> bytes"
  h_next :: nat
  h_fails :: "nat \<Rightarrow> bool"
  h_junk :: "nat \<Rightarrow> nat \<Rightarrow> byte"
  h_released :: "bytes list"

definition heap_ok :: "heap \<Rightarrow> bool" where
  "heap_ok h \<longleftrightarrow> 0 < h_next h \<and> (\<forall>p \<in> dom (h_blocks h). 0 < p \<and> p < h_next h)"

definition new_block :: "nat \<Rightarrow> heap \<Rightarrow> heap" where
  "new_block n h = h\<lparr>h_blocks := (h_blocks h)(h_next h \<mapsto> map (h_junk h (h_next h)) [0..<n]), h_next := Suc (h_next h)\<rparr>"

definition malloc :: "nat \<Rightarrow> (heap, nat) io" where
  "malloc n = (\<lambda>h. if h_fails h (h_next h) then Some (Inr 0, h\<lparr>h_next := Suc (h_next h)\<rparr>) else Some (Inr (h_next h), new_block n h))"

definition operator_new :: "nat \<Rightarrow> (heap, nat) io" where
  "operator_new n = bind_io (malloc n) (\<lambda>p. if p = 0 then throw_io BadAlloc else return_io p)"

definition release_block :: "nat \<Rightarrow> (heap, unit) io" where
  "release_block p = (\<lambda>h. case h_blocks h p of
       None \<Rightarrow> Some (Inl UndefinedBehaviour, h)
     | Some c \<Rightarrow> Some (Inr (), h\<lparr>h_blocks := (h_blocks h)(p := None), h_released := h_released h @ [c]\<rparr>))"

text \<open>\<^verbatim>\<open>free\<close> and \<^verbatim>\<open>operator delete\<close> accept the null pointer.\<close>

definition free_block :: "nat \<Rightarrow> (heap, unit) io" where
  "free_block p = (if p = 0 then return_io () else release_block p)"

definition explicit_bzero :: "nat \<Rightarrow> nat \<Rightarrow> (heap, unit) io" where
  "explicit_bzero p n = (\<lambda>h. case h_blocks h p of
       None \<Rightarrow> Some (Inl UndefinedBehaviour, h)
     | Some c \<Rightarrow> if n \<le> length c then Some (Inr (), h\<lparr>h_blocks := (h_blocks h)(p \<mapsto> replicate n 0 @ drop n c)\<rparr>)
                 else Some (Inl UndefinedBehaviour, h))"

section \<open>The classes\<close>

text \<open>\<open>sz\<close> is the size of an element; the product of the two sizes wraps around.\<close>

definition ZeroedAllocator_allocate :: "u64 \<Rightarrow> u64 \<Rightarrow> (heap, nat) io" where
  "ZeroedAllocator_allocate sz n = operator_new (unat (n * sz))"

definition ZeroedAllocator_deallocate :: "u64 \<Rightarrow> nat \<Rightarrow> u64 \<Rightarrow> (heap, unit) io" where
  "ZeroedAllocator_deallocate sz p n = seq_io (explicit_bzero p (unat (n * sz))) (free_block p)"

text \<open>The destructor takes the number of elements for the number of bytes.\<close>

definition ZeroedArray_destroy :: "nat \<Rightarrow> nat \<Rightarrow> (heap, unit) io" where
  "ZeroedArray_destroy k p = explicit_bzero p k"

text \<open>Where the members of the two classes are that hold secrets.\<close>

record Repository_mem =
  at_encKey :: nat
  at_macKey :: nat
  at_hashKey :: nat
  at_rollKey :: nat

definition Repository_construct :: "(heap, Repository_mem) io" where
  "Repository_construct =
     bind_io (malloc EVP_MAX_KEY_LENGTH) (\<lambda>enc.
     bind_io (malloc EVP_MAX_KEY_LENGTH) (\<lambda>mac.
     bind_io (malloc EVP_MAX_KEY_LENGTH) (\<lambda>hash.
     bind_io (malloc EVP_MAX_KEY_LENGTH) (\<lambda>roll.
     return_io \<lparr>at_encKey = enc, at_macKey = mac, at_hashKey = hash, at_rollKey = roll\<rparr>))))"

definition Repository_destroy :: "Repository_mem \<Rightarrow> (heap, unit) io" where
  "Repository_destroy P =
     seq_io (explicit_bzero (at_encKey P) EVP_MAX_KEY_LENGTH)
    (seq_io (explicit_bzero (at_macKey P) EVP_MAX_KEY_LENGTH)
    (seq_io (explicit_bzero (at_hashKey P) EVP_MAX_KEY_LENGTH)
    (seq_io (explicit_bzero (at_rollKey P) EVP_MAX_KEY_LENGTH)
    (seq_io (free_block (at_macKey P))
    (seq_io (free_block (at_encKey P))
    (seq_io (free_block (at_hashKey P)) (free_block (at_rollKey P))))))))"

text \<open>The body of the destructor is empty; the members are destroyed, the last one first, and then the storage of the object is given back. The window is an
  ordinary vector.\<close>

record RollingHash_mem =
  at_window :: nat
  at_key :: nat
  at_subTable :: nat

definition RollingHash_destroy :: "RollingHash_mem \<Rightarrow> (heap, unit) io" where
  "RollingHash_destroy P =
     seq_io (ZeroedArray_destroy 256 (at_subTable P))
    (seq_io (ZeroedArray_destroy 32 (at_key P))
    (seq_io (free_block (at_window P))
    (seq_io (release_block (at_key P)) (release_block (at_subTable P)))))"

section \<open>A contract of wiping\<close>

text \<open>Giving back a block of \<open>k\<close> bytes so that it holds zeros only and nothing else changes.\<close>

definition wiped :: "nat \<Rightarrow> nat list \<Rightarrow> heap \<Rightarrow> heap" where
  "wiped k ps h = h\<lparr>h_blocks := h_blocks h |` (- set ps), h_released := h_released h @ replicate (length ps) (replicate k 0)\<rparr>"

definition block_at :: "heap \<Rightarrow> nat \<Rightarrow> nat \<Rightarrow> bool" where
  "block_at h k p \<longleftrightarrow> p \<noteq> 0 \<and> (\<exists>c. h_blocks h p = Some c \<and> length c = k)"

locale wiping_release =
  fixes k :: nat and release :: "nat \<Rightarrow> (heap, unit) io"
  assumes release_law: "block_at h k p \<Longrightarrow> release p h = Some (Inr (), wiped k [p] h)"
begin

lemma release_all: "\<lbrakk>distinct ps; \<And>p. p \<in> set ps \<Longrightarrow> block_at h k p\<rbrakk> \<Longrightarrow> feed release ps h = Some (Inr (), wiped k ps h)"
proof (induction ps arbitrary: h)
  case (Cons p ps)
  have "block_at (wiped k [p] h) k q" if "q \<in> set ps" for q
    using Cons.prems(2) [of q] Cons.prems(1) that by (auto simp: block_at_def wiped_def restrict_map_def)
  moreover have "- {p} \<inter> - set ps = - insert p (set ps)" by blast
  then have "wiped k ps (wiped k [p] h) = wiped k (p # ps) h" by (simp add: wiped_def)
  ultimately show ?case using release_law [OF Cons.prems(2), of p] Cons.IH [of "wiped k [p] h"] Cons.prems(1) by simp
qed (simp add: wiped_def restrict_map_def)

end

lemma free_block_at: "block_at h n p \<Longrightarrow> free_block p = release_block p"
  by (simp add: free_block_def block_at_def)

lemma explicit_bzero_Some: "h_blocks h p = Some c \<Longrightarrow> length c = n \<Longrightarrow> explicit_bzero p n h = Some (Inr (), h\<lparr>h_blocks := (h_blocks h)(p \<mapsto> replicate n 0)\<rparr>)"
  by (simp add: explicit_bzero_def)

lemma free_block_Some:
  "h_blocks h p = Some c \<Longrightarrow> p \<noteq> 0 \<Longrightarrow> free_block p h = Some (Inr (), h\<lparr>h_blocks := (h_blocks h)(p := None), h_released := h_released h @ [c]\<rparr>)"
  by (simp add: free_block_def release_block_def)

lemma wipe_release_law: "block_at h n p \<Longrightarrow> seq_io (explicit_bzero p n) (release_block p) h = Some (Inr (), wiped n [p] h)"
  by (auto simp: block_at_def explicit_bzero_Some release_block_def wiped_def fun_eq_iff restrict_map_def)

interpretation zeroed_allocator: wiping_release "unat (n * sz)" "\<lambda>p. ZeroedAllocator_deallocate sz p n" for n sz
  by unfold_locales (simp add: ZeroedAllocator_deallocate_def free_block_at wipe_release_law)

text \<open>An array of bytes is wiped whole.\<close>

interpretation zeroed_bytes: wiping_release k "\<lambda>p. seq_io (ZeroedArray_destroy k p) (release_block p)" for k
  by unfold_locales (simp add: ZeroedArray_destroy_def wipe_release_law)

section \<open>The keys of a repository\<close>

definition keys_at :: "Repository_mem \<Rightarrow> Repository \<Rightarrow> heap \<Rightarrow> bool" where
  "keys_at P R h \<longleftrightarrow> h_blocks h (at_encKey P) = Some (mEncKey R) \<and> h_blocks h (at_macKey P) = Some (mMacKey R)
     \<and> h_blocks h (at_hashKey P) = Some (mHashKey R) \<and> h_blocks h (at_rollKey P) = Some (mRollKey R)"

definition key_blocks :: "Repository_mem \<Rightarrow> nat list" where
  "key_blocks P = [at_macKey P, at_encKey P, at_hashKey P, at_rollKey P]"

lemma malloc_ok: "\<not> h_fails h (h_next h) \<Longrightarrow> malloc n h = Some (Inr (h_next h), new_block n h)"
  by (simp add: malloc_def)

lemma new_block_ok: "heap_ok h \<Longrightarrow> heap_ok (new_block n h)" and new_block_le: "heap_ok h \<Longrightarrow> h_blocks h \<subseteq>\<^sub>m h_blocks (new_block n h)"
  by (auto simp: heap_ok_def new_block_def map_le_def less_Suc_eq)

lemma new_block_sel [simp]: "h_next (new_block n h) = Suc (h_next h)" "h_fails (new_block n h) = h_fails h" "h_released (new_block n h) = h_released h"
  by (simp_all add: new_block_def)

lemma Repository_construct_ok:
  assumes "heap_ok h" and "\<forall>i < 4. \<not> h_fails h (h_next h + i)"
  shows "\<exists>P h1. Repository_construct h = Some (Inr P, h1) \<and> heap_ok h1 \<and> h_blocks h \<subseteq>\<^sub>m h_blocks h1 \<and> h_released h1 = h_released h
     \<and> distinct (key_blocks P) \<and> 0 \<notin> set (key_blocks P) \<and> set (key_blocks P) \<inter> dom (h_blocks h) = {}"
proof -
  let ?n = "new_block EVP_MAX_KEY_LENGTH" and ?a = "h_next h"
  have f: "\<not> h_fails h ?a" "\<not> h_fails h (Suc ?a)" "\<not> h_fails h (Suc (Suc ?a))" "\<not> h_fails h (Suc (Suc (Suc ?a)))"
    using assms(2) [rule_format, of 0] assms(2) [rule_format, of 1] assms(2) [rule_format, of 2] assms(2) [rule_format, of 3] by (simp_all add: numeral_eq_Suc)
  have ok: "heap_ok (?n h)" "heap_ok (?n (?n h))" "heap_ok (?n (?n (?n h)))" "heap_ok (?n (?n (?n (?n h))))"
    using assms(1) by (simp_all add: new_block_ok)
  have le: "h_blocks h \<subseteq>\<^sub>m h_blocks (?n (?n (?n (?n h))))" by (meson new_block_le assms(1) ok map_le_trans)
  have "?a \<noteq> 0" using assms(1) by (simp add: heap_ok_def)
  have fresh: "h_blocks h q = None" if "?a \<le> q" for q 
  proof (rule ccontr)
    assume "h_blocks h q \<noteq> None"
    then have "q < ?a" using assms(1) by (simp add: heap_ok_def domIff)
    with that show False by simp
  qed
  let ?P = "\<lparr>at_encKey = ?a, at_macKey = Suc ?a, at_hashKey = Suc (Suc ?a), at_rollKey = Suc (Suc (Suc ?a))\<rparr>"
  have "Repository_construct h = Some (Inr ?P, ?n (?n (?n (?n h))))" using f by (simp add: Repository_construct_def malloc_ok)
  moreover have "set (key_blocks ?P) \<inter> dom (h_blocks h) = {}" by (simp add: key_blocks_def domIff fresh)
  moreover have "distinct (key_blocks ?P)" "0 \<notin> set (key_blocks ?P)" using \<open>?a \<noteq> 0\<close> by (simp_all add: key_blocks_def)
  ultimately show ?thesis using le ok(4) by (intro exI [of _ ?P] exI [of _ "?n (?n (?n (?n h)))"]) simp
qed

lemma Repository_destroy_ok:
  assumes "keys_at P R h" and "keys_ok R" and "distinct (key_blocks P)" and "0 \<notin> set (key_blocks P)"
  shows "Repository_destroy P h = Some (Inr (), wiped 64 (key_blocks P) h)"
proof -
  let ?e = "at_encKey P" and ?m = "at_macKey P" and ?h = "at_hashKey P" and ?r = "at_rollKey P" and ?z = "replicate 64 (0 :: byte)"
  have d: "?m \<noteq> ?e" "?m \<noteq> ?h" "?m \<noteq> ?r" "?e \<noteq> ?h" "?e \<noteq> ?r" "?h \<noteq> ?r" "?e \<noteq> 0" "?m \<noteq> 0" "?h \<noteq> 0" "?r \<noteq> 0"
    using assms(3,4) by (auto simp: key_blocks_def)
  have b: "h_blocks h ?e = Some (mEncKey R)" "h_blocks h ?m = Some (mMacKey R)" "h_blocks h ?h = Some (mHashKey R)" "h_blocks h ?r = Some (mRollKey R)"
    "length (mEncKey R) = 64" "length (mMacKey R) = 64" "length (mHashKey R) = 64" "length (mRollKey R) = 64"
    using assms(1,2) by (simp_all add: keys_at_def keys_ok_def)
  let ?b = "(h_blocks h)(?e \<mapsto> ?z, ?m \<mapsto> ?z, ?h \<mapsto> ?z, ?r \<mapsto> ?z, ?m := None, ?e := None, ?h := None, ?r := None)"
  have "Repository_destroy P h = Some (Inr (), h\<lparr>h_blocks := ?b, h_released := h_released h @ [?z, ?z, ?z, ?z]\<rparr>)"
    using d b d [symmetric] by (simp add: Repository_destroy_def openssl_sizes explicit_bzero_Some free_block_Some)
  moreover have "?b = h_blocks h |` (- set (key_blocks P))" by (rule ext) (simp add: key_blocks_def restrict_map_def)
  moreover have "replicate (length (key_blocks P)) ?z = [?z, ?z, ?z, ?z]" by (simp add: key_blocks_def)
  ultimately show ?thesis by (simp only: wiped_def)
qed

text \<open>The results of \<^verbatim>\<open>malloc\<close> are not looked at: without the memory for the first key the constructor returns normally, and the destructor writes to the null pointer.\<close>

lemma Repository_without_memory:
  assumes "heap_ok h" and "h_fails h (h_next h)"
  shows "\<exists>P h1. Repository_construct h = Some (Inr P, h1) \<and> at_encKey P = 0 \<and> (\<forall>h2. heap_ok h2 \<longrightarrow> Repository_destroy P h2 = Some (Inl UndefinedBehaviour, h2))"
proof -
  have m: "\<exists>p h'. malloc EVP_MAX_KEY_LENGTH k = Some (Inr p, h')" for k by (simp add: malloc_def)
  let ?h = "h\<lparr>h_next := Suc (h_next h)\<rparr>"
  obtain a b c h1 h2 h3 where "malloc EVP_MAX_KEY_LENGTH ?h = Some (Inr a, h1)" "malloc EVP_MAX_KEY_LENGTH h1 = Some (Inr b, h2)" "malloc EVP_MAX_KEY_LENGTH h2 = Some (Inr c, h3)"
    using m by metis
  moreover have "malloc EVP_MAX_KEY_LENGTH h = Some (Inr 0, ?h)" using assms(2) by (simp add: malloc_def)
  moreover have "explicit_bzero 0 n k = Some (Inl UndefinedBehaviour, k)" if "heap_ok k" for n k
    using that by (auto simp: heap_ok_def explicit_bzero_def split: option.splits)
  ultimately show ?thesis by (simp add: Repository_construct_def Repository_destroy_def)
qed

text \<open>C26. The keys of a repository do not survive it. The constructor, when there is memory, allocates four new blocks and keeps everything else; whatever the keys are that
  these blocks hold when the object is destroyed, the destructor fills each of them with zeros before it gives it back, gives back each of them once, and changes nothing else.\<close>

theorem repository_keys_wiped:
  assumes "heap_ok h" and "\<forall>i < 4. \<not> h_fails h (h_next h + i)"
  shows "\<exists>P h1. Repository_construct h = Some (Inr P, h1) \<and> heap_ok h1 \<and> h_blocks h \<subseteq>\<^sub>m h_blocks h1 \<and> h_released h1 = h_released h
     \<and> (\<forall>R h2. keys_ok R \<and> keys_at P R h2 \<longrightarrow>
          (\<exists>h3. Repository_destroy P h2 = Some (Inr (), h3) \<and> h_released h3 = h_released h2 @ replicate 4 (replicate 64 0)
             \<and> h_blocks h3 = h_blocks h2 |` (- set (key_blocks P))))"
proof -
  obtain P h1 where P: "Repository_construct h = Some (Inr P, h1)" "heap_ok h1" "h_blocks h \<subseteq>\<^sub>m h_blocks h1" "h_released h1 = h_released h"
    "distinct (key_blocks P)" "0 \<notin> set (key_blocks P)" using Repository_construct_ok [OF assms] by blast
  have "length (key_blocks P) = 4" by (simp add: key_blocks_def)
  with P show ?thesis using Repository_destroy_ok [OF _ _ P(5,6)] by (auto simp: wiped_def)
qed

definition empty_heap :: heap where
  "empty_heap = \<lparr>h_blocks = Map.empty, h_next = 1, h_fails = \<lambda>_. False, h_junk = \<lambda>p i. of_nat (p + i), h_released = []\<rparr>"

lemma empty_heap_released: "h_released empty_heap = []"
  by (simp add: empty_heap_def)

lemma empty_heap_ok: "heap_ok empty_heap" "\<forall>i < 4. \<not> h_fails empty_heap (h_next empty_heap + i)"
  by (simp_all add: empty_heap_def heap_ok_def)

theorem repository_keys_wiped_witness:
  "\<exists>P h1 h2. Repository_construct empty_heap = Some (Inr P, h1) \<and> Repository_destroy P h1 = Some (Inr (), h2) \<and> h_released h2 = replicate 4 (replicate 64 0)"
proof -
  from repository_keys_wiped [OF empty_heap_ok] obtain P h1 where P: "Repository_construct empty_heap = Some (Inr P, h1)" "h_released h1 = []"
    "\<And>R h2. keys_ok R \<and> keys_at P R h2 \<Longrightarrow> \<exists>h3. Repository_destroy P h2 = Some (Inr (), h3) \<and> h_released h3 = h_released h2 @ replicate 4 (replicate 64 0)"
    by (metis empty_heap_released)
  let ?k = "\<lambda>p. the (h_blocks h1 p)"
  let ?R = "\<lparr>mEncKey = ?k (at_encKey P), mMacKey = ?k (at_macKey P), mHashKey = ?k (at_hashKey P), mRollKey = ?k (at_rollKey P), mOptions = Options_new\<rparr>"
  have "keys_ok ?R \<and> keys_at P ?R h1"
    using P(1) by (auto simp: Repository_construct_def malloc_def new_block_def empty_heap_def openssl_sizes keys_ok_def keys_at_def)
  from P(3) [OF this] P(1,2) show ?thesis by auto
qed

section \<open>The members of a rolling hash\<close>

definition rolling_hash_at :: "RollingHash_mem \<Rightarrow> RollingHash \<Rightarrow> heap \<Rightarrow> bool" where
  "rolling_hash_at P rh h \<longleftrightarrow> distinct [0, at_window P, at_key P, at_subTable P] \<and> h_blocks h (at_window P) = Some (mWindow rh)
     \<and> h_blocks h (at_key P) = Some (mKey rh) \<and> h_blocks h (at_subTable P) = Some (concat (map (word_to_le 4) (mSubTable rh)))"

lemma drop_concat_words: "drop (4 * n) (concat (map (word_to_le 4) ws)) = concat (map (word_to_le 4) (drop n ws))"
proof (induction ws arbitrary: n)
  case (Cons w ws)
  then show ?case by (cases n) simp_all
qed simp

text \<open>C27. Of the secrets of a rolling hash a part is left in memory. The destructor gives back the key wiped, but of the table made from the key, 256 words of 32 bits, it wipes 256
  bytes: the last 192 words can be read from the memory that is given back, and so can the window with the last bytes of the file, which is an ordinary vector.\<close>

theorem rolling_hash_memory:
  assumes "rolling_inv rh" and "length (mKey rh) = 32" and "rolling_hash_at P rh h"
  shows "\<exists>h'. RollingHash_destroy P h = Some (Inr (), h') \<and> h_blocks h' = h_blocks h |` (- {at_window P, at_key P, at_subTable P})
     \<and> h_released h' = h_released h @ [mWindow rh, replicate 32 0, replicate 256 0 @ concat (map (word_to_le 4) (drop 64 (mSubTable rh)))]"
proof -
  have len: "length (concat (map (word_to_le 4) (mSubTable rh))) = 1024"
    using assms(1) by (simp add: rolling_inv_def length_concat comp_def sum_list_triv)
  have rest: "drop 256 (concat (map (word_to_le 4) (mSubTable rh))) = concat (map (word_to_le 4) (drop 64 (mSubTable rh)))"
    using drop_concat_words [of 64 "mSubTable rh"] by simp
  let ?w = "at_window P" and ?k = "at_key P" and ?t = "at_subTable P" and ?z = "replicate 32 (0 :: byte)"
  let ?u = "replicate 256 0 @ concat (map (word_to_le 4) (drop 64 (mSubTable rh)))"
  have d: "?w \<noteq> 0" "?k \<noteq> 0" "?t \<noteq> 0" "?w \<noteq> ?k" "?w \<noteq> ?t" "?k \<noteq> ?t"
    and b: "h_blocks h ?w = Some (mWindow rh)" "h_blocks h ?k = Some (mKey rh)" "h_blocks h ?t = Some (concat (map (word_to_le 4) (mSubTable rh)))"
    using assms(3) by (auto simp: rolling_hash_at_def)
  have "explicit_bzero ?t 256 h = Some (Inr (), h\<lparr>h_blocks := (h_blocks h)(?t \<mapsto> ?u)\<rparr>)" using b(3) len rest by (simp add: explicit_bzero_def)
  then have "RollingHash_destroy P h = Some (Inr (), h\<lparr>h_blocks := (h_blocks h)(?t \<mapsto> ?u, ?k \<mapsto> ?z, ?w := None, ?k := None, ?t := None),
      h_released := h_released h @ [mWindow rh, ?z, ?u]\<rparr>)"
    using d d [symmetric] b(1,2) assms(2)
    by (simp add: RollingHash_destroy_def ZeroedArray_destroy_def explicit_bzero_Some free_block_Some release_block_def del: map_append concat_append)
  moreover have "(h_blocks h)(?t \<mapsto> ?u, ?k \<mapsto> ?z, ?w := None, ?k := None, ?t := None) = h_blocks h |` (- {?w, ?k, ?t})"
    by (rule ext) (simp add: restrict_map_def)
  ultimately show ?thesis by simp
qed

text \<open>A hash with the key of bytes 7: the table is not gone.\<close>

definition sample_rolling_mem :: RollingHash_mem where
  "sample_rolling_mem = \<lparr>at_window = 1, at_key = 2, at_subTable = 3\<rparr>"

theorem rolling_hash_memory_witness:
  "\<exists>rh h h'. RollingHash_new plain_env (replicate 32 7) 4 = Inr rh \<and> RollingHash_destroy sample_rolling_mem h = Some (Inr (), h')
     \<and> last (h_released h') = replicate 256 0 @ concat (map (word_to_le 4) (drop 64 (mSubTable rh)))"
proof -
  obtain rh where rh: "RollingHash_new plain_env (replicate 32 7) 4 = Inr rh" by (simp add: RollingHash_new_def Let_def)
  have inv: "rolling_inv rh" using RollingHash_new_inv [OF rh] by simp
  have key: "length (mKey rh) = 32" using rh by (auto simp: RollingHash_new_def Let_def split: option.splits prod.splits)
  let ?h = "empty_heap\<lparr>h_blocks := [1 \<mapsto> mWindow rh, 2 \<mapsto> mKey rh, 3 \<mapsto> concat (map (word_to_le 4) (mSubTable rh))]\<rparr>"
  have "rolling_hash_at sample_rolling_mem rh ?h" by (simp add: rolling_hash_at_def sample_rolling_mem_def)
  from rolling_hash_memory [OF inv key this] obtain h' where "RollingHash_destroy sample_rolling_mem ?h = Some (Inr (), h')"
    "last (h_released h') = replicate 256 0 @ concat (map (word_to_le 4) (drop 64 (mSubTable rh)))" by fastforce
  with rh show ?thesis by blast
qed

end
