(* ===== verification/Spec2Isabelle.thy ===== *)
theory Spec2Isabelle
  imports Backup_Command SSH_Data_Store Zeroed_Memory
begin

text \<open>
  A verification of NebulaBackup, a program that keeps encrypted, deduplicated backups of files in a data store.

  \<^bold>\<open>The program.\<close> A repository is a store of named objects: the key file \<^verbatim>\<open>/key\<close>, snapshots \<^verbatim>\<open>/snapshot/<name>\<close> and data objects
  \<^verbatim>\<open>/data/xx/...\<close>. \<^verbatim>\<open>Repository\<close> creates and unlocks it with a password, cuts files into blocks with a rolling hash, compresses, encrypts and
  authenticates each block and stores it under its keyed hash unless it is there, gathers small files in packs, and records every file in a
  \<^verbatim>\<open>Snapshot\<close>; downloading takes the same steps back. It works on one of three \<^verbatim>\<open>DataStore\<close>s, a directory, an SFTP server or an S3 bucket,
  through a family of streams. \<^verbatim>\<open>cli/Main.cpp\<close> is the command line.

  \<^bold>\<open>How it is modelled.\<close> A C++ operation on an object of state \<open>'s\<close> is a function \<open>'s \<Rightarrow> ((exn + 'a) \<times> 's) option\<close> (\<open>Nebula_Prelude\<close>):
  \<open>None\<close> is a call that does not return, \<open>Inl e\<close> a throw, and the state is part of the result in both other cases. Objects are records, virtual
  methods are records of functions, undefined behaviour is an exception of its own, integers have their width where it matters. Code outside
  the repository or vendored with it is a parameter: the cryptographic and compression functions are the record \<open>env\<close> of \<open>Environment\<close>, with what is
  relied on stated as \<open>cipher_ok\<close>, \<open>hmac_ok\<close>, \<open>digest_ok\<close>, \<open>kdf_ok\<close> and \<open>lzma_ok\<close>, and \<open>plain_env\<close> as an environment that has these properties; libssh
  is the record \<open>libssh\<close> (\<open>sftp_ok\<close>, \<open>mem_ssh\<close>), the AWS library the record \<open>aws\<close> (\<open>mem_s3\<close>), and the clock, signals and the like the record \<open>sys\<close>.
  The C library's files and the file system are modelled, with read errors and a full disk (\<open>File_Streams\<close>).

  \<^bold>\<open>The theories and the code\<close> (under \<^verbatim>\<open>src/libnebula\<close> unless noted).
  \<^item> \<open>Nebula_Prelude\<close>: \<^verbatim>\<open>Exception.h\<close>, the monad, lists, digits and words. \<open>Base32\<close>: \<^verbatim>\<open>Base32.cpp\<close>, equal to a reference encoding, and decoding inverts it.
  \<^item> \<open>Rolling_Hash\<close>: \<^verbatim>\<open>RollingHash.cpp\<close>; the incremental hash is the polynomial hash of the window, and depends on nothing else.
  \<^item> \<open>Streams\<close>, \<open>Memory_Streams\<close>, \<open>Filter_Streams\<close>, \<open>File_Streams\<close>, \<open>Temp_Streams\<close>, \<open>Crypto_Streams\<close>, \<open>Lzma_Streams\<close>: the stream classes. The locales
    \<open>input_stream\<close>, \<open>rewindable_stream\<close>, \<open>output_stream\<close> and \<open>stream_copy\<close> are their contracts; every class is an interpretation.
  \<^item> \<open>Stream_Utils\<close>: \<^verbatim>\<open>StreamUtils.cpp\<close>; sealing and opening are inverse, and what has been tampered with is rejected before anything is written.
  \<^item> \<open>Boost_Path\<close>, \<open>File_Info\<close>, \<open>Std_Map\<close>: the operations of \<^verbatim>\<open>boost::filesystem::path\<close> the program calls, \<^verbatim>\<open>FileInfo.cpp\<close>, and \<^verbatim>\<open>std::map\<close> as an ordered list.
  \<^item> \<open>Snapshots\<close>: \<^verbatim>\<open>Snapshot.cpp\<close>; its invariant, lookup after insertion, saving and loading, and the iteration over a subtree.
  \<^item> \<open>Data_Store\<close>, \<open>File_Data_Store\<close>, \<open>SSH_Data_Store\<close>, \<open>S3_Data_Store\<close>: the interface with its contract, the locale \<open>data_store\<close> (a store is a map from
    names to byte strings), and the backends. The directory store satisfies the contract; the SFTP store does not, since it cannot create
    objects, and its theorems say what it does; of the bucket the stream buffers and transfers are verified for any behaviour of the library.
  \<^item> \<open>Repository\<close>, \<open>Repository_Keys\<close>, \<open>Repository_Snapshots\<close>, \<open>Chunking\<close>, \<open>Upload\<close>, \<open>Download\<close>, \<open>Packs\<close>: \<^verbatim>\<open>Repository.cpp\<close>, proved over any store that satisfies the contract
    (inside the locale) and applied to the directory store: keys and passwords, committing and loading snapshots, the cutting into blocks,
    uploading with the invariant of the archive of blocks, downloading, packs.
  \<^item> \<open>Zeroed_Memory\<close>: \<^verbatim>\<open>ZeroedAllocator.h\<close>, \<^verbatim>\<open>ZeroedArray.h\<close> and the destructors of the classes that hold keys, on a memory with addresses; what is wiped before
    it is given back, and what is not.
  \<^item> \<open>Console\<close>, \<open>Command_Line\<close>: \<^verbatim>\<open>src/cli/Main.cpp\<close>; the prompts, the display and every command up to \<^verbatim>\<open>main\<close>.
  \<^item> \<open>Restore_Command\<close>, \<open>Backup_Command\<close>: whole runs of the commands, with the repository in a directory of the same disk the files are on. The store of the
    program, a part of its state, satisfies the contract, and so does the store with the additional promise that nothing outside its directory changes
    (\<open>kept_store\<close>); the loops over the files of a backup and the entries of a restore keep an invariant of snapshot, packs and disk (\<open>backing_up\<close>, \<open>restored\<close>).
  \<^item> This theory: the commands \<^verbatim>\<open>init\<close>, \<^verbatim>\<open>backup\<close> and \<^verbatim>\<open>restore\<close> from \<^verbatim>\<open>main\<close> on, and backing up and restoring with the library.

  \<^bold>\<open>What the theorems on the commands assume.\<close> No signal arrives and the disk of the temporary files has room (\<open>calm\<close>), the cryptographic functions have their
  properties (\<open>crypto_ok\<close>), the directory holds a repository of the password (\<open>repository_at\<close>), which is typed at the prompt (\<open>typed\<close>). For a backup the sources are readable files outside
  the repository, small enough for packs, and fit the indices of a snapshot; their contents are distinct and no pack of them is in the repository (\<open>backup_ready\<close>, \<open>fresh_packs\<close>): a pack
  that is stored already leaves entries behind that cannot be restored (\<open>existing_pack_not_placed\<close>). For a restore every file has a place of its own below the destination, where
  nothing exists yet and directories can be made (\<open>destinations\<close>).

  \<^bold>\<open>Loops and bounds.\<close> Loops that end by the size of their data are total functions. Loops over streams and remote calls (\<open>read_each\<close>,
  \<open>blocks_loop\<close>, \<open>again_io\<close>, \<open>run_upload\<close>, \<open>run_download\<close> and others) are \<^theory_text>\<open>partial_function (option)\<close>; no fuel is used, and the theorems state that the calls
  return. Streams are assumed to be shorter than \<open>2 ^ 63\<close> bytes, and snapshots to fit their 32 bit indices (\<open>snap_room\<close>, \<open>pack_room\<close>).

  \<^bold>\<open>Not modelled.\<close> \<^verbatim>\<open>compactRepository\<close> is declared and has no definition. Addresses and the wiping of memory are modelled in \<open>Zeroed_Memory\<close> only; elsewhere objects are values.
  The mutex of \<^verbatim>\<open>Snapshot\<close>, which every method holds throughout, the Windows branches, messages of exceptions, the progress callback
  and the allocator of the LZMA coder, for which every caller passes null, and the inside of the vendored libraries are left out. That files do not
  change while a stream has them open is assumed.
\<close>

section \<open>The program\<close>





text \<open>C3. The command \<^verbatim>\<open>init\<close>: when the password and its confirmation agree, the directory has a repository afterwards that the password opens, made by storing one object, the
  key file; otherwise the disk is as it was. Nothing outside the directory is touched. In both cases the program returns 0.\<close>

theorem init_command:
  fixes M :: "('e, 'dc, 'h, 'm, 'l, 'z, 'w) machine"
  assumes "calm M" and "crypto_ok (m_env M) H D" and "\<forall>k. cipher_padded (m_env M) k" and "kdf_ok (m_env M)"
    and "parse_flags flags Cli_Options_new = Some opts" and "backend opts \<noteq> ''s3''" and "file_store_ok root (c_disk s)" and "typed_twice password confirm (c_con s)"
  shows "\<exists>s' R kf. main M flags [''init'', root] s = Some (Inr 0, s') \<and> same_outside root (c_disk s) (c_disk s')
     \<and> (if confirm = password then repository_at (m_env M) H password R root (c_disk s') \<and> file_objects root (c_disk s') = (file_objects root (c_disk s))(''/key'' \<mapsto> kf)
        else c_disk s' = c_disk s)"
  by (rule init_run [OF assms])

theorem init_command_witness:
  "\<exists>s' R. main sample_machine [] [''init'', ''/s''] (sample_cli store_disk (''secret'' @ [newline] @ ''secret'' @ [newline])) = Some (Inr 0, s')
     \<and> repository_at plain_env plain_hmac ''secret'' R ''/s'' (c_disk s')"
proof -
  let ?s = "sample_cli store_disk (''secret'' @ [newline] @ ''secret'' @ [newline])"
  have a: "\<forall>k. cipher_padded (m_env sample_machine) k" "kdf_ok (m_env sample_machine)" "parse_flags [] Cli_Options_new = Some Cli_Options_new"
    "backend Cli_Options_new \<noteq> ''s3''" "file_store_ok ''/s'' (c_disk ?s)" "typed_twice ''secret'' ''secret'' (c_con ?s)"
    using plain_ciphers plain_kdf_ok store_disk_ok
    by (auto simp: sample_machine_def Cli_Options_new_def sample_cli_def typed_twice_def sample_console_def NUL_def)
  from init_command [OF sample_machine_ok a] show ?thesis by (auto simp: sample_machine_def)
qed

section \<open>Backing up and restoring\<close>

text \<open>Restoring from a store: unlocking, loading and downloading.\<close>

lemma restore_ok:
  fixes E :: "('e, 'dc, 'h, 'm, 'l, 'z) env" and w :: "(filesys, 'p) session"
  assumes "file_store_ok root (w_store w)" and "file_objects root (w_store w) ''/key'' = Some kf" and "key_file E H password (all_keys R) kf"
    and "keys_ok R" and "keys_ok (w_repo w)" and env: "env_ok E H R" and c: "\<And>k. cipher_ok E k"
    and "file_objects root (w_store w) (snapshot_path name) = Some y" and "sealed_snapshot E H R s0 y" and "snap_inv s0" and "canonical s0"
    and "plain_name (cstr name)" and "quiet pr" and "quiet_transfer tpr" and "disk_free fs" and "getFileEntry path s0 = Some fe"
    and "list_all2 (object_holds E H R (file_objects root (w_store w)) fe) (entry_ids s0 fe) xs" and "xs \<noteq> []" and "concat xs = bs"
  shows "\<exists>w3 s w4 w5 t. unlockRepository E fs (FileDataStore root) password pr w = Some (Inr True, w3)
     \<and> loadSnapshot E fs (FileDataStore root) name pr w3 = Some (Inr s, w4)
     \<and> downloadFile E fs (FileDataStore root) s path TempFileStream_write tpr (w4, TempFileStream_new fs) = Some (Inr True, (w5, t))
     \<and> tmp_written t = bs"
proof -
  obtain p R' where w3: "unlockRepository E fs (FileDataStore root) password pr w = Some (Inr True, w\<lparr>w_prog := p, w_repo := R'\<rparr>)" "same_keys R R'"
    using file_store.unlock_ok [OF assms(1-5) env_okD(1) [OF env] c assms(13,15)] by blast
  let ?w3 = "w\<lparr>w_prog := p, w_repo := R'\<rparr>"
  have keys: "mEncKey R' = mEncKey R" "mMacKey R' = mMacKey R" using w3(2) by (simp_all add: same_keys_def)
  have k: "file_store_ok root (w_store ?w3)" "file_objects root (w_store ?w3) (snapshot_path name) = Some y"
    "sealed_snapshot E H (w_repo ?w3) s0 y" using assms(1,8,9) keys by (simp_all add: sealed_snapshot_def)
  obtain p4 s where s: "loadSnapshot E fs (FileDataStore root) name pr ?w3 = Some (Inr s, ?w3\<lparr>w_prog := p4\<rparr>)"
    "mFiles s = mFiles s0" "mObjectIDs s = mObjectIDs s0" "snap_inv s"
    using file_store.loadSnapshot_ok [OF k assms(10,11,12) env_okD(1) [OF env] c assms(13,15)] by blast
  let ?w4 = "?w3\<lparr>w_prog := p4\<rparr>"
  have "object_holds E H R' = object_holds E H R" by (intro ext) (simp add: object_holds_def keys)
  then have holds: "list_all2 (object_holds E H (w_repo ?w4) (file_objects root (w_store ?w4)) fe) (entry_ids s fe) xs"
    using assms(17) by (simp add: entry_ids_def s(3))
  have w4: "file_store_ok root (w_store ?w4)" "env_ok E H (w_repo ?w4)" using env c k(1) by (simp_all add: env_ok_def)
  have found: "getFileEntry path s = Some fe" using assms(16) by (simp add: getFileEntry_def s(2))
  obtain p5 t where "downloadFile E fs (FileDataStore root) s path TempFileStream_write tpr (?w4, TempFileStream_new fs)
      = Some (Inr True, (?w4\<lparr>w_prog := p5\<rparr>, t))" "tmp_written t = bs"
    using file_store.downloadFile_ok [OF tmp_out.output_stream_axioms w4 assms(14,15) s(4) found holds assms(18) tmp_room_free [OF assms(15), of "length (concat xs) + 0"]]
      assms(19) by auto
  with w3(1) s(1) show ?thesis by blast
qed

text \<open>C4. The library as a whole. A repository has the key file of a password. A file is uploaded, and the snapshot is committed under a
  name. Then anybody who opens the store with the password, in a new session with a new \<^verbatim>\<open>Repository\<close> object, can unlock it, load
  the snapshot by its name and download the file from it; all calls terminate normally, and what is written is exactly the file.\<close>

theorem backup_restore:
  fixes E :: "('e, 'dc, 'h, 'm, 'l, 'z) env" and u :: "('h, filesys, 'p) uploading"
  assumes "archive E H B (file_store_ok root) (file_objects root) (up_sess u)" and "digest_ok E D" and "file_ready info (up_file u) bs"
    and "quiet_transfer tpr" and "disk_free fs" and "up_pack u = None" and "R = w_repo (up_sess u)" and "options_ok (mOptions R)"
    and "RollingHash_new E (mRollKey R) 8192 = Inr rh" and "fi = info (mPath (up_file u))" and "ct = compression_for fi"
    and "blks = file_blocks (mOptions R) lg rh bs" and "\<forall>blk \<in> set blks. (ct, blk) \<in> B"
    and "snap_inv (up_snap u)" and "path = normalized_path dest" and "NUL \<notin> set path" and "snap_room (up_snap u) path fi (length blks)"
    and "getFileEntry path (up_snap u) = None" and "canonical (up_snap u)"
    and "path = dir @ ''/'' @ file" and "plain_dir dir" and "plain_name file"
    and "file_objects root (w_store (up_sess u)) ''/key'' = Some kf" and "key_file E H password (all_keys R) kf" and "keys_ok R"
    and "\<forall>k. cipher_ok E k" and "plain_name (cstr name)" and "quiet pr"
  shows "\<exists>u' w1. uploadFile E fs (FileDataStore root) lg info dest tpr u = Some (Inr (), u')
     \<and> commitSnapshot E fs (FileDataStore root) (up_snap u') name pr (up_sess u') = Some (Inr (), w1)
     \<and> (\<forall>w2. w_store w2 = w_store w1 \<and> keys_ok (w_repo w2) \<longrightarrow>
          (\<exists>w3 s w4 w5 t. unlockRepository E fs (FileDataStore root) password pr w2 = Some (Inr True, w3)
             \<and> loadSnapshot E fs (FileDataStore root) name pr w3 = Some (Inr s, w4)
             \<and> downloadFile E fs (FileDataStore root) s path TempFileStream_write tpr (w4, TempFileStream_new fs) = Some (Inr True, (w5, t))
             \<and> tmp_written t = bs))"
proof -
  have c: "\<And>k. cipher_ok E k" using assms(26) by blast
  have env: "env_ok E H R" using assms(1,7) by (simp add: archive_def)
  obtain u' fe where u': "uploadFile E fs (FileDataStore root) lg info dest tpr u = Some (Inr (), u')"
    "archive E H B (file_store_ok root) (file_objects root) (up_sess u')" "archived H ct (file_objects root) (up_sess u) blks (up_sess u')"
    "snap_inv (up_snap u')" "mFiles (up_snap u') = smap_insert path fe (mFiles (up_snap u))"
    "\<exists>x. mStringBuffer (up_snap u') = mStringBuffer (up_snap u) @ x"
    "entry_strings (up_snap u') fe (filename path) (parent_path path) (cstr (mUserName fi)) (cstr (mGroupName fi))"
    "entry_ids (up_snap u') fe = map (block_id H R ct) blks" "fe_packLength fe = 0" "fe_compression fe = byte_of_compression ct"
    using file_store.uploadFile_entry_ok [where info = info and blks = blks and lg = lg and ct = ct and dest = dest,
        OF assms(1-9,12) bspec [OF assms(13)] assms(10,11,14-17)] by blast
  have repo: "w_repo (up_sess u') = R" using u'(3) assms(7) by (simp add: archived_def)
  have names: "filename path = file" "parent_path path = dir"
    using filename_dir [OF assms(21,22)] parent_path_dir [OF assms(21,22)] assms(20) by simp_all
  have canon: "canonical (up_snap u')" by (rule canonical_insert [OF assms(14,19) u'(5) u'(7) [unfolded names] u'(6) assms(20)])
  have ok: "file_store_ok root (w_store (up_sess u'))" using u'(2) by (simp add: archive_def)
  obtain w1 y where w1: "commitSnapshot E fs (FileDataStore root) (up_snap u') name pr (up_sess u') = Some (Inr (), w1)"
    "file_store_ok root (w_store w1)" "w_repo w1 = R" "sealed_snapshot E H R (up_snap u') y"
    "file_objects root (w_store w1) = (file_objects root (w_store (up_sess u')))(snapshot_path name \<mapsto> y)"
    using file_store.commitSnapshot_ok [OF ok u'(4) assms(27) env_okD(1) [OF env] c env_okD(4) [OF env] assms(28,5)] repo by auto
  have key: "file_objects root (w_store w1) ''/key'' = Some kf"
    using map_le_Some [OF archived_le [OF u'(3)] assms(23)] w1(5) object_name_not_snapshot(3) by simp
  have found: "getFileEntry path (up_snap u') = Some fe"
    using smap.find_ins [of "mFiles (up_snap u)" path path fe] assms(14,16,18) by (simp add: getFileEntry_def u'(5) snap_inv_def)
  have ct: "\<And>b. ct \<noteq> InvalidCompression b" using assms(11) by (simp add: compression_for_def)
  have "\<exists>w3 s w4 w5 t. unlockRepository E fs (FileDataStore root) password pr w2 = Some (Inr True, w3)
       \<and> loadSnapshot E fs (FileDataStore root) name pr w3 = Some (Inr s, w4)
       \<and> downloadFile E fs (FileDataStore root) s path TempFileStream_write tpr (w4, TempFileStream_new fs) = Some (Inr True, (w5, t))
       \<and> tmp_written t = bs"
    if w2: "w_store w2 = w_store w1" "keys_ok (w_repo w2)" for w2 :: "(filesys, 'p) session"
  proof (rule restore_ok [OF _ _ assms(24,25) w2(2) env c _ w1(4) u'(4) canon assms(27,28,4,5) found])
    show "list_all2 (object_holds E H R (file_objects root (w_store w2)) fe) (entry_ids (up_snap u') fe) blks"
      using file_store.archived_holds [where v = "w2\<lparr>w_repo := R\<rparr>", OF u'(2,3) bspec [OF assms(13)] _ _ _ u'(9,10) ct]
      unfolding u'(8) using w1(5) w2(1) object_name_not_snapshot(1) assms(7) by simp
  qed (use w1(2,5) w2(1) key concat_file_blocks file_blocks_not_Nil [OF assms(8)] assms(12) in simp_all)
  with u'(1) w1(1) show ?thesis by blast
qed

text \<open>A whole run on an empty directory: the repository is created, a file is backed up and restored.\<close>

theorem backup_restore_witness:
  "\<exists>w0 u' w1 w3 s w4 w5 t. initializeRepository plain_env empty_disk (FileDataStore ''/s'') ''secret'' 4 DefaultProgressFunction
         (sample_session store_disk) = Some (Inr (), w0)
     \<and> uploadFile plain_env empty_disk (FileDataStore ''/s'') (\<lambda>_. 18) sample_info ''docs/x'' DefaultFileTransferProgressFunction
         (sample_upload\<lparr>up_sess := w0\<rparr>) = Some (Inr (), u')
     \<and> commitSnapshot plain_env empty_disk (FileDataStore ''/s'') (up_snap u') ''monday'' DefaultProgressFunction (up_sess u') = Some (Inr (), w1)
     \<and> unlockRepository plain_env empty_disk (FileDataStore ''/s'') ''secret'' DefaultProgressFunction (sample_session (w_store w1))
         = Some (Inr True, w3)
     \<and> loadSnapshot plain_env empty_disk (FileDataStore ''/s'') ''monday'' DefaultProgressFunction w3 = Some (Inr s, w4)
     \<and> downloadFile plain_env empty_disk (FileDataStore ''/s'') s ''docs/x'' TempFileStream_write DefaultFileTransferProgressFunction
         (w4, TempFileStream_new empty_disk) = Some (Inr True, (w5, t)) \<and> tmp_written t = [7, 8, 9]"
proof -
  have "file_store_ok ''/s'' (w_store (sample_session store_disk))" by (simp add: store_disk_ok)
  from file_store.initializeRepository_ok [OF this plain_hmac_ok plain_cipher_ok plain_cipher_padded plain_kdf_ok _ quiet_default empty_disk_free,
      of 4 "''secret''"] store_disk_objects
  obtain w0 kf where w0: "initializeRepository plain_env empty_disk (FileDataStore ''/s'') ''secret'' 4 DefaultProgressFunction
         (sample_session store_disk) = Some (Inr (), w0)" "file_store_ok ''/s'' (w_store w0)" "keys_ok (w_repo w0)"
    "file_objects ''/s'' (w_store w0) = [''/key'' \<mapsto> kf]" "key_file plain_env plain_hmac ''secret'' (all_keys (w_repo w0)) kf"
    "mOptions (w_repo w0) = mOptions (w_repo (sample_session store_disk))" by auto
  let ?u = "sample_upload\<lparr>up_sess := w0\<rparr>"
  obtain rh where rh: "RollingHash_new plain_env (mRollKey (w_repo w0)) 8192 = Inr rh" using RollingHash_new_ok [OF plain_cipher_ok] by blast
  have a: "archive plain_env plain_hmac {(LZMA2, [7, 8, 9])} (file_store_ok ''/s'') (file_objects ''/s'') (up_sess ?u)"
    using w0(2,4) object_name_not_snapshot(2)
    by (simp add: archive_def env_ok_def archive_ok_def plain_hmac_ok plain_cipher_ok plain_lzma_ok block_path_def)
  have b: "file_ready sample_info (up_file ?u) [7, 8, 9]" "up_pack ?u = None" "w_repo w0 = w_repo (up_sess ?u)"
    "options_ok (mOptions (w_repo w0))" "[[7, 8, 9]] = file_blocks (mOptions (w_repo w0)) (\<lambda>_. 18) rh [7, 8, 9]" "snap_inv (up_snap ?u)"
    "snap_room (up_snap ?u) ''docs/x'' (sample_info (mPath (up_file ?u))) (length [[7, 8, 9 :: byte]])"
    "getFileEntry ''docs/x'' (up_snap ?u) = None" "canonical (up_snap ?u)" "file_objects ''/s'' (w_store (up_sess ?u)) ''/key'' = Some kf"
    using sample_sess(3) sample_snap sample_options sample_blocks(1) w0(4,6) by (simp_all add: canonical_def Snapshot_new_def)
  have n: "plain_dir ''docs''" "plain_name ''x''" "plain_name (cstr ''monday'')" "''docs/x'' = ''docs'' @ ''/'' @ ''x''"
    by (simp_all add: plain_dir_def plain_name_def sep_at_def is_sep_def cstr_def NUL_def)
  note run = backup_restore [OF a plain_digest_ok b(1) quiet_transfer_default empty_disk_free b(2,3,4) rh refl sample_compression [symmetric]
      b(5) sample_blocks(2) b(6) sample_path(1) [symmetric] sample_path(2) b(7,8,9) n(4,1,2) b(10) w0(5,3) plain_ciphers(1) n(3) quiet_default]
  from run obtain u' w1 where u': "uploadFile plain_env empty_disk (FileDataStore ''/s'') (\<lambda>_. 18) sample_info ''docs/x''
         DefaultFileTransferProgressFunction ?u = Some (Inr (), u')"
    "commitSnapshot plain_env empty_disk (FileDataStore ''/s'') (up_snap u') ''monday'' DefaultProgressFunction (up_sess u') = Some (Inr (), w1)"
    "\<And>v :: (filesys, unit) session. w_store v = w_store w1 \<and> keys_ok (w_repo v) \<Longrightarrow>
       (\<exists>w3 s w4 w5 t. unlockRepository plain_env empty_disk (FileDataStore ''/s'') ''secret'' DefaultProgressFunction v = Some (Inr True, w3)
          \<and> loadSnapshot plain_env empty_disk (FileDataStore ''/s'') ''monday'' DefaultProgressFunction w3 = Some (Inr s, w4)
          \<and> downloadFile plain_env empty_disk (FileDataStore ''/s'') s ''docs/x'' TempFileStream_write DefaultFileTransferProgressFunction
              (w4, TempFileStream_new empty_disk) = Some (Inr True, (w5, t)) \<and> tmp_written t = [7, 8, 9])"
    by meson
  have "w_store (sample_session (w_store w1)) = w_store w1 \<and> keys_ok (w_repo (sample_session (w_store w1)))" by (simp add: sample_keys_ok)
  from u'(3) [OF this] w0(1) u'(1,2) show ?thesis by blast
qed

end
